(* ===== verification/Prelude.thy ===== *)
theory Prelude
  imports Main "HOL-Library.Word" "HOL-Library.AList" "HOL-Library.Char_ord"
    "HOL-Library.List_Lexorder" "HOL-Library.Multiset"
begin

text \<open>
  What the components share: the machine types of the node (Rust's \<open>u8\<close> to \<open>u128\<close> as
  words, byte strings as lists of words), the arithmetic of Rust's standard library that
  the code calls by name (\<open>checked_add\<close>, \<open>saturating_sub\<close>, \<open>to_le_bytes\<close>, \<open>Display\<close>
  for integers), \<open>Result\<close> with its \<open>?\<close> operator, text and UTF-8, and the interfaces of
  encodings that several components rely on, as locales with their interpretations:
  \<open>fixed_codec\<close> and \<open>prefix_code\<close> (encodings whose concatenation can be read back). The rewrite
  rules of results, maps and byte encodings are collected under the names declared here.
\<close>

named_theorems res_simps "rewriting of results and the ? operator"
named_theorems hm_simps "lookups in hash maps"
named_theorems byte_simps "lengths and round trips of byte encodings"

section \<open>Machine types\<close>

type_synonym u8 = "8 word"
type_synonym u16 = "16 word"
type_synonym u32 = "32 word"
type_synonym u64 = "64 word"
type_synonym u128 = "128 word"
type_synonym bytes = "u8 list"

text \<open>
  The operations of Rust's integers that the code calls. Plain \<open>+\<close> and \<open>*\<close> on words wrap,
  as they do in the release build that the repository documents.
\<close>

definition checked_add :: "'a::len word \<Rightarrow> 'a word \<Rightarrow> 'a word option" where
  "checked_add a b = (if unat a + unat b < 2 ^ LENGTH('a) then Some (a + b) else None)"

definition saturating_add :: "'a::len word \<Rightarrow> 'a word \<Rightarrow> 'a word" where
  "saturating_add a b = (if unat a + unat b < 2 ^ LENGTH('a) then a + b else - 1)"

definition saturating_sub :: "'a::len word \<Rightarrow> 'a word \<Rightarrow> 'a word" where
  "saturating_sub a b = (if b \<le> a then a - b else 0)"

definition saturating_mul :: "'a::len word \<Rightarrow> 'a word \<Rightarrow> 'a word" where
  "saturating_mul a b = (if unat a * unat b < 2 ^ LENGTH('a) then a * b else - 1)"

lemma unat_inject [simp]: "unat a = unat b \<longleftrightarrow> a = (b :: 'a::len word)"
  by (simp add: word_unat_eq_iff)

lemma unat_of_nat_small: "n < 2 ^ LENGTH('a) \<Longrightarrow> unat (word_of_nat n :: 'a::len word) = n"
  by (simp add: unat_of_nat)

lemma word_of_nat_inject:
  "m < 2 ^ LENGTH('a) \<Longrightarrow> n < 2 ^ LENGTH('a) \<Longrightarrow>
     (word_of_nat m :: 'a::len word) = word_of_nat n \<longleftrightarrow> m = n"
  by (metis unat_of_nat_small)

lemma unat_max_word: "unat (- 1 :: 'a::len word) = 2 ^ LENGTH('a) - 1"
  by (simp add: unsigned_minus_1_eq_mask mask_eq_exp_minus_1)

lemma checked_add_SomeD:
  "checked_add a b = Some (c :: 'a::len word) \<Longrightarrow> unat c = unat a + unat b"
  by (auto simp: checked_add_def unat_word_ariths split: if_splits)

lemma checked_add_None:
  "checked_add a (b :: 'a::len word) = None \<longleftrightarrow> 2 ^ LENGTH('a) \<le> unat a + unat b"
  by (simp add: checked_add_def not_less)

lemma unat_saturating_add:
  "unat (saturating_add a (b :: 'a::len word)) = min (unat a + unat b) (2 ^ LENGTH('a) - 1)"
proof -
  have "0 < (2 :: nat) ^ LENGTH('a)" by simp
  then show ?thesis
    by (auto simp: saturating_add_def unat_word_ariths unat_max_word)
qed

lemma unat_saturating_sub: "unat (saturating_sub a b) = unat a - unat b"
  by (auto simp: saturating_sub_def unat_sub_if_size word_le_nat_alt unat_sub)

lemma unat_saturating_mul:
  "unat (saturating_mul a (b :: 'a::len word)) = min (unat a * unat b) (2 ^ LENGTH('a) - 1)"
proof -
  have "0 < (2 :: nat) ^ LENGTH('a)" by simp
  then show ?thesis
    by (auto simp: saturating_mul_def unat_word_ariths unat_max_word)
qed

text \<open>\<open>iter().try_fold(acc, checked_add)\<close>: the running sum, \<open>None\<close> at the first overflow.\<close>

fun try_sum :: "'a::len word \<Rightarrow> 'a word list \<Rightarrow> 'a word option" where
  "try_sum acc [] = Some acc"
| "try_sum acc (x # xs) =
     (case checked_add acc x of None \<Rightarrow> None | Some a \<Rightarrow> try_sum a xs)"

lemma try_sum_SomeD:
  "try_sum acc xs = Some s \<Longrightarrow> unat s = unat acc + sum_list (map unat xs)"
  by (induction xs arbitrary: acc) (auto dest: checked_add_SomeD split: option.splits)

lemma try_sum_None:
  "try_sum (acc :: 'a::len word) xs = None
     \<longleftrightarrow> 2 ^ LENGTH('a) \<le> unat acc + sum_list (map unat xs)"
proof (induction xs arbitrary: acc)
  case Nil
  then show ?case by (simp add: not_le)
next
  case (Cons x xs)
  show ?case
  proof (cases "checked_add acc x")
    case None
    then have "2 ^ LENGTH('a) \<le> unat acc + unat x" by (simp add: checked_add_None)
    with None show ?thesis by simp
  next
    case (Some a)
    then show ?thesis by (auto simp: Cons.IH checked_add_SomeD [OF Some] add.assoc)
  qed
qed

section \<open>Results\<close>

text \<open>
  \<open>try_res r k\<close> is Rust's \<open>let x = r?; k(x)\<close>: an error leaves the function at once.
\<close>

definition try_res :: "'e + 'a \<Rightarrow> ('a \<Rightarrow> 'e + 'b) \<Rightarrow> 'e + 'b" where
  "try_res r k = (case r of Inl e \<Rightarrow> Inl e | Inr x \<Rightarrow> k x)"

definition ok_or :: "'e \<Rightarrow> 'a option \<Rightarrow> 'e + 'a" where
  "ok_or e m = (case m of None \<Rightarrow> Inl e | Some x \<Rightarrow> Inr x)"

definition map_err :: "('e \<Rightarrow> 'f) \<Rightarrow> 'e + 'a \<Rightarrow> 'f + 'a" where
  "map_err f r = (case r of Inl e \<Rightarrow> Inl (f e) | Inr x \<Rightarrow> Inr x)"

definition is_ok :: "'e + 'a \<Rightarrow> bool" where
  "is_ok r = (case r of Inl _ \<Rightarrow> False | Inr _ \<Rightarrow> True)"

lemma try_res_simps [simp, res_simps]:
  "try_res (Inl e) k = Inl e"
  "try_res (Inr x) k = k x"
  by (simp_all add: try_res_def)

lemma ok_or_simps [simp, res_simps]:
  "ok_or e None = Inl e"
  "ok_or e (Some x) = Inr x"
  by (simp_all add: ok_or_def)

lemma map_err_simps [simp, res_simps]:
  "map_err f (Inl e) = Inl (f e)"
  "map_err f (Inr x) = Inr x"
  by (simp_all add: map_err_def)

lemma is_ok_simps [simp, res_simps]:
  "is_ok (Inr x)"
  "\<not> is_ok (Inl e)"
  by (simp_all add: is_ok_def)

lemma is_ok_iff: "is_ok r \<longleftrightarrow> (\<exists>x. r = Inr x)"
  by (cases r) simp_all

lemma try_res_Inr: "try_res r k = Inr y \<longleftrightarrow> (\<exists>x. r = Inr x \<and> k x = Inr y)"
  by (cases r) auto

lemma ok_or_Inr [simp]: "ok_or e m = Inr x \<longleftrightarrow> m = Some x"
  by (cases m) auto

lemma map_err_Inr [simp]: "map_err f r = Inr x \<longleftrightarrow> r = Inr x"
  by (cases r) auto

text \<open>
  The same for an operation on a state that can fail: the state changes made before the error
  stay.
\<close>

type_synonym ('s, 'e, 'a) st_result = "('e + 'a) \<times> 's"

definition try_st :: "('s, 'e, 'a) st_result \<Rightarrow> ('a \<Rightarrow> 's \<Rightarrow> ('s, 'e, 'b) st_result) \<Rightarrow> ('s, 'e, 'b) st_result"
where
  "try_st r k = (case r of (Inl e, s) \<Rightarrow> (Inl e, s) | (Inr x, s) \<Rightarrow> k x s)"

lemma try_st_simps [simp, res_simps]:
  "try_st (Inl e, s) k = (Inl e, s)"
  "try_st (Inr x, s) k = k x s"
  by (simp_all add: try_st_def)

lemma try_st_Inr:
  "try_st r k = (Inr y, t) \<longleftrightarrow> (\<exists>x s. r = (Inr x, s) \<and> k x s = (Inr y, t))"
  by (cases r; cases "fst r") auto

section \<open>Bytes\<close>

text \<open>
  \<open>to_le_bytes\<close>, \<open>to_be_bytes\<close> and their inverses, over the number an integer stands for.
\<close>

fun nat_le :: "nat \<Rightarrow> nat \<Rightarrow> bytes" where
  "nat_le 0 x = []"
| "nat_le (Suc n) x = word_of_nat (x mod 256) # nat_le n (x div 256)"

fun le_nat :: "bytes \<Rightarrow> nat" where
  "le_nat [] = 0"
| "le_nat (b # bs) = unat b + 256 * le_nat bs"

definition be_nat :: "bytes \<Rightarrow> nat" where
  "be_nat bs = le_nat (rev bs)"

definition u16_be :: "u16 \<Rightarrow> bytes" where "u16_be w = rev (nat_le 2 (unat w))"
definition u32_le :: "u32 \<Rightarrow> bytes" where "u32_le w = nat_le 4 (unat w)"
definition u32_be :: "u32 \<Rightarrow> bytes" where "u32_be w = rev (nat_le 4 (unat w))"
definition u64_le :: "u64 \<Rightarrow> bytes" where "u64_le w = nat_le 8 (unat w)"

definition u16_of_be :: "bytes \<Rightarrow> u16" where "u16_of_be bs = word_of_nat (be_nat bs)"
definition u32_of_le :: "bytes \<Rightarrow> u32" where "u32_of_le bs = word_of_nat (le_nat bs)"
definition u32_of_be :: "bytes \<Rightarrow> u32" where "u32_of_be bs = word_of_nat (be_nat bs)"
definition u64_of_le :: "bytes \<Rightarrow> u64" where "u64_of_le bs = word_of_nat (le_nat bs)"
definition u128_of_be :: "bytes \<Rightarrow> u128" where "u128_of_be bs = word_of_nat (be_nat bs)"

lemma length_nat_le [simp, byte_simps]: "length (nat_le n x) = n"
  by (induction n arbitrary: x) simp_all

lemma nat_le_numeral:
  "nat_le (numeral k) x = word_of_nat (x mod 256) # nat_le (pred_numeral k) (x div 256)"
proof -
  have "numeral k = Suc (pred_numeral k)" by (rule numeral_eq_Suc)
  then show ?thesis by (simp only: nat_le.simps)
qed

lemma nat_le_zero: "nat_le n 0 = replicate n 0"
  by (induction n) simp_all

lemma unat_byte_of_nat: "unat (word_of_nat (x mod 256) :: u8) = x mod 256"
  by (simp add: unat_of_nat)

lemma le_nat_nat_le [byte_simps]: "le_nat (nat_le n x) = x mod 256 ^ n"
proof (induction n arbitrary: x)
  case 0
  then show ?case by simp
next
  case (Suc n)
  have "le_nat (nat_le (Suc n) x) = x mod 256 + 256 * (x div 256 mod 256 ^ n)"
    by (simp add: Suc.IH unat_byte_of_nat)
  also have "\<dots> = x mod (256 * 256 ^ n)"
    by (simp add: mod_mult2_eq)
  finally show ?case by simp
qed

lemma le_nat_append: "le_nat (xs @ ys) = le_nat xs + 256 ^ length xs * le_nat ys"
  by (induction xs) (simp_all add: algebra_simps)

lemma le_nat_bound: "le_nat bs < 256 ^ length bs"
proof (induction bs)
  case Nil
  then show ?case by simp
next
  case (Cons b bs)
  have "unat b < 256" using unsigned_less [of b, where ?'a = nat] by simp
  with Cons show ?case by simp
qed

lemma be_nat_Cons: "be_nat (b # bs) = unat b * 256 ^ length bs + be_nat bs"
  by (simp add: be_nat_def le_nat_append)

lemma be_nat_Nil [simp]: "be_nat [] = 0"
  by (simp add: be_nat_def)

lemma be_nat_bound: "be_nat bs < 256 ^ length bs"
  using le_nat_bound [of "rev bs"] by (simp add: be_nat_def)

lemma be_nat_replicate0 [simp]: "be_nat (replicate n 0) = 0"
  by (induction n) (simp_all add: be_nat_Cons)

lemma be_nat_append: "be_nat (xs @ ys) = be_nat xs * 256 ^ length ys + be_nat ys"
  by (simp add: be_nat_def le_nat_append)

text \<open>
  An encoding is a prefix code on the values in its domain when what follows it can always be
  told apart: the fields of a record encoded one after another can then be read back, so two
  records with equal encodings are equal. Encodings of a fixed length with an inverse are
  prefix codes.
\<close>

locale prefix_code =
  fixes enc :: "'a \<Rightarrow> bytes" and dom :: "'a \<Rightarrow> bool"
  assumes prefix_free: "dom x \<Longrightarrow> dom y \<Longrightarrow> enc x @ r = enc y @ s \<Longrightarrow> x = y \<and> r = s"
begin

lemma enc_inject: "dom x \<Longrightarrow> dom y \<Longrightarrow> enc x = enc y \<longleftrightarrow> x = y"
  using prefix_free [of x y "[]" "[]"] by auto

lemma append_inject: "dom x \<Longrightarrow> dom y \<Longrightarrow> enc x @ r = enc y @ s \<longleftrightarrow> x = y \<and> r = s"
  using prefix_free by blast

lemma concat_inject:
  "length xs = length ys \<Longrightarrow> list_all dom xs \<Longrightarrow> list_all dom ys \<Longrightarrow>
     concat (map enc xs) @ r = concat (map enc ys) @ s \<longleftrightarrow> xs = ys \<and> r = s"
  by (induction xs ys arbitrary: r s rule: list_induct2) (auto simp: append_inject)

end

locale fixed_codec =
  fixes enc :: "'a \<Rightarrow> bytes" and dec :: "bytes \<Rightarrow> 'a" and n :: nat
  assumes enc_length: "length (enc x) = n"
    and dec_enc: "dec (enc x) = x"
begin

lemma enc_eq_iff: "enc x = enc y \<longleftrightarrow> x = y"
  by (metis dec_enc)

lemma dec_take: "dec (take n (enc x @ rest)) = x"
  by (simp add: enc_length dec_enc)

end

sublocale fixed_codec \<subseteq> pc: prefix_code enc "\<lambda>_. True"
  by unfold_locales (auto simp: enc_length enc_eq_iff)

lemmas word_codec_defs =
  u16_be_def u32_le_def u32_be_def u64_le_def u16_of_be_def u32_of_le_def u32_of_be_def
  u64_of_le_def be_nat_def

lemma unat_mod_pow256: "8 * n = LENGTH('a::len) \<Longrightarrow> unat (w :: 'a word) mod 256 ^ n = unat w"
proof -
  assume n: "8 * n = LENGTH('a)"
  have "(256 :: nat) ^ n = 2 ^ (8 * n)" by (simp add: power_mult)
  then show ?thesis using unsigned_less [of w, where ?'a = nat] n by simp
qed

interpretation u16be: fixed_codec u16_be u16_of_be 2
  by unfold_locales
    (simp_all add: word_codec_defs le_nat_nat_le unat_mod_pow256 del: nat_le.simps power_numeral)

interpretation u32le: fixed_codec u32_le u32_of_le 4
  by unfold_locales
    (simp_all add: word_codec_defs le_nat_nat_le unat_mod_pow256 del: nat_le.simps power_numeral)

interpretation u32be: fixed_codec u32_be u32_of_be 4
  by unfold_locales
    (simp_all add: word_codec_defs le_nat_nat_le unat_mod_pow256 del: nat_le.simps power_numeral)

interpretation u64le: fixed_codec u64_le u64_of_le 8
  by unfold_locales
    (simp_all add: word_codec_defs le_nat_nat_le unat_mod_pow256 del: nat_le.simps power_numeral)

lemmas enc_lengths [simp, byte_simps] =
  u16be.enc_length u32le.enc_length u32be.enc_length u64le.enc_length

lemmas enc_roundtrips [simp, byte_simps] =
  u16be.dec_enc u32le.dec_enc u32be.dec_enc u64le.dec_enc

section \<open>Strings\<close>

text \<open>
  A Rust \<open>String\<close> is its UTF-8 bytes, kept as a \<open>string\<close> whose characters are these bytes.
  \<open>as_bytes\<close> reads them, \<open>show_nat\<close> is the decimal \<open>Display\<close> of an unsigned integer.
\<close>

definition byte_of_char :: "char \<Rightarrow> u8" where
  "byte_of_char c = word_of_nat (of_char c)"

definition char_of_byte :: "u8 \<Rightarrow> char" where
  "char_of_byte b = char_of (unat b)"

definition as_bytes :: "string \<Rightarrow> bytes" where
  "as_bytes s = map byte_of_char s"

definition from_utf8 :: "bytes \<Rightarrow> string" where
  "from_utf8 bs = map char_of_byte bs"

lemma of_char_less_256: "(of_char c :: nat) < 256"
  using nat_of_char_less_256 by simp

lemma unat_byte_of_char [simp]: "unat (byte_of_char c) = of_char c"
  using of_char_less_256 [of c] by (simp add: byte_of_char_def unat_of_nat)

lemma char_of_byte_of_char [simp]: "char_of_byte (byte_of_char c) = c"
  by (simp add: char_of_byte_def)

lemma from_utf8_as_bytes [simp]: "from_utf8 (as_bytes s) = s"
  by (induction s) (simp_all add: from_utf8_def as_bytes_def)

lemma as_bytes_from_utf8: "as_bytes (from_utf8 bs) = bs"
proof -
  have "byte_of_char (char_of_byte b) = b" for b
  proof -
    have "unat b < 256" using unsigned_less [of b, where ?'a = nat] by simp
    then have "unat (byte_of_char (char_of_byte b)) = unat b"
      by (simp add: char_of_byte_def of_char_of)
    then show ?thesis by (simp only: unat_inject)
  qed
  then show ?thesis by (induction bs) (simp_all add: as_bytes_def from_utf8_def)
qed

lemma as_bytes_inject [simp]: "as_bytes s = as_bytes t \<longleftrightarrow> s = t"
  by (metis from_utf8_as_bytes)

lemma length_as_bytes [simp]: "length (as_bytes s) = length s"
  by (simp add: as_bytes_def)

lemma as_bytes_append [simp]: "as_bytes (s @ t) = as_bytes s @ as_bytes t"
  by (simp add: as_bytes_def)

definition digit_char :: "nat \<Rightarrow> char" where
  "digit_char d = char_of (48 + d)"

fun show_nat :: "nat \<Rightarrow> string" where
  "show_nat n =
     (if n < 10 then [digit_char n] else show_nat (n div 10) @ [digit_char (n mod 10)])"

declare show_nat.simps [simp del]

text \<open>\<open>str::parse\<close> for an unsigned integer, on the digits: \<open>None\<close> on any other character.\<close>

definition digit_val :: "char \<Rightarrow> nat option" where
  "digit_val c = (if 48 \<le> (of_char c :: nat) \<and> (of_char c :: nat) \<le> 57
     then Some (of_char c - 48) else None)"

fun parse_digits :: "nat \<Rightarrow> string \<Rightarrow> nat option" where
  "parse_digits acc [] = Some acc"
| "parse_digits acc (c # cs) =
     (case digit_val c of None \<Rightarrow> None | Some d \<Rightarrow> parse_digits (10 * acc + d) cs)"

lemma digit_val_digit_char [simp]: "d < 10 \<Longrightarrow> digit_val (digit_char d) = Some d"
  by (simp add: digit_val_def digit_char_def)

lemma parse_digits_append:
  "parse_digits acc (s @ t) =
     (case parse_digits acc s of None \<Rightarrow> None | Some a \<Rightarrow> parse_digits a t)"
  by (induction s arbitrary: acc) (auto split: option.splits)

lemma parse_digits_show_nat: "parse_digits 0 (show_nat n) = Some n"
proof (induction n rule: show_nat.induct)
  case (1 n)
  show ?case
  proof (cases "n < 10")
    case True
    then show ?thesis by (simp add: show_nat.simps [of n])
  next
    case False
    then show ?thesis
      using "1.IH" by (simp add: show_nat.simps [of n] parse_digits_append)
  qed
qed

lemma show_nat_inject [simp]: "show_nat m = show_nat n \<longleftrightarrow> m = n"
  by (metis option.inject parse_digits_show_nat)

lemma show_nat_not_Nil [simp]: "show_nat n \<noteq> []"
  by (subst show_nat.simps) simp

lemma show_nat_digits: "c \<in> set (show_nat n) \<Longrightarrow> digit_val c \<noteq> None"
proof (induction n rule: show_nat.induct)
  case (1 n)
  then show ?case
    by (cases "n < 10") (auto simp: show_nat.simps [of n])
qed

lemma colon_not_in_show_nat: "CHR '':'' \<notin> set (show_nat n)"
  using show_nat_digits [of "CHR '':''" n] by (auto simp: digit_val_def)

text \<open>\<open>splitn(2, c)\<close> as the code uses it: the text before the first \<open>c\<close>, and after it if any.\<close>

definition split_first :: "char \<Rightarrow> string \<Rightarrow> string \<times> string option" where
  "split_first c s = (takeWhile (\<lambda>x. x \<noteq> c) s,
     (case dropWhile (\<lambda>x. x \<noteq> c) s of [] \<Rightarrow> None | _ # t \<Rightarrow> Some t))"

lemma split_first_append:
  "c \<notin> set s \<Longrightarrow> split_first c (s @ c # t) = (s, Some t)"
  by (induction s) (auto simp: split_first_def)

lemma append_sep_inject:
  assumes "c \<notin> set t" "c \<notin> set t'"
  shows "s @ c # t = s' @ c # t' \<longleftrightarrow> s = s' \<and> t = t'"
proof
  assume eq: "s @ c # t = s' @ c # t'"
  then have "rev (s @ c # t) = rev (s' @ c # t')" by simp
  then have *: "rev t @ c # rev s = rev t' @ c # rev s'" by simp
  have "takeWhile (\<lambda>x. x \<noteq> c) (rev t @ c # rev s) = rev t"
    using assms by (subst takeWhile_append2) auto
  moreover have "takeWhile (\<lambda>x. x \<noteq> c) (rev t' @ c # rev s') = rev t'"
    using assms by (subst takeWhile_append2) auto
  ultimately have "rev t = rev t'" using * by simp
  then have "t = t'" by simp
  with eq show "s = s' \<and> t = t'" by simp
qed simp


text \<open>\<open>String::from_utf8\<close>: the well-formed byte sequences of UTF-8.\<close>

definition utf8_cont :: "u8 \<Rightarrow> bool" where
  "utf8_cont b \<longleftrightarrow> 0x80 \<le> b \<and> b \<le> 0xbf"

fun valid_utf8 :: "bytes \<Rightarrow> bool" where
  "valid_utf8 [] \<longleftrightarrow> True"
| "valid_utf8 (b # bs) \<longleftrightarrow>
     (if b < 0x80 then valid_utf8 bs
      else if 0xc2 \<le> b \<and> b \<le> 0xdf then
        (case bs of c # r \<Rightarrow> utf8_cont c \<and> valid_utf8 r | _ \<Rightarrow> False)
      else if 0xe0 \<le> b \<and> b \<le> 0xef then
        (case bs of c # d # r \<Rightarrow>
           (if b = 0xe0 then 0xa0 \<le> c \<and> c \<le> 0xbf
            else if b = 0xed then 0x80 \<le> c \<and> c \<le> 0x9f else utf8_cont c)
           \<and> utf8_cont d \<and> valid_utf8 r
         | _ \<Rightarrow> False)
      else if 0xf0 \<le> b \<and> b \<le> 0xf4 then
        (case bs of c # d # e # r \<Rightarrow>
           (if b = 0xf0 then 0x90 \<le> c \<and> c \<le> 0xbf
            else if b = 0xf4 then 0x80 \<le> c \<and> c \<le> 0x8f else utf8_cont c)
           \<and> utf8_cont d \<and> utf8_cont e \<and> valid_utf8 r
         | _ \<Rightarrow> False)
      else False)"

declare valid_utf8.simps(2) [simp del]

definition string_from_utf8 :: "bytes \<Rightarrow> string option" where
  "string_from_utf8 bs = (if valid_utf8 bs then Some (from_utf8 bs) else None)"

lemma valid_utf8_ascii: "list_all (\<lambda>c. of_char c < (128 :: nat)) s \<Longrightarrow> valid_utf8 (as_bytes s)"
  by (induction s)
    (simp_all add: as_bytes_def valid_utf8.simps(2) word_less_nat_alt)

lemma string_from_utf8_ascii:
  "list_all (\<lambda>c. of_char c < (128 :: nat)) s \<Longrightarrow> string_from_utf8 (as_bytes s) = Some s"
  by (simp add: string_from_utf8_def valid_utf8_ascii)

end
