(* ===== verification/Hash_Map.thy ===== *)
theory Hash_Map
  imports Prelude
begin

text \<open>
  Rust's \<open>HashMap\<close> and \<open>sort_unstable_by\<close>, and two interfaces. A map is an association list
  with distinct keys (\<open>hm_ok\<close>): \<open>insert\<close> replaces the value of a key it holds and adds a new
  key otherwise, \<open>remove\<close> and \<open>retain\<close> drop entries. The list order plays the part of the
  unspecified iteration order of a \<open>HashMap\<close>: a theorem about every list with the same
  lookups is a theorem about every iteration order. The locale \<open>hash_map\<close> is what the
  components use of it; \<open>guarded_system\<close> is the rule by which an invariant kept by every
  operation holds after any sequence of operations.
\<close>

section \<open>Hash maps\<close>

type_synonym ('k, 'v) hmap = "('k \<times> 'v) list"

definition hm_get :: "('k, 'v) hmap \<Rightarrow> 'k \<Rightarrow> 'v option" where
  "hm_get m k = map_of m k"

definition hm_contains :: "('k, 'v) hmap \<Rightarrow> 'k \<Rightarrow> bool" where
  "hm_contains m k = (hm_get m k \<noteq> None)"

definition hm_insert :: "'k \<Rightarrow> 'v \<Rightarrow> ('k, 'v) hmap \<Rightarrow> ('k, 'v) hmap" where
  "hm_insert k v m = AList.update k v m"

definition hm_remove :: "'k \<Rightarrow> ('k, 'v) hmap \<Rightarrow> ('k, 'v) hmap" where
  "hm_remove k m = filter (\<lambda>(k', _). k' \<noteq> k) m"

definition hm_retain :: "('k \<Rightarrow> 'v \<Rightarrow> bool) \<Rightarrow> ('k, 'v) hmap \<Rightarrow> ('k, 'v) hmap" where
  "hm_retain P m = filter (\<lambda>(k, v). P k v) m"

definition hm_ok :: "('k, 'v) hmap \<Rightarrow> bool" where
  "hm_ok m = distinct (map fst m)"

definition hm_sum :: "('v \<Rightarrow> nat) \<Rightarrow> ('k, 'v) hmap \<Rightarrow> nat" where
  "hm_sum f m = sum_list (map (f \<circ> snd) m)"

lemma hm_get_insert [simp, hm_simps]:
  "hm_get (hm_insert k v m) k' = (if k' = k then Some v else hm_get m k')"
  by (simp add: hm_get_def hm_insert_def update_conv')

lemma hm_get_remove [simp, hm_simps]:
  "hm_get (hm_remove k m) k' = (if k' = k then None else hm_get m k')"
  by (induction m) (auto simp: hm_get_def hm_remove_def)

lemma hm_get_Nil [simp, hm_simps]: "hm_get [] k = None"
  by (simp add: hm_get_def)

lemma hm_get_Cons [hm_simps]: "hm_get ((k, v) # m) k' = (if k' = k then Some v else hm_get m k')"
  by (simp add: hm_get_def)

lemma hm_get_retain [hm_simps]:
  "hm_ok m \<Longrightarrow> hm_get (hm_retain P m) k =
     (case hm_get m k of None \<Rightarrow> None | Some v \<Rightarrow> if P k v then Some v else None)"
proof (induction m)
  case Nil
  then show ?case by (simp add: hm_retain_def)
next
  case (Cons p m)
  obtain k' v where p: "p = (k', v)" by (cases p)
  have notin: "map_of m k' = None"
    using Cons.prems by (simp add: p hm_ok_def map_of_eq_None_iff)
  have "hm_ok m" using Cons.prems by (simp add: hm_ok_def)
  with Cons.IH show ?case
    by (auto simp: p hm_get_def hm_retain_def notin split: option.splits)
qed

lemma hm_ok_Nil [simp]: "hm_ok []"
  by (simp add: hm_ok_def)

lemma hm_ok_Cons: "hm_ok ((k, v) # m) \<longleftrightarrow> hm_get m k = None \<and> hm_ok m"
  by (simp add: hm_ok_def hm_get_def map_of_eq_None_iff)

lemma hm_ok_insert [simp, intro]: "hm_ok m \<Longrightarrow> hm_ok (hm_insert k v m)"
  by (simp add: hm_ok_def hm_insert_def distinct_update)

lemma hm_ok_remove [simp, intro]: "hm_ok m \<Longrightarrow> hm_ok (hm_remove k m)"
  by (simp add: hm_ok_def hm_remove_def distinct_map_filter)

lemma hm_ok_retain [simp, intro]: "hm_ok m \<Longrightarrow> hm_ok (hm_retain P m)"
  by (simp add: hm_ok_def hm_retain_def distinct_map_filter)

lemma hm_contains_iff [simp]: "hm_contains m k \<longleftrightarrow> (\<exists>v. hm_get m k = Some v)"
  by (auto simp: hm_contains_def)

lemma hm_get_in_set: "hm_get m k = Some v \<Longrightarrow> (k, v) \<in> set m"
  by (simp add: hm_get_def map_of_SomeD)

lemma in_set_hm_get: "hm_ok m \<Longrightarrow> (k, v) \<in> set m \<longleftrightarrow> hm_get m k = Some v"
  by (auto simp: hm_get_def hm_ok_def dest: map_of_SomeD)

lemma hm_sum_Nil [simp]: "hm_sum f [] = 0"
  by (simp add: hm_sum_def)

lemma hm_sum_Cons: "hm_sum f ((k, v) # m) = f v + hm_sum f m"
  by (simp add: hm_sum_def)

lemma hm_sum_insert_fresh:
  "hm_get m k = None \<Longrightarrow> hm_sum f (hm_insert k v m) = f v + hm_sum f m"
proof (induction m)
  case Nil
  then show ?case by (simp add: hm_insert_def hm_sum_def)
next
  case (Cons p m)
  obtain k' v' where p: "p = (k', v')" by (cases p)
  with Cons show ?case
    by (auto simp: hm_insert_def hm_sum_Cons hm_get_Cons split: if_splits)
qed

lemma hm_remove_absent: "hm_get m k = None \<Longrightarrow> hm_remove k m = m"
  by (induction m) (auto simp: hm_remove_def hm_get_def split: if_splits)

lemma hm_sum_remove:
  "hm_ok m \<Longrightarrow> hm_get m k = Some v \<Longrightarrow> hm_sum f m = f v + hm_sum f (hm_remove k m)"
proof (induction m)
  case Nil
  then show ?case by simp
next
  case (Cons p m)
  obtain k' v' where p: "p = (k', v')" by (cases p)
  show ?case
  proof (cases "k' = k")
    case True
    with Cons.prems have "hm_get m k = None" "v' = v"
      by (auto simp: p hm_ok_Cons hm_get_Cons)
    then show ?thesis
      using True hm_remove_absent [of m k]
      by (simp add: p hm_sum_Cons) (simp add: hm_remove_def)
  next
    case False
    with Cons show ?thesis
      by (auto simp: p hm_sum_Cons hm_get_Cons hm_ok_Cons hm_remove_def)
  qed
qed

lemma hm_sum_member_le: "(k, v) \<in> set m \<Longrightarrow> f v \<le> hm_sum f m"
  by (induction m) (auto simp: hm_sum_def)

lemma map_of_rev_distinct: "distinct (map fst kvs) \<Longrightarrow> map_of (rev kvs) = map_of kvs"
  by (rule map_of_eqI) (auto simp: rev_map [symmetric])

text \<open>The interface: what a client may rely on, whatever the representation.\<close>

locale hash_map =
  fixes get :: "'m \<Rightarrow> 'k \<Rightarrow> 'v option"
    and ins :: "'k \<Rightarrow> 'v \<Rightarrow> 'm \<Rightarrow> 'm"
    and rem :: "'k \<Rightarrow> 'm \<Rightarrow> 'm"
    and ok :: "'m \<Rightarrow> bool"
  assumes get_ins: "get (ins k v m) k' = (if k' = k then Some v else get m k')"
    and get_rem: "get (rem k m) k' = (if k' = k then None else get m k')"
    and ok_ins: "ok m \<Longrightarrow> ok (ins k v m)"
    and ok_rem: "ok m \<Longrightarrow> ok (rem k m)"
begin

lemma get_fold_rem: "get (fold rem ks m) k = (if k \<in> set ks then None else get m k)"
  by (induction ks arbitrary: m) (simp_all add: get_rem)

lemma get_fold_ins:
  "get (fold (\<lambda>(k, v). ins k v) kvs m) k =
     (case map_of (rev kvs) k of None \<Rightarrow> get m k | Some v \<Rightarrow> Some v)"
  by (induction kvs arbitrary: m)
    (auto simp: get_ins map_add_def split: option.splits)

lemma ok_fold_rem: "ok m \<Longrightarrow> ok (fold rem ks m)"
  by (induction ks arbitrary: m) (simp_all add: ok_rem)

lemma ok_fold_ins: "ok m \<Longrightarrow> ok (fold (\<lambda>(k, v). ins k v) kvs m)"
  by (induction kvs arbitrary: m) (auto simp: ok_ins)

lemma get_fold_ins_distinct:
  "distinct (map fst kvs) \<Longrightarrow> get (fold (\<lambda>(k, v). ins k v) kvs m) k =
     (case map_of kvs k of None \<Rightarrow> get m k | Some v \<Rightarrow> Some v)"
  by (simp add: get_fold_ins map_of_rev_distinct)

end

interpretation hm: hash_map hm_get hm_insert hm_remove hm_ok
  by unfold_locales simp_all

lemma hm_sum_fold_remove:
  "hm_ok m \<Longrightarrow> distinct ks \<Longrightarrow> list_all (\<lambda>k. hm_get m k \<noteq> None) ks \<Longrightarrow>
     hm_sum f m = sum_list (map (\<lambda>k. f (the (hm_get m k))) ks) + hm_sum f (fold hm_remove ks m)"
proof (induction ks arbitrary: m)
  case Nil
  then show ?case by simp
next
  case (Cons k ks)
  then obtain v where v: "hm_get m k = Some v" by auto
  let ?m = "hm_remove k m"
  have same: "k' \<in> set ks \<Longrightarrow> hm_get ?m k' = hm_get m k'" for k'
    using Cons.prems(2) by auto
  have "list_all (\<lambda>k. hm_get ?m k \<noteq> None) ks"
    using Cons.prems(3) same by (auto simp: list_all_iff)
  then have "hm_sum f ?m =
      sum_list (map (\<lambda>k. f (the (hm_get ?m k))) ks) + hm_sum f (fold hm_remove ks ?m)"
    using Cons.IH [of ?m] Cons.prems by simp
  also have "map (\<lambda>k. f (the (hm_get ?m k))) ks = map (\<lambda>k. f (the (hm_get m k))) ks"
    using same by simp
  finally show ?case
    using hm_sum_remove [OF Cons.prems(1) v, of f] v by simp
qed

lemma hm_sum_fold_insert:
  "distinct (map fst kvs) \<Longrightarrow> list_all (\<lambda>(k, _). hm_get m k = None) kvs \<Longrightarrow>
     hm_sum f (fold (\<lambda>(k, v). hm_insert k v) kvs m) = sum_list (map (f \<circ> snd) kvs) + hm_sum f m"
proof (induction kvs arbitrary: m)
  case Nil
  then show ?case by simp
next
  case (Cons p kvs)
  obtain k v where p: "p = (k, v)" by (cases p)
  let ?m = "hm_insert k v m"
  have "list_all (\<lambda>(k, _). hm_get ?m k = None) kvs"
    using Cons.prems by (force simp: p list_all_iff)
  then have "hm_sum f (fold (\<lambda>(k, v). hm_insert k v) kvs ?m) =
      sum_list (map (f \<circ> snd) kvs) + hm_sum f ?m"
    using Cons.IH [of ?m] Cons.prems(1) by (simp only: p list.map distinct.simps simp_thms)
  moreover have "hm_sum f ?m = f v + hm_sum f m"
    using Cons.prems by (simp add: p hm_sum_insert_fresh)
  ultimately show ?case by (simp add: p comp_def)
qed

text \<open>Two maps with the same lookups hold the same entries, in some order.\<close>

lemma hm_same_lookups_mset:
  assumes "hm_ok m" "hm_ok m'" "\<And>k. hm_get m k = hm_get m' k"
  shows "mset m = mset m'"
proof -
  have "distinct m" "distinct m'"
    using assms(1,2) by (simp_all add: hm_ok_def distinct_map)
  moreover have "set m = set m'"
    using assms by (auto simp: in_set_hm_get)
  ultimately show ?thesis by (simp add: set_eq_iff_mset_eq_distinct)
qed

section \<open>Sorting by a comparison\<close>

text \<open>
  \<open>sort_unstable_by\<close> with a comparison \<open>le\<close> (\<open>le x y\<close>: not \<open>Greater\<close>). For a total order
  without ties the result is the only sorted arrangement of the list.
\<close>

fun insert_by :: "('a \<Rightarrow> 'a \<Rightarrow> bool) \<Rightarrow> 'a \<Rightarrow> 'a list \<Rightarrow> 'a list" where
  "insert_by le x [] = [x]"
| "insert_by le x (y # ys) = (if le x y then x # y # ys else y # insert_by le x ys)"

definition sort_by :: "('a \<Rightarrow> 'a \<Rightarrow> bool) \<Rightarrow> 'a list \<Rightarrow> 'a list" where
  "sort_by le xs = foldr (insert_by le) xs []"

lemma mset_insert_by: "mset (insert_by le x xs) = {#x#} + mset xs"
  by (induction xs) auto

lemma mset_sort_by [simp]: "mset (sort_by le xs) = mset xs"
  unfolding sort_by_def by (induction xs) (simp_all add: mset_insert_by)

lemma set_sort_by [simp]: "set (sort_by le xs) = set xs"
  by (metis mset_sort_by set_mset_mset)

lemma length_sort_by [simp]: "length (sort_by le xs) = length xs"
  by (metis mset_sort_by size_mset)

lemma set_insert_by: "set (insert_by le x xs) = insert x (set xs)"
  by (induction xs) auto

lemma sorted_insert_by:
  assumes tot: "\<forall>a\<in>A. \<forall>b\<in>A. le a b \<or> le b a" and tr: "transp_on A le"
  shows "x \<in> A \<Longrightarrow> set xs \<subseteq> A \<Longrightarrow> sorted_wrt le xs \<Longrightarrow> sorted_wrt le (insert_by le x xs)"
proof (induction xs)
  case Nil
  then show ?case by simp
next
  case (Cons y ys)
  show ?case
  proof (cases "le x y")
    case True
    have "le x z" if "z \<in> set ys" for z
      using transp_onD [OF tr, of x y z] Cons.prems True that by auto
    with True Cons.prems show ?thesis by auto
  next
    case False
    then have "le y x" using tot Cons.prems by auto
    with False Cons show ?thesis by (auto simp: set_insert_by)
  qed
qed

lemma sorted_sort_by:
  assumes tot: "\<forall>a\<in>A. \<forall>b\<in>A. le a b \<or> le b a" and tr: "transp_on A le"
  shows "set xs \<subseteq> A \<Longrightarrow> sorted_wrt le (sort_by le xs)"
proof (induction xs)
  case Nil
  then show ?case by (simp add: sort_by_def)
next
  case (Cons x xs)
  then have "sorted_wrt le (insert_by le x (sort_by le xs))"
    by (intro sorted_insert_by [OF tot tr]) auto
  then show ?case by (simp add: sort_by_def)
qed

lemma sorted_wrt_unique:
  assumes "antisymp_on (set xs) le"
  shows "sorted_wrt le xs \<Longrightarrow> sorted_wrt le ys \<Longrightarrow> mset xs = mset ys \<Longrightarrow> xs = ys"
  using assms
proof (induction xs arbitrary: ys)
  case Nil
  then show ?case by simp
next
  case (Cons x xs)
  then obtain y ys' where ys: "ys = y # ys'" by (cases ys) auto
  have sets: "set (x # xs) = set (y # ys')"
    using Cons.prems(3) ys by (metis set_mset_mset)
  have "x = y"
  proof (rule ccontr)
    assume ne: "x \<noteq> y"
    with sets have "y \<in> set xs" "x \<in> set ys'" by auto
    with Cons.prems(1,2) ys have "le x y" "le y x" by auto
    then show False
      using Cons.prems(4) ne \<open>y \<in> set xs\<close> by (auto dest: antisymp_onD)
  qed
  moreover have "antisymp_on (set xs) le"
    using Cons.prems(4) by (rule antisymp_on_subset) auto
  ultimately show ?case using Cons ys by auto
qed

section \<open>Invariants of systems\<close>

locale guarded_system =
  fixes init :: "'s \<Rightarrow> bool" and step :: "'s \<Rightarrow> 's \<Rightarrow> bool" and inv :: "'s \<Rightarrow> bool"
  assumes init_inv: "init s \<Longrightarrow> inv s"
    and step_inv: "step s t \<Longrightarrow> inv s \<Longrightarrow> inv t"
begin

lemma steps_inv: "step\<^sup>*\<^sup>* s t \<Longrightarrow> inv s \<Longrightarrow> inv t"
  by (induction rule: rtranclp_induct) (auto intro: step_inv)

lemma reachable_inv: "init s \<Longrightarrow> step\<^sup>*\<^sup>* s t \<Longrightarrow> inv t"
  by (blast intro: steps_inv init_inv)

end

text \<open>A system whose steps, seen through \<open>abs\<close>, are steps of a specification.\<close>

locale simulating_system = guarded_system init step inv
  for init :: "'s \<Rightarrow> bool" and step :: "'s \<Rightarrow> 's \<Rightarrow> bool" and inv :: "'s \<Rightarrow> bool" +
  fixes spec :: "'a \<Rightarrow> 'a \<Rightarrow> bool" and abs :: "'s \<Rightarrow> 'a"
  assumes step_sim: "step s t \<Longrightarrow> inv s \<Longrightarrow> spec (abs s) (abs t)"
begin

lemma run_sim:
  assumes "step\<^sup>*\<^sup>* s t" "init s"
  shows "spec\<^sup>*\<^sup>* (abs s) (abs t)"
  using assms
proof (induction rule: rtranclp_induct)
  case (step t u)
  then show ?case using reachable_inv step_sim by (blast intro: rtranclp.rtrancl_into_rtrancl)
qed simp

end

end
