(* ===== verification/Crypto.thy ===== *)
theory Crypto
  imports Hash_Map
begin

text \<open>
  Hashes, keys and hybrid signatures: \<open>src/crypto/hash.rs\<close>, \<open>keys.rs\<close> and \<open>quantum.rs\<close>. The
  primitives are third-party crates (\<open>sha2\<close>, \<open>hex\<close>, \<open>secp256k1\<close>, \<open>p256\<close>, \<open>ml_dsa\<close>,
  \<open>hmac\<close>) and enter as the fields of a record that every definition takes as its first
  argument; a key or signature object of a crate is represented by the bytes it serialises
  to, so a parser is a partial function on bytes. What the proofs use of them is stated as
  the named predicates \<open>sha_ok\<close>, \<open>hex_ok\<close> and \<open>sign_ok\<close>. The lemmas show that a hybrid
  signature verifies exactly when both schemes accept it, that signing and verifying agree,
  and that the hex form of a hybrid key can be read back.
\<close>

section \<open>Third-party primitives\<close>

record hash_lib =
  lib_sha256 :: "bytes \<Rightarrow> bytes"
  lib_hex_encode :: "bytes \<Rightarrow> string"
  lib_hex_decode :: "string \<Rightarrow> bytes option"

record sig_lib = hash_lib +
  lib_secp_sk :: "bytes \<Rightarrow> bytes option"
  lib_secp_pub :: "bytes \<Rightarrow> bytes"
  lib_secp_sign :: "bytes \<Rightarrow> bytes \<Rightarrow> bytes"
  lib_secp_pk :: "bytes \<Rightarrow> bytes option"
  lib_secp_sig :: "bytes \<Rightarrow> bytes option"
  lib_secp_verify :: "bytes \<Rightarrow> bytes \<Rightarrow> bytes \<Rightarrow> bool"
  lib_mldsa_vk_of_seed :: "bytes \<Rightarrow> bytes"
  lib_mldsa_sign :: "bytes \<Rightarrow> bytes \<Rightarrow> bytes"
  lib_mldsa_vk :: "bytes \<Rightarrow> bytes option"
  lib_mldsa_sig :: "bytes \<Rightarrow> bytes option"
  lib_mldsa_verify :: "bytes \<Rightarrow> bytes \<Rightarrow> bytes \<Rightarrow> bool"
  lib_hmac_sha256 :: "bytes \<Rightarrow> bytes \<Rightarrow> bytes"
  lib_p256_vk :: "bytes \<Rightarrow> bytes option"
  lib_p256_sig :: "bytes \<Rightarrow> bytes option"
  lib_p256_verify :: "bytes \<Rightarrow> bytes \<Rightarrow> bytes \<Rightarrow> bool"

text \<open>Documented behaviour of the crates: a digest has 32 bytes; \<open>hex\<close> is lower-case and
  inverts; the two signature schemes accept their own signatures.\<close>

definition sha_ok :: "'x hash_lib_scheme \<Rightarrow> bool" where
  "sha_ok X \<longleftrightarrow> (\<forall>d. length (lib_sha256 X d) = 32)"

definition hex_digit :: "char \<Rightarrow> bool" where
  "hex_digit c \<longleftrightarrow> c \<in> set ''0123456789abcdef''"

definition hex_ok :: "'x hash_lib_scheme \<Rightarrow> bool" where
  "hex_ok X \<longleftrightarrow> (\<forall>b. lib_hex_decode X (lib_hex_encode X b) = Some b)
     \<and> (\<forall>b. length (lib_hex_encode X b) = 2 * length b)
     \<and> (\<forall>b. list_all hex_digit (lib_hex_encode X b))"

definition sign_ok :: "'x sig_lib_scheme \<Rightarrow> bool" where
  "sign_ok X \<longleftrightarrow>
     (\<forall>b sk. lib_secp_sk X b = Some sk \<longrightarrow> lib_secp_pk X (lib_secp_pub X sk) = Some (lib_secp_pub X sk))
     \<and> (\<forall>b sk m. lib_secp_sk X b = Some sk \<longrightarrow>
          (\<exists>s. lib_secp_sig X (lib_secp_sign X m sk) = Some s
             \<and> lib_secp_verify X m s (lib_secp_pub X sk)))
     \<and> (\<forall>seed m. length seed = 32 \<longrightarrow>
          (\<exists>vk s. lib_mldsa_vk X (lib_mldsa_vk_of_seed X seed) = Some vk
             \<and> lib_mldsa_sig X (lib_mldsa_sign X seed m) = Some s
             \<and> lib_mldsa_verify X vk m s))"

text \<open>
  The errors of \<open>hash.rs\<close> and \<open>quantum.rs\<close>: one constructor per message of the source;
  \<open>CryptoLibError\<close> is an error of a crate passed on by \<open>?\<close>.
\<close>

datatype crypto_err =
    CryptoLibError string
  | InvalidHashLength
  | MlDsaSeedNot32
  | MlDsaSeedLength nat
  | MlDsaKeyMismatch
  | HybridPubkeyTooShort
  | HybridPubkeyTruncated
  | InvalidEcdsaPublicKey
  | InvalidEcdsaSignatureFormat
  | EcdsaVerificationFailed
  | InvalidMlDsaPublicKey
  | InvalidMlDsaSignatureFormat
  | MlDsaVerificationFailed

section \<open>Hashes\<close>

definition hash256 :: "'x hash_lib_scheme \<Rightarrow> bytes \<Rightarrow> bytes" where
  "hash256 X data = lib_sha256 X (lib_sha256 X data)"

definition hash_to_hex :: "'x hash_lib_scheme \<Rightarrow> bytes \<Rightarrow> string" where
  "hash_to_hex X hash = lib_hex_encode X hash"

definition hex_to_hash :: "'x hash_lib_scheme \<Rightarrow> string \<Rightarrow> crypto_err + bytes" where
  "hex_to_hash X s =
     try_res (ok_or (CryptoLibError ''hex'') (lib_hex_decode X s)) (\<lambda>bs.
       if length bs \<noteq> 32 then Inl InvalidHashLength else Inr bs)"

lemma length_hash256: "sha_ok X \<Longrightarrow> length (hash256 X d) = 32"
  by (simp add: sha_ok_def hash256_def)

lemma hash_to_hex_inject: "hex_ok X \<Longrightarrow> hash_to_hex X a = hash_to_hex X b \<longleftrightarrow> a = b"
  unfolding hex_ok_def hash_to_hex_def by (metis option.inject)

lemma colon_not_hex: "hex_ok X \<Longrightarrow> CHR '':'' \<notin> set (lib_hex_encode X b)"
  by (auto simp: hex_ok_def list_all_iff hex_digit_def)

lemma hex_to_hash_roundtrip:
  "hex_ok X \<Longrightarrow> length h = 32 \<Longrightarrow> hex_to_hash X (hash_to_hex X h) = Inr h"
  by (simp add: hex_ok_def hex_to_hash_def hash_to_hex_def)

section \<open>Single-scheme keys\<close>

type_synonym address = bytes

definition pubkey_to_address :: "'x sig_lib_scheme \<Rightarrow> bytes \<Rightarrow> address" where
  "pubkey_to_address X pubkey = take 20 (lib_sha256 X (lib_sha256 X pubkey))"

definition hybrid_pubkey_to_address :: "'x sig_lib_scheme \<Rightarrow> bytes \<Rightarrow> bytes \<Rightarrow> address" where
  "hybrid_pubkey_to_address X ecdsa_pk ml_dsa_pk =
     take 20 (lib_sha256 X (lib_sha256 X (ecdsa_pk @ ml_dsa_pk)))"

definition secp_sign :: "'x sig_lib_scheme \<Rightarrow> bytes \<Rightarrow> bytes \<Rightarrow> bytes" where
  "secp_sign X secret hash = lib_secp_sign X hash secret"

definition secp_verify :: "'x sig_lib_scheme \<Rightarrow> bytes \<Rightarrow> bytes \<Rightarrow> bytes \<Rightarrow> bool" where
  "secp_verify X pubkey hash sig_bytes =
     (case lib_secp_sig X sig_bytes of
        None \<Rightarrow> False
      | Some sig \<Rightarrow> lib_secp_verify X hash sig pubkey)"

definition verify_raw :: "'x sig_lib_scheme \<Rightarrow> bytes \<Rightarrow> bytes \<Rightarrow> bytes \<Rightarrow> bool" where
  "verify_raw X pubkey_bytes hash sig_bytes =
     (case lib_secp_pk X pubkey_bytes of
        None \<Rightarrow> False
      | Some pk \<Rightarrow> secp_verify X pk hash sig_bytes)"

definition verify_p256_der :: "'x sig_lib_scheme \<Rightarrow> bytes \<Rightarrow> bytes \<Rightarrow> bytes \<Rightarrow> bool" where
  "verify_p256_der X pubkey_bytes message sig_der =
     (case lib_p256_vk X pubkey_bytes of
        None \<Rightarrow> False
      | Some vk \<Rightarrow>
          (case lib_p256_sig X sig_der of
             None \<Rightarrow> False
           | Some sig \<Rightarrow> lib_p256_verify X vk message sig))"

record key_pair =
  kp_secret :: bytes
  kp_public :: bytes

text \<open>\<open>generate\<close>: the randomness is the secret scalar.\<close>

definition key_pair_generate :: "'x sig_lib_scheme \<Rightarrow> bytes \<Rightarrow> key_pair" where
  "key_pair_generate X sk = \<lparr>kp_secret = sk, kp_public = lib_secp_pub X sk\<rparr>"

definition key_pair_from_secret_bytes :: "'x sig_lib_scheme \<Rightarrow> bytes \<Rightarrow> crypto_err + key_pair" where
  "key_pair_from_secret_bytes X bs =
     try_res (ok_or (CryptoLibError ''secret key'') (lib_secp_sk X bs)) (\<lambda>secret.
       Inr \<lparr>kp_secret = secret, kp_public = lib_secp_pub X secret\<rparr>)"

definition key_pair_address :: "'x sig_lib_scheme \<Rightarrow> key_pair \<Rightarrow> address" where
  "key_pair_address X kp = pubkey_to_address X (kp_public kp)"

definition key_pair_secret_hex :: "'x sig_lib_scheme \<Rightarrow> key_pair \<Rightarrow> string" where
  "key_pair_secret_hex X kp = lib_hex_encode X (kp_secret kp)"

definition key_pair_public_hex :: "'x sig_lib_scheme \<Rightarrow> key_pair \<Rightarrow> string" where
  "key_pair_public_hex X kp = lib_hex_encode X (kp_public kp)"

definition key_pair_address_hex :: "'x sig_lib_scheme \<Rightarrow> key_pair \<Rightarrow> string" where
  "key_pair_address_hex X kp = lib_hex_encode X (key_pair_address X kp)"

section \<open>Hybrid keys and signatures\<close>

record hybrid_signature =
  ecdsa_sig :: bytes
  dilithium_sig :: bytes

record hybrid_public_key =
  ecdsa_pubkey :: bytes
  dilithium_pubkey :: bytes

record hybrid_key_pair =
  ecdsa_secret :: bytes
  ecdsa_public :: bytes
  dilithium_secret :: bytes
  dilithium_public :: bytes

definition derive_mldsa_seed_from_ecdsa :: "'x sig_lib_scheme \<Rightarrow> bytes \<Rightarrow> bytes" where
  "derive_mldsa_seed_from_ecdsa X secret = lib_hmac_sha256 X (as_bytes ''arkos-mldsa-v1'') secret"

text \<open>\<open>mldsa_signing_key_from_seed\<close>: a signing key is its 32-byte seed.\<close>

definition mldsa_signing_key_from_seed :: "bytes \<Rightarrow> crypto_err + bytes" where
  "mldsa_signing_key_from_seed seed_bytes =
     (if length seed_bytes = 32 then Inr seed_bytes else Inl MlDsaSeedNot32)"

definition hybrid_from_parts ::
  "'x sig_lib_scheme \<Rightarrow> bytes \<Rightarrow> bytes \<Rightarrow> bytes \<Rightarrow> crypto_err + hybrid_key_pair" where
  "hybrid_from_parts X ecdsa_secret_bytes dil_secret_bytes dil_public_bytes =
     try_res (ok_or (CryptoLibError ''secret key'') (lib_secp_sk X ecdsa_secret_bytes)) (\<lambda>sk.
       if length dil_secret_bytes \<noteq> 32 then Inl (MlDsaSeedLength (length dil_secret_bytes))
       else try_res (mldsa_signing_key_from_seed dil_secret_bytes) (\<lambda>seed.
         if lib_mldsa_vk_of_seed X seed \<noteq> dil_public_bytes then Inl MlDsaKeyMismatch
         else Inr \<lparr>ecdsa_secret = sk, ecdsa_public = lib_secp_pub X sk,
                   dilithium_secret = dil_secret_bytes, dilithium_public = dil_public_bytes\<rparr>))"

definition hybrid_from_ecdsa_secret_bytes ::
  "'x sig_lib_scheme \<Rightarrow> bytes \<Rightarrow> crypto_err + hybrid_key_pair" where
  "hybrid_from_ecdsa_secret_bytes X ecdsa_secret_bytes =
     try_res (ok_or (CryptoLibError ''secret key'') (lib_secp_sk X ecdsa_secret_bytes)) (\<lambda>sk.
       let seed = derive_mldsa_seed_from_ecdsa X sk in
       Inr \<lparr>ecdsa_secret = sk, ecdsa_public = lib_secp_pub X sk,
            dilithium_secret = seed, dilithium_public = lib_mldsa_vk_of_seed X seed\<rparr>)"

text \<open>\<open>generate\<close>: the randomness is the pair of a secret scalar and a seed.\<close>

definition hybrid_generate :: "'x sig_lib_scheme \<Rightarrow> bytes \<Rightarrow> bytes \<Rightarrow> hybrid_key_pair" where
  "hybrid_generate X sk seed =
     \<lparr>ecdsa_secret = sk, ecdsa_public = lib_secp_pub X sk,
      dilithium_secret = seed, dilithium_public = lib_mldsa_vk_of_seed X seed\<rparr>"

definition public_key :: "hybrid_key_pair \<Rightarrow> hybrid_public_key" where
  "public_key kp = \<lparr>ecdsa_pubkey = ecdsa_public kp, dilithium_pubkey = dilithium_public kp\<rparr>"

text \<open>\<open>sign\<close>: the seed of a stored pair has 32 bytes; the code panics (\<open>expect\<close>) otherwise,
  which is \<open>None\<close> here.\<close>

definition hybrid_sign :: "'x sig_lib_scheme \<Rightarrow> hybrid_key_pair \<Rightarrow> bytes \<Rightarrow> hybrid_signature option" where
  "hybrid_sign X kp message =
     (case mldsa_signing_key_from_seed (dilithium_secret kp) of
        Inl _ \<Rightarrow> None
      | Inr seed \<Rightarrow>
          Some \<lparr>ecdsa_sig = lib_secp_sign X (hash256 X message) (ecdsa_secret kp),
                dilithium_sig = lib_mldsa_sign X seed message\<rparr>)"

definition ecdsa_secret_hex :: "'x hash_lib_scheme \<Rightarrow> hybrid_key_pair \<Rightarrow> string" where
  "ecdsa_secret_hex X kp = lib_hex_encode X (ecdsa_secret kp)"

definition dilithium_secret_hex :: "'x hash_lib_scheme \<Rightarrow> hybrid_key_pair \<Rightarrow> string" where
  "dilithium_secret_hex X kp = lib_hex_encode X (dilithium_secret kp)"

definition dilithium_public_hex :: "'x hash_lib_scheme \<Rightarrow> hybrid_key_pair \<Rightarrow> string" where
  "dilithium_public_hex X kp = lib_hex_encode X (dilithium_public kp)"

definition pubkey_to_hex :: "'x hash_lib_scheme \<Rightarrow> hybrid_public_key \<Rightarrow> string" where
  "pubkey_to_hex X pk = lib_hex_encode X
     (u16_be (word_of_nat (length (ecdsa_pubkey pk))) @ ecdsa_pubkey pk @ dilithium_pubkey pk)"

definition pubkey_from_hex :: "'x hash_lib_scheme \<Rightarrow> string \<Rightarrow> crypto_err + hybrid_public_key" where
  "pubkey_from_hex X hex_str =
     try_res (ok_or (CryptoLibError ''hex'') (lib_hex_decode X hex_str)) (\<lambda>data.
       if length data < 4 then Inl HybridPubkeyTooShort
       else let ecdsa_len = unat (u16_of_be (take 2 data)) in
         if length data < 2 + ecdsa_len then Inl HybridPubkeyTruncated
         else Inr \<lparr>ecdsa_pubkey = take ecdsa_len (drop 2 data),
                   dilithium_pubkey = drop (2 + ecdsa_len) data\<rparr>)"

definition hybrid_verify ::
  "'x sig_lib_scheme \<Rightarrow> hybrid_signature \<Rightarrow> bytes \<Rightarrow> hybrid_public_key \<Rightarrow> crypto_err + unit" where
  "hybrid_verify X sg message pk =
     (let msg_hash = hash256 X message in
      try_res (ok_or InvalidEcdsaPublicKey (lib_secp_pk X (ecdsa_pubkey pk))) (\<lambda>ecdsa_pk.
      try_res (ok_or InvalidEcdsaSignatureFormat (lib_secp_sig X (ecdsa_sig sg))) (\<lambda>es.
      if \<not> lib_secp_verify X msg_hash es ecdsa_pk then Inl EcdsaVerificationFailed
      else
      try_res (ok_or InvalidMlDsaPublicKey (lib_mldsa_vk X (dilithium_pubkey pk))) (\<lambda>vk.
      try_res (ok_or InvalidMlDsaSignatureFormat (lib_mldsa_sig X (dilithium_sig sg))) (\<lambda>ms.
      if \<not> lib_mldsa_verify X vk message ms then Inl MlDsaVerificationFailed
      else Inr ())))))"

definition signature_size :: "hybrid_signature \<Rightarrow> nat" where
  "signature_size sg = length (ecdsa_sig sg) + length (dilithium_sig sg)"

text \<open>The two halves of a verification, each on its own.\<close>

definition ecdsa_accepts ::
  "'x sig_lib_scheme \<Rightarrow> hybrid_signature \<Rightarrow> bytes \<Rightarrow> hybrid_public_key \<Rightarrow> bool" where
  "ecdsa_accepts X sg m pk \<longleftrightarrow>
     verify_raw X (ecdsa_pubkey pk) (hash256 X m) (ecdsa_sig sg)"

definition mldsa_accepts ::
  "'x sig_lib_scheme \<Rightarrow> hybrid_signature \<Rightarrow> bytes \<Rightarrow> hybrid_public_key \<Rightarrow> bool" where
  "mldsa_accepts X sg m pk \<longleftrightarrow>
     (case (lib_mldsa_vk X (dilithium_pubkey pk), lib_mldsa_sig X (dilithium_sig sg)) of
        (Some vk, Some ms) \<Rightarrow> lib_mldsa_verify X vk m ms
      | _ \<Rightarrow> False)"

lemma hybrid_verify_both:
  "hybrid_verify X sg m pk = Inr () \<longleftrightarrow> ecdsa_accepts X sg m pk \<and> mldsa_accepts X sg m pk"
  by (auto simp: hybrid_verify_def ecdsa_accepts_def mldsa_accepts_def verify_raw_def
      secp_verify_def Let_def try_res_Inr split: option.splits)

lemma sign_okD_secp:
  assumes "sign_ok X" "lib_secp_sk X b = Some sk"
  shows "lib_secp_pk X (lib_secp_pub X sk) = Some (lib_secp_pub X sk)"
    and "\<exists>s. lib_secp_sig X (lib_secp_sign X m sk) = Some s
           \<and> lib_secp_verify X m s (lib_secp_pub X sk)"
  using assms by (auto simp: sign_ok_def)

lemma sign_okD_mldsa:
  assumes "sign_ok X" "length seed = 32"
  shows "\<exists>vk s. lib_mldsa_vk X (lib_mldsa_vk_of_seed X seed) = Some vk
             \<and> lib_mldsa_sig X (lib_mldsa_sign X seed m) = Some s \<and> lib_mldsa_verify X vk m s"
  using assms by (auto simp: sign_ok_def)

text \<open>A well-formed pair: its public halves are those of its secrets.\<close>

definition key_pair_wf :: "'x sig_lib_scheme \<Rightarrow> hybrid_key_pair \<Rightarrow> bool" where
  "key_pair_wf X kp \<longleftrightarrow> (\<exists>b. lib_secp_sk X b = Some (ecdsa_secret kp))
     \<and> ecdsa_public kp = lib_secp_pub X (ecdsa_secret kp)
     \<and> length (dilithium_secret kp) = 32
     \<and> dilithium_public kp = lib_mldsa_vk_of_seed X (dilithium_secret kp)"

lemma from_parts_wf: "hybrid_from_parts X es ds dp = Inr kp \<Longrightarrow> key_pair_wf X kp"
  by (auto simp: hybrid_from_parts_def key_pair_wf_def mldsa_signing_key_from_seed_def
      try_res_Inr split: if_splits)

lemma sign_verifies:
  assumes "sign_ok X" "key_pair_wf X kp"
  shows "\<exists>sg. hybrid_sign X kp m = Some sg \<and> hybrid_verify X sg m (public_key kp) = Inr ()"
proof -
  obtain b where sk: "lib_secp_sk X b = Some (ecdsa_secret kp)"
    using assms(2) by (auto simp: key_pair_wf_def)
  show ?thesis
    using assms(2) sign_okD_secp(1) [OF assms(1) sk]
      sign_okD_secp(2) [OF assms(1) sk, of "hash256 X m"]
      sign_okD_mldsa [OF assms(1), of "dilithium_secret kp" m]
    by (auto simp: key_pair_wf_def hybrid_sign_def mldsa_signing_key_from_seed_def
        hybrid_verify_def public_key_def Let_def)
qed

lemma pubkey_hex_roundtrip:
  assumes "hex_ok X" "length (ecdsa_pubkey pk) < 2 ^ 16"
    "2 \<le> length (ecdsa_pubkey pk) + length (dilithium_pubkey pk)"
  shows "pubkey_from_hex X (pubkey_to_hex X pk) = Inr pk"
proof -
  let ?len = "word_of_nat (length (ecdsa_pubkey pk)) :: u16"
  have "unat ?len = length (ecdsa_pubkey pk)"
    using assms(2) by (simp add: unat_of_nat)
  moreover have "take 2 (u16_be ?len @ r) = u16_be ?len" "drop 2 (u16_be ?len @ r) = r" for r
    by simp_all
  ultimately show ?thesis
    using assms(1,3)
    by (simp add: hex_ok_def pubkey_from_hex_def pubkey_to_hex_def Let_def)
qed


section \<open>A concrete library\<close>

text \<open>
  An executable stand-in for the crates, on which the witnesses evaluate the model: a checksum
  of 32 bytes for SHA-256, real lower-case hex, and signatures that spell out key and message.
  It satisfies \<open>sha_ok\<close>, \<open>hex_ok\<close> and \<open>sign_ok\<close>, so these hypotheses can hold together.
\<close>

definition demo_sha :: "bytes \<Rightarrow> bytes" where
  "demo_sha d = take 30 (d @ replicate 30 0)
     @ [foldl (\<lambda>a b. 3 * a + b + 1) 0 d, foldl (\<lambda>a b. 5 * a + b + 1) 1 d]"

definition hex_chars :: string where "hex_chars = ''0123456789abcdef''"

definition hex_val :: "char \<Rightarrow> nat option" where
  "hex_val c = find (\<lambda>i. hex_chars ! i = c) [0..<16]"

fun demo_hex_encode :: "bytes \<Rightarrow> string" where
  "demo_hex_encode [] = []"
| "demo_hex_encode (b # bs) =
     hex_chars ! (unat b div 16) # hex_chars ! (unat b mod 16) # demo_hex_encode bs"

fun demo_hex_decode :: "string \<Rightarrow> bytes option" where
  "demo_hex_decode [] = Some []"
| "demo_hex_decode [c] = None"
| "demo_hex_decode (c # d # cs) =
     (case (hex_val c, hex_val d, demo_hex_decode cs) of
        (Some i, Some j, Some bs) \<Rightarrow> Some (word_of_nat (16 * i + j) # bs)
      | _ \<Rightarrow> None)"

definition demo_sig_lib :: sig_lib where
  "demo_sig_lib =
     \<lparr>lib_sha256 = demo_sha, lib_hex_encode = demo_hex_encode, lib_hex_decode = demo_hex_decode,
      lib_secp_sk = (\<lambda>b. if length b = 32 then Some b else None),
      lib_secp_pub = (\<lambda>sk. 2 # sk),
      lib_secp_sign = (\<lambda>m sk. sk @ m),
      lib_secp_pk = (\<lambda>b. if length b = 33 then Some b else None),
      lib_secp_sig = Some,
      lib_secp_verify = (\<lambda>m s pk. s = tl pk @ m),
      lib_mldsa_vk_of_seed = (\<lambda>seed. seed),
      lib_mldsa_sign = (\<lambda>seed m. seed @ m),
      lib_mldsa_vk = (\<lambda>b. if length b = 32 then Some b else None),
      lib_mldsa_sig = Some,
      lib_mldsa_verify = (\<lambda>vk m s. s = vk @ m),
      lib_hmac_sha256 = (\<lambda>k m. take 32 (m @ replicate 32 0)),
      lib_p256_vk = Some, lib_p256_sig = Some, lib_p256_verify = (\<lambda>vk m s. s = vk @ m)\<rparr>"

lemma length_demo_sha [simp]: "length (demo_sha d) = 32"
  by (simp add: demo_sha_def)

lemma hex_val_nth: "n < 16 \<Longrightarrow> hex_val (hex_chars ! n) = Some n \<and> hex_digit (hex_chars ! n)"
proof -
  have "list_all (\<lambda>n. hex_val (hex_chars ! n) = Some n \<and> hex_digit (hex_chars ! n)) [0..<16]"
    by code_simp
  then show "n < 16 \<Longrightarrow> ?thesis" by (auto simp: list_all_iff)
qed

lemma demo_hex_roundtrip: "demo_hex_decode (demo_hex_encode bs) = Some bs"
proof (induction bs)
  case (Cons b bs)
  have "unat b < 256" using unsigned_less [of b, where ?'a = nat] by simp
  then have "unat b div 16 < 16" "unat b mod 16 < 16" by auto
  with Cons show ?case by (simp add: hex_val_nth)
qed simp

lemma demo_hex_shape:
  "length (demo_hex_encode bs) = 2 * length bs \<and> list_all hex_digit (demo_hex_encode bs)"
proof (induction bs)
  case (Cons b bs)
  have "unat b < 256" using unsigned_less [of b, where ?'a = nat] by simp
  then have "unat b div 16 < 16" "unat b mod 16 < 16" by auto
  with Cons show ?case by (simp add: hex_val_nth)
qed simp

lemma demo_sig_lib_ok:
  "sha_ok demo_sig_lib" "hex_ok demo_sig_lib" "sign_ok demo_sig_lib"
  by (simp_all add: sha_ok_def hex_ok_def sign_ok_def demo_sig_lib_def demo_hex_roundtrip
      demo_hex_shape)

section \<open>Properties\<close>

text \<open>A hybrid signature verifies exactly when its ECDSA half verifies (key and signature
  parse, and the curve accepts them for the double SHA-256 of the message) and its ML-DSA half
  verifies for the message itself; neither half alone is enough.\<close>

theorem hybrid_verify_needs_both:
  "hybrid_verify X sg m pk = Inr () \<longleftrightarrow>
     verify_raw X (ecdsa_pubkey pk) (hash256 X m) (ecdsa_sig sg)
     \<and> (\<exists>vk ms. lib_mldsa_vk X (dilithium_pubkey pk) = Some vk
          \<and> lib_mldsa_sig X (dilithium_sig sg) = Some ms \<and> lib_mldsa_verify X vk m ms)"
  unfolding hybrid_verify_both ecdsa_accepts_def mldsa_accepts_def
  by (auto split: option.splits)

text \<open>A key pair that \<open>from_parts\<close> accepts signs without panicking, and its signatures
  verify under its own public key.\<close>

theorem hybrid_sign_then_verify:
  assumes "sign_ok X" "hybrid_from_parts X es ds dp = Inr kp"
  shows "\<exists>sg. hybrid_sign X kp m = Some sg \<and> hybrid_verify X sg m (public_key kp) = Inr ()"
  using assms(1) from_parts_wf [OF assms(2)] by (rule sign_verifies)

definition demo_key_pair :: hybrid_key_pair where
  "demo_key_pair = \<lparr>ecdsa_secret = replicate 32 1, ecdsa_public = 2 # replicate 32 1,
     dilithium_secret = replicate 32 3, dilithium_public = replicate 32 3\<rparr>"

lemma demo_from_parts:
  "hybrid_from_parts demo_sig_lib (replicate 32 1) (replicate 32 3) (replicate 32 3) =
     Inr demo_key_pair"
  by (simp add: hybrid_from_parts_def demo_sig_lib_def mldsa_signing_key_from_seed_def
      demo_key_pair_def)

theorem hybrid_sign_then_verify_witness:
  "sign_ok demo_sig_lib
   \<and> hybrid_from_parts demo_sig_lib (replicate 32 1) (replicate 32 3) (replicate 32 3) = Inr demo_key_pair
   \<and> (\<exists>sg. hybrid_sign demo_sig_lib demo_key_pair [7] = Some sg
        \<and> hybrid_verify demo_sig_lib sg [7] (public_key demo_key_pair) = Inr ())"
  using demo_sig_lib_ok(3) demo_from_parts
    hybrid_sign_then_verify [OF demo_sig_lib_ok(3) demo_from_parts, of "[7]"] by blast

text \<open>The hexadecimal form of a hybrid public key reads back to the same key, as long as the
  length of the ECDSA half fits its two-byte prefix and the halves together have two bytes.\<close>

theorem hybrid_pubkey_hex_roundtrip:
  assumes "hex_ok X" "length (ecdsa_pubkey pk) < 2 ^ 16"
    "2 \<le> length (ecdsa_pubkey pk) + length (dilithium_pubkey pk)"
  shows "pubkey_from_hex X (pubkey_to_hex X pk) = Inr pk"
  using assms by (rule pubkey_hex_roundtrip)

theorem hybrid_pubkey_hex_roundtrip_witness:
  "pubkey_from_hex demo_sig_lib (pubkey_to_hex demo_sig_lib
     \<lparr>ecdsa_pubkey = replicate 33 2, dilithium_pubkey = replicate 1952 5\<rparr>) =
   Inr \<lparr>ecdsa_pubkey = replicate 33 2, dilithium_pubkey = replicate 1952 5\<rparr>"
  using hybrid_pubkey_hex_roundtrip [OF demo_sig_lib_ok(2),
      of "\<lparr>ecdsa_pubkey = replicate 33 2, dilithium_pubkey = replicate 1952 5\<rparr>"] by simp

end
