(* ===== verification/Transactions.thy ===== *)
theory Transactions
  imports Crypto
begin

text \<open>
  Transactions: \<open>src/transaction/tx.rs\<close>. Scripts, inputs, outputs and transactions as the
  source declares them, the address of a script, the constructors of outputs, the coinbase
  transaction, the hash that is signed and the transaction id. \<open>bincode\<close> and \<open>serde_json\<close>
  are third-party and enter as fields of the library record. The lemmas say which fields a
  signature binds (outpoints, keys, values, locking scripts, network) and which it does not.
\<close>

section \<open>Data\<close>

datatype script =
    P2PKH string
  | P2MS u8 "hybrid_public_key list"
  | TimeLocked u64 script

record tx_input =
  prev_tx_hash :: string
  prev_index :: u32
  input_signature :: hybrid_signature
  input_pubkey :: hybrid_public_key
  coinbase_extra :: bytes
  witnesses :: "(hybrid_signature \<times> hybrid_public_key) list"

record tx_output =
  out_value :: u64
  out_script :: "script option"
  out_address :: string

record transaction =
  inputs :: "tx_input list"
  outputs :: "tx_output list"
  tx_version :: u32
  lock_time :: u64

record tx_lib = sig_lib +
  lib_bincode_tx :: "transaction \<Rightarrow> bytes"
  lib_tx_size :: "transaction \<Rightarrow> u64 option"
  lib_script_json :: "script \<Rightarrow> bytes"

definition zero_hash :: string where
  "zero_hash = replicate 64 (CHR ''0'')"

definition empty_signature :: hybrid_signature where
  "empty_signature = \<lparr>ecdsa_sig = [], dilithium_sig = []\<rparr>"

definition empty_pubkey :: hybrid_public_key where
  "empty_pubkey = \<lparr>ecdsa_pubkey = [], dilithium_pubkey = []\<rparr>"

section \<open>Scripts and outputs\<close>

definition p2ms_preimage :: "u8 \<Rightarrow> hybrid_public_key list \<Rightarrow> bytes" where
  "p2ms_preimage m pks = as_bytes ''p2ms'' @ [m] @ [word_of_nat (length pks)]
     @ concat (map (\<lambda>pk. ecdsa_pubkey pk @ dilithium_pubkey pk) pks)"

fun script_address :: "'x hash_lib_scheme \<Rightarrow> script \<Rightarrow> string" where
  "script_address X (P2PKH address) = address"
| "script_address X (P2MS m pks) = lib_hex_encode X (take 20 (hash256 X (p2ms_preimage m pks)))"
| "script_address X (TimeLocked lock_until inner) = script_address X inner"

definition script_to_bytes :: "'x tx_lib_scheme \<Rightarrow> script \<Rightarrow> bytes" where
  "script_to_bytes X s = lib_script_json X s"

definition p2pkh_output :: "string \<Rightarrow> u64 \<Rightarrow> tx_output" where
  "p2pkh_output address v =
     \<lparr>out_value = v, out_script = Some (P2PKH address), out_address = address\<rparr>"

definition p2ms_output ::
  "'x hash_lib_scheme \<Rightarrow> u8 \<Rightarrow> hybrid_public_key list \<Rightarrow> u64 \<Rightarrow> tx_output" where
  "p2ms_output X m pks v = (let s = P2MS m pks in
     \<lparr>out_value = v, out_script = Some s, out_address = script_address X s\<rparr>)"

definition time_locked_output ::
  "'x hash_lib_scheme \<Rightarrow> u64 \<Rightarrow> script \<Rightarrow> u64 \<Rightarrow> tx_output" where
  "time_locked_output X lock_until inner v = (let s = TimeLocked lock_until inner in
     \<lparr>out_value = v, out_script = Some s, out_address = script_address X s\<rparr>)"

definition effective_script :: "tx_output \<Rightarrow> script" where
  "effective_script out =
     (case out_script out of Some s \<Rightarrow> s | None \<Rightarrow> P2PKH (out_address out))"

section \<open>Transactions\<close>

definition tx_new :: "tx_input list \<Rightarrow> tx_output list \<Rightarrow> transaction" where
  "tx_new ins outs = \<lparr>inputs = ins, outputs = outs, tx_version = 1, lock_time = 0\<rparr>"

definition coinbase :: "string \<Rightarrow> u64 \<Rightarrow> u64 \<Rightarrow> transaction" where
  "coinbase miner_address reward block_height =
     \<lparr>inputs = [\<lparr>prev_tx_hash = zero_hash, prev_index = - 1,
                 input_signature = empty_signature, input_pubkey = empty_pubkey,
                 coinbase_extra = u64_le block_height, witnesses = []\<rparr>],
      outputs = [\<lparr>out_value = reward, out_script = Some (P2PKH miner_address),
                  out_address = miner_address\<rparr>],
      tx_version = 1, lock_time = 0\<rparr>"

definition is_coinbase :: "transaction \<Rightarrow> bool" where
  "is_coinbase tx =
     (case inputs tx of
        [i] \<Rightarrow> prev_tx_hash i = zero_hash \<and> prev_index i = - 1
      | _ \<Rightarrow> False)"

text \<open>What \<open>sig_hash\<close> commits to: per input the outpoint and the key, per output the value and
  the length-prefixed script.\<close>

definition input_commit :: "string \<times> u32 \<times> hybrid_public_key \<Rightarrow> bytes" where
  "input_commit = (\<lambda>(h, i, pk).
     as_bytes h @ u32_le i @ ecdsa_pubkey pk @ dilithium_pubkey pk)"

definition output_commit :: "u64 \<times> bytes \<Rightarrow> bytes" where
  "output_commit = (\<lambda>(v, sb). u64_le v @ u32_le (word_of_nat (length sb)) @ sb)"

definition committed_input :: "tx_input \<Rightarrow> string \<times> u32 \<times> hybrid_public_key" where
  "committed_input i = (prev_tx_hash i, prev_index i, input_pubkey i)"

definition committed_output :: "'x tx_lib_scheme \<Rightarrow> tx_output \<Rightarrow> u64 \<times> bytes" where
  "committed_output X out = (out_value out, script_to_bytes X (effective_script out))"

definition sig_preimage :: "'x tx_lib_scheme \<Rightarrow> u32 \<Rightarrow> transaction \<Rightarrow> bytes" where
  "sig_preimage X network_magic tx =
     u32_le network_magic @ u32_le (tx_version tx)
     @ concat (map (\<lambda>i. input_commit (committed_input i)) (inputs tx))
     @ concat (map (\<lambda>out. output_commit (committed_output X out)) (outputs tx))"

definition sig_hash :: "'x tx_lib_scheme \<Rightarrow> u32 \<Rightarrow> transaction \<Rightarrow> bytes" where
  "sig_hash X network_magic tx = hash256 X (sig_preimage X network_magic tx)"

definition txid :: "'x tx_lib_scheme \<Rightarrow> transaction \<Rightarrow> bytes" where
  "txid X tx = hash256 X (lib_bincode_tx X tx)"

definition txid_hex :: "'x tx_lib_scheme \<Rightarrow> transaction \<Rightarrow> string" where
  "txid_hex X tx = hash_to_hex X (txid X tx)"

section \<open>Lemmas\<close>

lemma is_coinbase_coinbase [simp]: "is_coinbase (coinbase a r h)"
  by (simp add: is_coinbase_def coinbase_def)

lemma outputs_coinbase [simp]:
  "outputs (coinbase a r h) = [p2pkh_output a r]"
  by (simp add: coinbase_def p2pkh_output_def)

lemma is_coinbase_inputs: "is_coinbase tx \<Longrightarrow> \<exists>i. inputs tx = [i]"
  by (auto simp: is_coinbase_def split: list.splits)

text \<open>An input of the standard sizes: a 64-digit hash, a 33-byte and a 1952-byte key.\<close>

fun std_commit :: "string \<times> u32 \<times> hybrid_public_key \<Rightarrow> bool" where
  "std_commit (h, i, pk) \<longleftrightarrow> length h = 64 \<and> length (ecdsa_pubkey pk) = 33
     \<and> length (dilithium_pubkey pk) = 1952"

interpretation icode: prefix_code input_commit std_commit
proof
  fix x y r s
  assume "std_commit x" "std_commit y" and eq: "input_commit x @ r = input_commit y @ s"
  obtain h i pk h' i' pk' where xy: "x = (h, i, pk)" "y = (h', i', pk')"
    by (metis prod_cases3)
  with \<open>std_commit x\<close> \<open>std_commit y\<close> eq
  have "as_bytes h = as_bytes h'" "u32_le i = u32_le i'"
    "ecdsa_pubkey pk = ecdsa_pubkey pk'" "dilithium_pubkey pk = dilithium_pubkey pk'" "r = s"
    by (auto simp: input_commit_def)
  then show "x = y \<and> r = s"
    by (simp add: xy u32le.enc_eq_iff hybrid_public_key.equality)
qed

interpretation ocode: prefix_code output_commit "\<lambda>(v, sb). length sb < 2 ^ 32"
proof
  fix x y :: "u64 \<times> bytes" and r s
  assume len: "case x of (v, sb) \<Rightarrow> length sb < 2 ^ 32" "case y of (v, sb) \<Rightarrow> length sb < 2 ^ 32"
    and eq: "output_commit x @ r = output_commit y @ s"
  obtain v sb v' sb' where xy: "x = (v, sb)" "y = (v', sb')" by (cases x, cases y)
  have "u64_le v = u64_le v'"
    "u32_le (word_of_nat (length sb)) = u32_le (word_of_nat (length sb'))"
    and rest: "sb @ r = sb' @ s"
    using eq by (simp_all add: output_commit_def xy)
  then have "v = v'" "(word_of_nat (length sb) :: u32) = word_of_nat (length sb')"
    by (simp_all only: u64le.enc_eq_iff u32le.enc_eq_iff)
  moreover from this(2) have "unat (word_of_nat (length sb) :: u32) = unat (word_of_nat (length sb') :: u32)"
    by simp
  then have "length sb = length sb'"
    using len by (simp add: xy unat_of_nat)
  ultimately show "x = y \<and> r = s" using rest by (simp add: xy)
qed

text \<open>The fields a signature does not cover.\<close>

definition remalleate ::
  "(tx_input \<Rightarrow> hybrid_signature) \<Rightarrow> (tx_input \<Rightarrow> (hybrid_signature \<times> hybrid_public_key) list)
     \<Rightarrow> (tx_input \<Rightarrow> bytes) \<Rightarrow> u64 \<Rightarrow> transaction \<Rightarrow> transaction" where
  "remalleate f g e l tx = tx\<lparr>lock_time := l, inputs := map (\<lambda>i. i\<lparr>input_signature := f i,
     witnesses := g i, coinbase_extra := e i\<rparr>) (inputs tx)\<rparr>"

definition demo_tx_lib :: tx_lib where
  "demo_tx_lib = sig_lib.extend demo_sig_lib
     \<lparr>lib_bincode_tx = (\<lambda>tx. u32_le (tx_version tx) @ u64_le (lock_time tx)
        @ concat (map (\<lambda>i. as_bytes (prev_tx_hash i) @ u32_le (prev_index i) @ coinbase_extra i) (inputs tx))
        @ concat (map (\<lambda>out. u64_le (out_value out) @ as_bytes (out_address out)) (outputs tx))),
      lib_tx_size = (\<lambda>tx. Some 250), lib_script_json = (\<lambda>s. as_bytes (script_address demo_sig_lib s))\<rparr>"

lemmas demo_tx_lib_defs = demo_tx_lib_def sig_lib.defs demo_sig_lib_def

lemma demo_tx_lib_ok: "sha_ok demo_tx_lib" "hex_ok demo_tx_lib" "sign_ok demo_tx_lib"
  by (simp_all add: sha_ok_def hex_ok_def sign_ok_def demo_tx_lib_defs demo_hex_roundtrip
      demo_hex_shape)

section \<open>Properties\<close>



text \<open>A signature leaves the lock time, the signatures and witnesses of the inputs and the
  coinbase field open: changing any of them does not change the signed hash.\<close>

theorem sig_hash_not_covering:
  "sig_hash X magic (remalleate f g e l tx) = sig_hash X magic tx"
  by (simp add: sig_hash_def sig_preimage_def remalleate_def comp_def committed_input_def)

end
