(* ===== verification/Utxo.thy ===== *)
theory Utxo
  imports Transactions
begin

text \<open>
  The set of unspent outputs: \<open>src/transaction/utxo.rs\<close>. The two maps of \<open>UtxoSet\<close> under the
  string keys the code builds, \<open>apply_transaction\<close> and the queries. The lemmas give the
  abstract view: a partial map from outpoints to outputs (\<open>utxo_get\<close>), which a transaction
  updates by removing the outpoints it spends and adding its own outputs; the total value it
  holds; and the round trip of keys through \<open>utxos_for\<close>.
\<close>

section \<open>State and operations\<close>

record utxo =
  utxo_tx_hash :: string
  utxo_index :: u32
  utxo_output :: tx_output

definition COINBASE_MATURITY :: u64 where
  "COINBASE_MATURITY = 100"

record utxo_set =
  utxos :: "(string, tx_output) hmap"
  coinbase_heights :: "(string, u64) hmap"

definition utxo_default :: utxo_set where
  "utxo_default = \<lparr>utxos = [], coinbase_heights = []\<rparr>"

definition utxo_key :: "string \<Rightarrow> u32 \<Rightarrow> string" where
  "utxo_key tx_hash index = tx_hash @ CHR '':'' # show_nat (unat index)"

definition coinbase_height :: "bytes \<Rightarrow> u64" where
  "coinbase_height extra = (if 8 \<le> length extra then u64_of_le (take 8 extra) else 0)"

definition spent_keys :: "transaction \<Rightarrow> string list" where
  "spent_keys tx = map (\<lambda>i. utxo_key (prev_tx_hash i) (prev_index i)) (inputs tx)"

definition created_entries :: "'x tx_lib_scheme \<Rightarrow> transaction \<Rightarrow> (string \<times> tx_output) list" where
  "created_entries X tx =
     map (\<lambda>(i, out). (utxo_key (txid_hex X tx) (word_of_nat i), out)) (enumerate 0 (outputs tx))"

definition apply_transaction :: "'x tx_lib_scheme \<Rightarrow> transaction \<Rightarrow> utxo_set \<Rightarrow> utxo_set" where
  "apply_transaction X tx us =
     (let u1 = (if \<not> is_coinbase tx then fold hm_remove (spent_keys tx) (utxos us) else utxos us);
          id = txid_hex X tx;
          ch = (if is_coinbase tx
                then hm_insert id (coinbase_height (coinbase_extra (hd (inputs tx))))
                       (coinbase_heights us)
                else coinbase_heights us)
      in \<lparr>utxos = fold (\<lambda>(k, out). hm_insert k out) (created_entries X tx) u1,
          coinbase_heights = ch\<rparr>)"

definition is_immature_coinbase :: "utxo_set \<Rightarrow> string \<Rightarrow> u64 \<Rightarrow> bool" where
  "is_immature_coinbase us tx_hash current_height =
     (case hm_get (coinbase_heights us) tx_hash of
        Some mined_at \<Rightarrow> saturating_sub current_height mined_at < COINBASE_MATURITY
      | None \<Rightarrow> False)"

definition utxo_get :: "utxo_set \<Rightarrow> string \<Rightarrow> u32 \<Rightarrow> tx_output option" where
  "utxo_get us tx_hash index = hm_get (utxos us) (utxo_key tx_hash index)"

definition utxo_balance_of :: "utxo_set \<Rightarrow> string \<Rightarrow> u64" where
  "utxo_balance_of us address =
     sum_list (map out_value (filter (\<lambda>out. out_address out = address) (map snd (utxos us))))"

text \<open>\<open>str::parse::<u32>\<close>: an optional plus sign, at least one digit, no overflow.\<close>

definition parse_u32 :: "string \<Rightarrow> u32 option" where
  "parse_u32 s =
     (let ds = (case s of [] \<Rightarrow> [] | c # cs \<Rightarrow> if c = CHR ''+'' then cs else s) in
      if ds = [] then None
      else case parse_digits 0 ds of
             None \<Rightarrow> None
           | Some n \<Rightarrow> if n < 2 ^ 32 then Some (word_of_nat n) else None)"

text \<open>\<open>utxos_for\<close>: \<open>None\<close> is the panic of \<open>parts[1]\<close> on a key without a colon.\<close>

definition utxo_of_entry :: "string \<times> tx_output \<Rightarrow> utxo option" where
  "utxo_of_entry e =
     (case split_first (CHR '':'') (fst e) of
        (_, None) \<Rightarrow> None
      | (p0, Some p1) \<Rightarrow>
          Some \<lparr>utxo_tx_hash = p0,
                utxo_index = (case parse_u32 p1 of None \<Rightarrow> 0 | Some n \<Rightarrow> n),
                utxo_output = snd e\<rparr>)"

definition utxos_for :: "utxo_set \<Rightarrow> string \<Rightarrow> utxo list option" where
  "utxos_for us address =
     those (map utxo_of_entry (filter (\<lambda>e. out_address (snd e) = address) (utxos us)))"

section \<open>Keys\<close>

lemma utxo_key_inject [simp]: "utxo_key h i = utxo_key h' i' \<longleftrightarrow> h = h' \<and> i = i'"
  by (simp add: utxo_key_def append_sep_inject colon_not_in_show_nat)

lemma show_nat_Cons: "show_nat n = c # cs \<Longrightarrow> c \<noteq> CHR ''+''"
  using show_nat_digits [of c n] by (auto simp: digit_val_def)

lemma parse_u32_show: "parse_u32 (show_nat (unat (i :: u32))) = Some i"
proof -
  obtain c cs where c: "show_nat (unat i) = c # cs"
    by (cases "show_nat (unat i)") auto
  have "unat i < 2 ^ 32" using unsigned_less [of i, where ?'a = nat] by simp
  then show ?thesis
    using parse_digits_show_nat [of "unat i"] show_nat_Cons [OF c]
    by (simp add: parse_u32_def c)
qed

lemma utxo_of_entry_key:
  "CHR '':'' \<notin> set h \<Longrightarrow> utxo_of_entry (utxo_key h i, out) =
     Some \<lparr>utxo_tx_hash = h, utxo_index = i, utxo_output = out\<rparr>"
  by (simp add: utxo_of_entry_def utxo_key_def split_first_append parse_u32_show)

section \<open>The map from outpoints to outputs\<close>

definition outpoints :: "transaction \<Rightarrow> (string \<times> u32) list" where
  "outpoints tx = map (\<lambda>i. (prev_tx_hash i, prev_index i)) (inputs tx)"

lemma spent_keys_outpoints: "spent_keys tx = map (\<lambda>(h, i). utxo_key h i) (outpoints tx)"
  by (simp add: spent_keys_def outpoints_def)

lemma key_in_spent_keys: "utxo_key h i \<in> set (spent_keys tx) \<longleftrightarrow> (h, i) \<in> set (outpoints tx)"
  by (auto simp: spent_keys_def outpoints_def)

lemma distinct_spent_keys: "distinct (spent_keys tx) \<longleftrightarrow> distinct (outpoints tx)"
  by (auto simp: spent_keys_outpoints distinct_map inj_on_def)

lemma created_entries_nth:
  "created_entries X tx =
     map (\<lambda>i. (utxo_key (txid_hex X tx) (word_of_nat i), outputs tx ! i)) [0..<length (outputs tx)]"
  by (rule nth_equalityI) (simp_all add: created_entries_def nth_enumerate_eq)

lemma distinct_created_entries:
  "length (outputs tx) \<le> 2 ^ 32 \<Longrightarrow> distinct (map fst (created_entries X tx))"
  by (auto simp: created_entries_nth distinct_map inj_on_def word_of_nat_inject)

lemma map_of_created_entries:
  assumes len: "length (outputs tx) \<le> 2 ^ 32"
  shows "map_of (created_entries X tx) (utxo_key h i) =
    (if h = txid_hex X tx \<and> unat i < length (outputs tx) then Some (outputs tx ! unat i) else None)"
proof (cases "h = txid_hex X tx \<and> unat i < length (outputs tx)")
  case True
  then have "(utxo_key h i, outputs tx ! unat i) \<in> set (created_entries X tx)"
    by (auto simp: created_entries_nth intro!: image_eqI [of _ _ "unat i"])
  with True show ?thesis
    using map_of_is_SomeI [OF distinct_created_entries [OF len]] by simp
next
  case False
  have "utxo_key h i \<notin> fst ` set (created_entries X tx)"
  proof
    assume "utxo_key h i \<in> fst ` set (created_entries X tx)"
    then obtain j where "h = txid_hex X tx" "i = word_of_nat j" "j < length (outputs tx)"
      by (auto simp: created_entries_nth)
    with False len show False by (simp add: unat_of_nat_small)
  qed
  then have "map_of (created_entries X tx) (utxo_key h i) = None"
    by (simp add: map_of_eq_None_iff)
  with False show ?thesis by auto
qed

lemma utxo_get_apply:
  assumes "length (outputs tx) \<le> 2 ^ 32"
  shows "utxo_get (apply_transaction X tx us) h i =
    (if h = txid_hex X tx \<and> unat i < length (outputs tx) then Some (outputs tx ! unat i)
     else if \<not> is_coinbase tx \<and> (h, i) \<in> set (outpoints tx) then None
     else utxo_get us h i)"
  using assms
  by (simp add: utxo_get_def apply_transaction_def Let_def hm.get_fold_ins_distinct
      distinct_created_entries map_of_created_entries hm.get_fold_rem key_in_spent_keys)

section \<open>Well-formed sets and their value\<close>

definition utxo_ok :: "utxo_set \<Rightarrow> bool" where
  "utxo_ok us \<longleftrightarrow> hm_ok (utxos us) \<and> hm_ok (coinbase_heights us)"

definition utxo_total :: "utxo_set \<Rightarrow> nat" where
  "utxo_total us = hm_sum (\<lambda>out. unat (out_value out)) (utxos us)"

lemma utxo_ok_default [simp]: "utxo_ok utxo_default"
  by (simp add: utxo_ok_def utxo_default_def)

lemma utxo_ok_apply [simp, intro]: "utxo_ok us \<Longrightarrow> utxo_ok (apply_transaction X tx us)"
  by (auto simp: utxo_ok_def apply_transaction_def Let_def
      intro!: hm.ok_fold_ins hm.ok_fold_rem)

definition outputs_total :: "transaction \<Rightarrow> nat" where
  "outputs_total tx = sum_list (map (\<lambda>out. unat (out_value out)) (outputs tx))"

definition inputs_total :: "utxo_set \<Rightarrow> transaction \<Rightarrow> nat" where
  "inputs_total us tx = sum_list (map (\<lambda>(h, i).
     case utxo_get us h i of None \<Rightarrow> 0 | Some out \<Rightarrow> unat (out_value out)) (outpoints tx))"

lemma created_entries_total:
  "sum_list (map ((\<lambda>out. unat (out_value out)) \<circ> snd) (created_entries X tx)) = outputs_total tx"
proof -
  have "map snd (created_entries X tx) = outputs tx"
    by (simp add: created_entries_nth comp_def map_nth)
  then have "map ((\<lambda>out. unat (out_value out)) \<circ> snd) (created_entries X tx) =
      map (\<lambda>out. unat (out_value out)) (outputs tx)"
    by (metis map_map)
  then show ?thesis by (simp add: outputs_total_def)
qed

text \<open>No output of the set carries the id of \<open>tx\<close> yet.\<close>

definition txid_fresh :: "'x tx_lib_scheme \<Rightarrow> transaction \<Rightarrow> utxo_set \<Rightarrow> bool" where
  "txid_fresh X tx us \<longleftrightarrow> list_all (\<lambda>(k, _). hm_get (utxos us) k = None) (created_entries X tx)"

lemma utxo_total_insert:
  assumes "length (outputs tx) \<le> 2 ^ 32"
    "list_all (\<lambda>(k, _). hm_get m k = None) (created_entries X tx)"
  shows "hm_sum (\<lambda>out. unat (out_value out))
      (fold (\<lambda>(k, out). hm_insert k out) (created_entries X tx) m) =
    outputs_total tx + hm_sum (\<lambda>out. unat (out_value out)) m"
  using hm_sum_fold_insert [OF distinct_created_entries [OF assms(1)] assms(2)]
  by (simp add: created_entries_total)

lemma utxo_total_coinbase:
  assumes "length (outputs tx) \<le> 2 ^ 32" "is_coinbase tx" "txid_fresh X tx us"
  shows "utxo_total (apply_transaction X tx us) = utxo_total us + outputs_total tx"
  using assms utxo_total_insert [of tx "utxos us" X]
  by (simp add: utxo_total_def apply_transaction_def txid_fresh_def Let_def)

lemma fresh_after_remove:
  "list_all (\<lambda>(k, _). hm_get m k = None) kvs \<Longrightarrow>
     list_all (\<lambda>(k, _). hm_get (fold hm_remove ks m) k = None) kvs"
  by (auto simp: list_all_iff hm.get_fold_rem)

lemma spent_total:
  assumes "utxo_ok us" "distinct (outpoints tx)"
    and present: "list_all (\<lambda>(h, i). utxo_get us h i \<noteq> None) (outpoints tx)"
  shows "utxo_total us = inputs_total us tx
    + hm_sum (\<lambda>out. unat (out_value out)) (fold hm_remove (spent_keys tx) (utxos us))"
proof -
  let ?f = "\<lambda>out. unat (out_value out)" and ?m = "utxos us"
  have pres: "list_all (\<lambda>k. hm_get ?m k \<noteq> None) (spent_keys tx)"
    using present by (auto simp: spent_keys_outpoints list_all_iff utxo_get_def)
  have "map (\<lambda>k. ?f (the (hm_get ?m k))) (spent_keys tx) =
      map (\<lambda>(h, i). case utxo_get us h i of None \<Rightarrow> 0 | Some out \<Rightarrow> ?f out) (outpoints tx)"
    using present by (auto simp: spent_keys_outpoints list_all_iff utxo_get_def)
  then show ?thesis
    using hm_sum_fold_remove [OF _ _ pres, of ?f] assms(1,2)
    by (simp add: utxo_ok_def distinct_spent_keys inputs_total_def utxo_total_def)
qed

lemma utxo_total_spend:
  assumes "length (outputs tx) \<le> 2 ^ 32" "\<not> is_coinbase tx" "txid_fresh X tx us" "utxo_ok us"
    and "distinct (outpoints tx)"
    and "list_all (\<lambda>(h, i). utxo_get us h i \<noteq> None) (outpoints tx)"
  shows "utxo_total (apply_transaction X tx us) + inputs_total us tx =
    utxo_total us + outputs_total tx"
proof -
  let ?f = "\<lambda>out. unat (out_value out)" and ?m = "utxos us"
  have "utxo_total (apply_transaction X tx us) =
      outputs_total tx + hm_sum ?f (fold hm_remove (spent_keys tx) ?m)"
    using assms(1-3) utxo_total_insert [of tx "fold hm_remove (spent_keys tx) ?m" X]
    by (simp add: utxo_total_def apply_transaction_def Let_def txid_fresh_def fresh_after_remove)
  with spent_total [OF assms(4-6)] show ?thesis by simp
qed

text \<open>
  Lookups decide a balance: two sets with the same lookups give every address the same
  balance, whatever the iteration order of their maps.
\<close>

lemma utxo_balance_of_mset:
  assumes "mset (utxos us) = mset (utxos us')"
  shows "utxo_balance_of us a = utxo_balance_of us' a"
proof -
  let ?f = "\<lambda>us. map out_value (filter (\<lambda>out. out_address out = a) (map snd (utxos us)))"
  have "mset (?f us) = mset (?f us')"
    using assms by (metis mset_filter mset_map)
  then show ?thesis
    unfolding utxo_balance_of_def by (metis sum_mset_sum_list)
qed

text \<open>A spent output leaves the set: spending it a second time finds nothing.\<close>

lemma utxo_get_spent:
  assumes "length (outputs tx) \<le> 2 ^ 32" "\<not> is_coinbase tx"
    "(h, i) \<in> set (outpoints tx)" "h \<noteq> txid_hex X tx"
  shows "utxo_get (apply_transaction X tx us) h i = None"
  using assms by (simp add: utxo_get_apply)

lemma coinbase_height_coinbase: "coinbase_height (u64_le h) = h"
  by (simp add: coinbase_height_def)

lemma coinbase_matures:
  assumes "is_coinbase tx"
  shows "is_immature_coinbase (apply_transaction X tx us) (txid_hex X tx) cur
     \<longleftrightarrow> unat cur < unat (coinbase_height (coinbase_extra (hd (inputs tx)))) + 100"
proof -
  let ?us = "apply_transaction X tx us" and ?h = "coinbase_height (coinbase_extra (hd (inputs tx)))"
  have "hm_get (coinbase_heights ?us) (txid_hex X tx) = Some ?h"
    using assms by (simp add: apply_transaction_def Let_def)
  moreover have "saturating_sub cur ?h < (100 :: u64) \<longleftrightarrow> unat cur - unat ?h < 100"
    by (simp add: word_less_nat_alt unat_saturating_sub)
  ultimately show ?thesis
    by (auto simp: is_immature_coinbase_def COINBASE_MATURITY_def)
qed

text \<open>Keys as the code makes them: a transaction id without a colon, then the index.\<close>

definition keys_wf :: "utxo_set \<Rightarrow> bool" where
  "keys_wf us \<longleftrightarrow> list_all (\<lambda>(k, _). \<exists>h i. CHR '':'' \<notin> set h \<and> k = utxo_key h i) (utxos us)"

lemma keys_wf_default [simp]: "keys_wf utxo_default"
  by (simp add: keys_wf_def utxo_default_def)

lemma set_remove_subset: "set (hm_remove k m) \<subseteq> set m"
  by (auto simp: hm_remove_def)

lemma set_fold_remove_subset: "set (fold hm_remove ks m) \<subseteq> set m"
proof (induction ks arbitrary: m)
  case (Cons k ks)
  have "set (fold hm_remove ks (hm_remove k m)) \<subseteq> set (hm_remove k m)" by (rule Cons.IH)
  also have "\<dots> \<subseteq> set m" by (rule set_remove_subset)
  finally show ?case by simp
qed simp

lemma keys_fold_insert:
  "fst ` set (fold (\<lambda>(k, v). hm_insert k v) kvs m) \<subseteq> fst ` set kvs \<union> fst ` set m"
proof (induction kvs arbitrary: m)
  case Nil
  then show ?case by simp
next
  case (Cons p kvs)
  obtain k v where p: "p = (k, v)" by (cases p)
  have "fst ` set (hm_insert k v m) = insert k (fst ` set m)"
    by (simp add: hm_insert_def dom_update)
  with Cons.IH [of "hm_insert k v m"] show ?case by (auto simp: p)
qed

lemma keys_wf_iff: "keys_wf us \<longleftrightarrow>
    (\<forall>k \<in> fst ` set (utxos us). \<exists>h i. CHR '':'' \<notin> set h \<and> k = utxo_key h i)"
  by (fastforce simp: keys_wf_def list_all_iff)

lemma keys_wf_apply:
  assumes "hex_ok X" "keys_wf us"
  shows "keys_wf (apply_transaction X tx us)"
proof -
  have new: "\<forall>k \<in> fst ` set (created_entries X tx). \<exists>h i. CHR '':'' \<notin> set h \<and> k = utxo_key h i"
    using colon_not_hex [OF assms(1)]
    by (auto simp: created_entries_nth txid_hex_def hash_to_hex_def)
  let ?u = "if \<not> is_coinbase tx then fold hm_remove (spent_keys tx) (utxos us) else utxos us"
  have sub: "fst ` set ?u \<subseteq> fst ` set (utxos us)"
    using image_mono [OF set_fold_remove_subset [of "spent_keys tx" "utxos us"], of fst]
    by (cases "is_coinbase tx") simp_all
  moreover have "utxos (apply_transaction X tx us) =
      fold (\<lambda>(k, out). hm_insert k out) (created_entries X tx) ?u"
    by (simp add: apply_transaction_def Let_def)
  ultimately have keys: "fst ` set (utxos (apply_transaction X tx us)) \<subseteq>
      fst ` set (created_entries X tx) \<union> fst ` set ?u"
    by (simp only: keys_fold_insert)
  have "\<exists>h i. CHR '':'' \<notin> set h \<and> k = utxo_key h i"
    if "k \<in> fst ` set (utxos (apply_transaction X tx us))" for k
  proof (cases "k \<in> fst ` set (created_entries X tx)")
    case True
    with new show ?thesis by (rule bspec)
  next
    case False
    with keys sub that have "k \<in> fst ` set (utxos us)" by (meson UnE subsetD)
    with assms(2) show ?thesis unfolding keys_wf_iff by (rule bspec)
  qed
  then show ?thesis unfolding keys_wf_iff by (rule ballI)
qed

lemma utxos_for_exact:
  assumes "keys_wf us" "utxo_ok us"
  shows "\<exists>us'. utxos_for us a = Some us' \<and>
    (\<forall>h i out. \<lparr>utxo_tx_hash = h, utxo_index = i, utxo_output = out\<rparr> \<in> set us' \<longrightarrow>
       utxo_get us h i = Some out \<and> out_address out = a) \<and>
    sum_list (map (\<lambda>u. out_value (utxo_output u)) us') = utxo_balance_of us a"
proof -
  let ?sel = "filter (\<lambda>e. out_address (snd e) = a) (utxos us)"
  have dec: "\<exists>h i. fst e = utxo_key h i \<and> utxo_of_entry e =
      Some \<lparr>utxo_tx_hash = h, utxo_index = i, utxo_output = snd e\<rparr>" if "e \<in> set (utxos us)" for e
    using assms(1) that utxo_of_entry_key [of _ _ "snd e"]
    by (cases e) (fastforce simp: keys_wf_def list_all_iff)
  have "\<exists>us'. those (map utxo_of_entry es) = Some us' \<and>
      (\<forall>u \<in> set us'. \<exists>e \<in> set es. utxo_of_entry e = Some u) \<and>
      map utxo_output us' = map snd es" if "set es \<subseteq> set (utxos us)" for es
    using that
  proof (induction es)
    case Nil
    then show ?case by simp
  next
    case (Cons e es)
    with dec [of e] show ?case by fastforce
  qed
  from this [of ?sel] obtain us' where us': "utxos_for us a = Some us'"
      "\<forall>u \<in> set us'. \<exists>e \<in> set ?sel. utxo_of_entry e = Some u" "map utxo_output us' = map snd ?sel"
    by (auto simp: utxos_for_def)
  have "utxo_get us h i = Some out \<and> out_address out = a"
    if "\<lparr>utxo_tx_hash = h, utxo_index = i, utxo_output = out\<rparr> \<in> set us'" for h i out
  proof -
    obtain e where e: "e \<in> set (utxos us)" "out_address (snd e) = a"
        "utxo_of_entry e = Some \<lparr>utxo_tx_hash = h, utxo_index = i, utxo_output = out\<rparr>"
      using us'(2) \<open>_ \<in> set us'\<close> by fastforce
    with dec [OF e(1)] have "e = (utxo_key h i, out)" by (cases e) auto
    with e(1,2) show ?thesis
      using assms(2) by (simp add: utxo_ok_def utxo_get_def in_set_hm_get)
  qed
  moreover have "map (\<lambda>u. out_value (utxo_output u)) us' = map out_value (map snd ?sel)"
    using us'(3) by (metis (no_types, lifting) comp_apply map_eq_conv map_map)
  then have "sum_list (map (\<lambda>u. out_value (utxo_output u)) us') = utxo_balance_of us a"
    by (simp add: utxo_balance_of_def filter_map comp_def)
  ultimately show ?thesis using us'(1) by blast
qed

section \<open>Properties\<close>

text \<open>C14: \<open>apply_transaction\<close> refines the update of a partial map from outpoints to outputs: the
  outputs of the transaction appear under its id, the outpoints it spends disappear (a coinbase
  spends none), every other lookup is unchanged.\<close>

theorem apply_refines_outpoint_map:
  assumes "length (outputs tx) \<le> 2 ^ 32"
  shows "utxo_get (apply_transaction X tx us) h i =
    (if h = txid_hex X tx \<and> unat i < length (outputs tx) then Some (outputs tx ! unat i)
     else if \<not> is_coinbase tx \<and> (h, i) \<in> set (outpoints tx) then None
     else utxo_get us h i)"
  using assms by (rule utxo_get_apply)

theorem apply_refines_outpoint_map_witness:
  "utxo_get (apply_transaction demo_tx_lib (coinbase ''ab'' 5 0) utxo_default)
     (txid_hex demo_tx_lib (coinbase ''ab'' 5 0)) 0 = Some (p2pkh_output ''ab'' 5)
   \<and> utxo_get (apply_transaction demo_tx_lib (coinbase ''ab'' 5 0) utxo_default)
     (txid_hex demo_tx_lib (coinbase ''ab'' 5 0)) 1 = None"
proof -
  have "utxo_get utxo_default h i = None" for h i by (simp add: utxo_get_def utxo_default_def)
  then show ?thesis by (simp add: apply_refines_outpoint_map [of "coinbase ''ab'' 5 0"])
qed

lemma fold_apply_inv:
  "hex_ok X \<Longrightarrow> keys_wf us \<Longrightarrow> utxo_ok us \<Longrightarrow>
     keys_wf (fold (apply_transaction X) txs us) \<and> utxo_ok (fold (apply_transaction X) txs us)"
  by (induction txs arbitrary: us) (simp_all add: keys_wf_apply)

text \<open>After any sequence of transactions \<open>utxos_for\<close> does not panic on a key, every entry it
  lists for an address is an unspent output of that address under its own outpoint, and the
  listed values add up to \<open>balance_of\<close>.\<close>

theorem utxos_for_lists_balance:
  assumes "hex_ok X"
  shows "\<exists>us'. utxos_for (fold (apply_transaction X) txs utxo_default) a = Some us' \<and>
    (\<forall>h i out. \<lparr>utxo_tx_hash = h, utxo_index = i, utxo_output = out\<rparr> \<in> set us' \<longrightarrow>
       utxo_get (fold (apply_transaction X) txs utxo_default) h i = Some out \<and> out_address out = a) \<and>
    sum_list (map (\<lambda>u. out_value (utxo_output u)) us') =
      utxo_balance_of (fold (apply_transaction X) txs utxo_default) a"
  using fold_apply_inv [OF assms, of utxo_default txs] by (intro utxos_for_exact) simp_all

theorem utxos_for_lists_balance_witness:
  "\<exists>us'. utxos_for (fold (apply_transaction demo_tx_lib) [coinbase ''ab'' 5 0] utxo_default) ''ab'' = Some us'
     \<and> sum_list (map (\<lambda>u. out_value (utxo_output u)) us') =
         utxo_balance_of (fold (apply_transaction demo_tx_lib) [coinbase ''ab'' 5 0] utxo_default) ''ab''"
  using utxos_for_lists_balance [OF demo_tx_lib_ok(2), of "[coinbase ''ab'' 5 0]" "''ab''"] by blast

text \<open>The outputs of a coinbase transaction are immature exactly while the current height is less
  than 100 above the height written in the first eight bytes of its input's \<open>coinbase_extra\<close>
  (0 when there are fewer), counted without wrap-around. Maturity depends on that field alone,
  which the miner chooses.\<close>

theorem coinbase_maturity_window:
  assumes "is_coinbase tx"
  shows "is_immature_coinbase (apply_transaction X tx us) (txid_hex X tx) cur
     \<longleftrightarrow> unat cur < unat (coinbase_height (coinbase_extra (hd (inputs tx)))) + 100"
  using assms by (rule coinbase_matures)

theorem coinbase_maturity_window_witness:
  "is_coinbase (coinbase ''ab'' 5 300)
   \<and> is_immature_coinbase (apply_transaction demo_tx_lib (coinbase ''ab'' 5 300) utxo_default)
       (txid_hex demo_tx_lib (coinbase ''ab'' 5 300)) 399
   \<and> \<not> is_immature_coinbase (apply_transaction demo_tx_lib (coinbase ''ab'' 5 300) utxo_default)
       (txid_hex demo_tx_lib (coinbase ''ab'' 5 300)) 400"
proof -
  have "coinbase_extra (hd (inputs (coinbase ''ab'' 5 300))) = u64_le 300"
    by (simp add: coinbase_def)
  then show ?thesis
    using coinbase_maturity_window [of "coinbase ''ab'' 5 300" demo_tx_lib]
    by (simp add: coinbase_height_coinbase)
qed

end
