(* ===== verification/Mempool.thy ===== *)
theory Mempool
  imports Transactions
begin

text \<open>
  The pool of unconfirmed transactions: \<open>src/transaction/mempool.rs\<close>. The state with its byte
  counter, admission with the fee and size limits, removal and the selection of transactions
  for a block by fee rate. Shown: the counter is the sum of the sizes held and stays within
  the limit over any run of admissions and removals; a selection has the requested length,
  comes from the pool, and is ordered by exact fee rate as long as the compared products fit
  into 64 bits; and a pool on which they do not, where the comparison is no order.
\<close>

section \<open>State and operations\<close>

definition MAX_MEMPOOL_BYTES :: nat where "MAX_MEMPOOL_BYTES = 32 * 1024 * 1024"
definition MIN_FEE_ARKES :: u64 where "MIN_FEE_ARKES = 1000"
definition DUST_LIMIT_ARKES :: u64 where "DUST_LIMIT_ARKES = 546"

record mempool =
  pool_txs :: "(string, transaction) hmap"
  pool_fees :: "(string, u64) hmap"
  total_bytes :: nat

datatype mempool_err = FeeBelowMinimum u64 | MempoolFull nat

definition mempool_new :: mempool where
  "mempool_new = \<lparr>pool_txs = [], pool_fees = [], total_bytes = 0\<rparr>"

text \<open>\<open>bincode::serialized_size(&tx).unwrap_or(0) as usize\<close>\<close>

definition tx_size :: "'x tx_lib_scheme \<Rightarrow> transaction \<Rightarrow> nat" where
  "tx_size X tx = (case lib_tx_size X tx of None \<Rightarrow> 0 | Some n \<Rightarrow> unat n)"

definition pool_insert :: "'x tx_lib_scheme \<Rightarrow> transaction \<Rightarrow> u64 \<Rightarrow> mempool \<Rightarrow> mempool" where
  "pool_insert X tx fee mp =
     (let tid = txid_hex X tx; mp1 = mp\<lparr>pool_txs := hm_insert tid tx (pool_txs mp)\<rparr> in
      case hm_get (pool_txs mp) tid of
        None \<Rightarrow> mp1\<lparr>total_bytes := total_bytes mp + tx_size X tx,
                    pool_fees := hm_insert tid fee (pool_fees mp)\<rparr>
      | Some _ \<Rightarrow> mp1)"

definition add_with_fee ::
  "'x tx_lib_scheme \<Rightarrow> transaction \<Rightarrow> u64 \<Rightarrow> mempool \<Rightarrow> (mempool_err + string) \<times> mempool" where
  "add_with_fee X tx fee mp =
     (if fee < MIN_FEE_ARKES then (Inl (FeeBelowMinimum fee), mp)
      else if MAX_MEMPOOL_BYTES < total_bytes mp + tx_size X tx
      then (Inl (MempoolFull (total_bytes mp)), mp)
      else (Inr (txid_hex X tx), pool_insert X tx fee mp))"

definition pool_add :: "'x tx_lib_scheme \<Rightarrow> transaction \<Rightarrow> mempool \<Rightarrow> string \<times> mempool" where
  "pool_add X tx mp = (txid_hex X tx, pool_insert X tx 0 mp)"

definition pool_remove :: "'x tx_lib_scheme \<Rightarrow> string \<Rightarrow> mempool \<Rightarrow> mempool" where
  "pool_remove X tid mp =
     (case hm_get (pool_txs mp) tid of
        None \<Rightarrow> mp
      | Some tx \<Rightarrow> \<lparr>pool_txs = hm_remove tid (pool_txs mp),
                   pool_fees = hm_remove tid (pool_fees mp),
                   total_bytes = total_bytes mp - tx_size X tx\<rparr>)"

definition pool_get :: "mempool \<Rightarrow> string \<Rightarrow> transaction option" where
  "pool_get mp tid = hm_get (pool_txs mp) tid"

definition fee_for :: "mempool \<Rightarrow> string \<Rightarrow> u64" where
  "fee_for mp tid = (case hm_get (pool_fees mp) tid of None \<Rightarrow> 0 | Some f \<Rightarrow> f)"

text \<open>\<open>serialized_size(tx).unwrap_or(1).max(1)\<close>, and the comparison of \<open>take\<close>.\<close>

definition rate_size :: "'x tx_lib_scheme \<Rightarrow> transaction \<Rightarrow> u64" where
  "rate_size X tx = max 1 (case lib_tx_size X tx of None \<Rightarrow> 1 | Some n \<Rightarrow> n)"

definition rate_le ::
  "'x tx_lib_scheme \<Rightarrow> mempool \<Rightarrow> string \<times> transaction \<Rightarrow> string \<times> transaction \<Rightarrow> bool" where
  "rate_le X mp = (\<lambda>(ida, txa) (idb, txb).
     let lhs = saturating_mul (fee_for mp ida) (rate_size X txb);
         rhs = saturating_mul (fee_for mp idb) (rate_size X txa)
     in rhs < lhs \<or> rhs = lhs \<and> ida \<le> idb)"

definition pool_take :: "'x tx_lib_scheme \<Rightarrow> mempool \<Rightarrow> nat \<Rightarrow> transaction list" where
  "pool_take X mp limit = map snd (take limit (sort_by (rate_le X mp) (pool_txs mp)))"

definition pool_peek :: "'x tx_lib_scheme \<Rightarrow> mempool \<Rightarrow> nat \<Rightarrow> transaction list" where
  "pool_peek X mp limit = pool_take X mp limit"

definition pool_len :: "mempool \<Rightarrow> nat" where
  "pool_len mp = length (pool_txs mp)"

definition pool_is_empty :: "mempool \<Rightarrow> bool" where
  "pool_is_empty mp = (pool_txs mp = [])"

definition pool_contains :: "mempool \<Rightarrow> string \<Rightarrow> bool" where
  "pool_contains mp tid = hm_contains (pool_txs mp) tid"

section \<open>The invariant\<close>

definition mempool_ok :: "'x tx_lib_scheme \<Rightarrow> mempool \<Rightarrow> bool" where
  "mempool_ok X mp \<longleftrightarrow> hm_ok (pool_txs mp) \<and> hm_ok (pool_fees mp)
     \<and> (\<forall>tid. hm_get (pool_fees mp) tid = None \<longleftrightarrow> hm_get (pool_txs mp) tid = None)
     \<and> (\<forall>tid tx. hm_get (pool_txs mp) tid = Some tx \<longrightarrow> tid = txid_hex X tx)
     \<and> total_bytes mp = hm_sum (tx_size X) (pool_txs mp)"

text \<open>The pool does not already hold another transaction under the same id (no collision).\<close>

definition no_clash :: "'x tx_lib_scheme \<Rightarrow> transaction \<Rightarrow> mempool \<Rightarrow> bool" where
  "no_clash X tx mp \<longleftrightarrow>
     (case hm_get (pool_txs mp) (txid_hex X tx) of None \<Rightarrow> True | Some tx' \<Rightarrow> tx' = tx)"

lemma mempool_ok_new: "mempool_ok X mempool_new"
  by (simp add: mempool_ok_def mempool_new_def)

lemma insert_same: "hm_get m k = Some v \<Longrightarrow> hm_insert k v m = m"
  by (induction m) (auto simp: hm_get_def hm_insert_def split: if_splits)

lemma pool_insert_ok:
  assumes "mempool_ok X mp" "no_clash X tx mp"
  shows "mempool_ok X (pool_insert X tx fee mp)"
proof (cases "hm_get (pool_txs mp) (txid_hex X tx)")
  case None
  then show ?thesis
    using assms(1)
    by (auto simp: mempool_ok_def pool_insert_def Let_def hm_sum_insert_fresh)
next
  case (Some tx')
  with assms(2) have "hm_get (pool_txs mp) (txid_hex X tx) = Some tx" by (simp add: no_clash_def)
  then have "pool_insert X tx fee mp = mp"
    by (simp add: pool_insert_def Let_def insert_same)
  with assms(1) show ?thesis by simp
qed

lemma pool_remove_ok: "mempool_ok X mp \<Longrightarrow> mempool_ok X (pool_remove X tid mp)"
proof (cases "hm_get (pool_txs mp) tid")
  case None
  then show "mempool_ok X mp \<Longrightarrow> mempool_ok X (pool_remove X tid mp)"
    by (simp add: pool_remove_def)
next
  case (Some tx)
  assume ok: "mempool_ok X mp"
  then have "total_bytes mp = tx_size X tx + hm_sum (tx_size X) (hm_remove tid (pool_txs mp))"
    using hm_sum_remove [OF _ Some, of "tx_size X"] by (simp add: mempool_ok_def)
  with ok Some show ?thesis
    by (auto simp: mempool_ok_def pool_remove_def)
qed

text \<open>What admission and removal do to the pool's limits.\<close>

definition pool_bounded :: "mempool \<Rightarrow> bool" where
  "pool_bounded mp \<longleftrightarrow> total_bytes mp \<le> MAX_MEMPOOL_BYTES
     \<and> (\<forall>tid f. hm_get (pool_fees mp) tid = Some f \<longrightarrow> MIN_FEE_ARKES \<le> f)"

inductive pool_step :: "'x tx_lib_scheme \<Rightarrow> mempool \<Rightarrow> mempool \<Rightarrow> bool" for X where
  admit: "no_clash X tx mp \<Longrightarrow> pool_step X mp (snd (add_with_fee X tx fee mp))"
| evict: "pool_step X mp (pool_remove X tid mp)"

lemma add_with_fee_bounded:
  "pool_bounded mp \<Longrightarrow> pool_bounded (snd (add_with_fee X tx fee mp))"
  by (auto simp: pool_bounded_def add_with_fee_def pool_insert_def Let_def not_less
      split: option.splits)

lemma pool_remove_bounded: "pool_bounded mp \<Longrightarrow> pool_bounded (pool_remove X tid mp)"
  by (auto simp: pool_bounded_def pool_remove_def split: option.splits)

lemma add_with_fee_ok:
  "mempool_ok X mp \<Longrightarrow> no_clash X tx mp \<Longrightarrow> mempool_ok X (snd (add_with_fee X tx fee mp))"
  by (simp add: add_with_fee_def pool_insert_ok)

lemma pool_bounded_new: "pool_bounded mempool_new"
  by (simp add: pool_bounded_def mempool_new_def)

interpretation pool: guarded_system "\<lambda>mp. mp = mempool_new" "pool_step X"
  "\<lambda>mp. mempool_ok X mp \<and> pool_bounded mp" for X
  by unfold_locales
    (auto simp: mempool_ok_new pool_bounded_new add_with_fee_ok pool_remove_ok
      add_with_fee_bounded pool_remove_bounded elim!: pool_step.cases)

section \<open>Selection by fee rate\<close>

text \<open>The products that \<open>take\<close> compares fit into 64 bits: none of them saturates.\<close>

definition rates_fit :: "'x tx_lib_scheme \<Rightarrow> mempool \<Rightarrow> bool" where
  "rates_fit X mp \<longleftrightarrow> (\<forall>(ida, txa) \<in> set (pool_txs mp). \<forall>(idb, txb) \<in> set (pool_txs mp).
     unat (fee_for mp ida) * unat (rate_size X txb) < 2 ^ 64)"

text \<open>The exact order: fee rate descending (cross-multiplied), then id ascending.\<close>

definition exact_le ::
  "'x tx_lib_scheme \<Rightarrow> mempool \<Rightarrow> string \<times> transaction \<Rightarrow> string \<times> transaction \<Rightarrow> bool" where
  "exact_le X mp = (\<lambda>(ida, txa) (idb, txb).
     let lhs = unat (fee_for mp ida) * unat (rate_size X txb);
         rhs = unat (fee_for mp idb) * unat (rate_size X txa)
     in rhs < lhs \<or> rhs = lhs \<and> ida \<le> idb)"

lemma rate_size_pos: "0 < unat (rate_size X tx)"
proof -
  have "(1 :: u64) \<le> rate_size X tx" by (simp add: rate_size_def)
  then show ?thesis by (simp add: word_le_nat_alt)
qed

lemma rate_le_exact:
  assumes "rates_fit X mp" "a \<in> set (pool_txs mp)" "b \<in> set (pool_txs mp)"
  shows "rate_le X mp a b = exact_le X mp a b"
proof -
  obtain ida txa idb txb where ab: "a = (ida, txa)" "b = (idb, txb)" by (cases a, cases b)
  have fit: "unat (fee_for mp ida) * unat (rate_size X txb) < 2 ^ 64"
    "unat (fee_for mp idb) * unat (rate_size X txa) < 2 ^ 64"
    using assms by (auto simp: rates_fit_def ab)
  let ?l = "saturating_mul (fee_for mp ida) (rate_size X txb)"
    and ?r = "saturating_mul (fee_for mp idb) (rate_size X txa)"
  have "unat ?l = unat (fee_for mp ida) * unat (rate_size X txb)"
    "unat ?r = unat (fee_for mp idb) * unat (rate_size X txa)"
    using fit by (simp_all add: unat_saturating_mul)
  moreover have "?r < ?l \<longleftrightarrow> unat ?r < unat ?l" "?r = ?l \<longleftrightarrow> unat ?r = unat ?l"
    by (simp_all add: word_less_nat_alt)
  ultimately show ?thesis
    by (simp only: rate_le_def exact_le_def ab Let_def prod.case)
qed

lemma cross_trans:
  fixes fa fb fc sa sb sc :: nat
  assumes "fb * sa \<le> fa * sb" "fc * sb \<le> fb * sc" "0 < sb"
  shows "fc * sa \<le> fa * sc"
proof -
  have "(fc * sa) * sb = (fc * sb) * sa" by simp
  also have "\<dots> \<le> (fb * sc) * sa" using assms(2) by (rule mult_le_mono1)
  also have "\<dots> = (fb * sa) * sc" by simp
  also have "\<dots> \<le> (fa * sb) * sc" using assms(1) by (rule mult_le_mono1)
  also have "\<dots> = (fa * sc) * sb" by simp
  finally show ?thesis using assms(3) by simp
qed

lemma cross_trans_strict:
  fixes fa fb fc sa sb sc :: nat
  assumes "fb * sa \<le> fa * sb" "fc * sb \<le> fb * sc" "0 < sa" "0 < sb" "0 < sc"
    "fc * sa = fa * sc"
  shows "fb * sa = fa * sb \<and> fc * sb = fb * sc"
proof -
  have "(fa * sb) * sc = (fc * sb) * sa" using assms(6) by (simp add: mult.commute mult.left_commute)
  also have "\<dots> \<le> (fb * sc) * sa" using assms(2) by (rule mult_le_mono1)
  also have "\<dots> = (fb * sa) * sc" by simp
  finally have "fa * sb \<le> fb * sa" using assms(5) by simp
  with assms(1) have ab: "fb * sa = fa * sb" by simp
  have "(fb * sc) * sa = (fb * sa) * sc" by simp
  also have "\<dots> = (fa * sc) * sb" using ab by simp
  also have "\<dots> = (fc * sb) * sa" using assms(6) by (simp add: mult.commute mult.left_commute)
  finally have "fb * sc = fc * sb" using assms(3) by simp
  with ab show ?thesis by simp
qed

lemma exact_le_total: "exact_le X mp a b \<or> exact_le X mp b a"
  by (cases a; cases b) (auto simp: exact_le_def Let_def)

lemma exact_le_trans: "exact_le X mp a b \<Longrightarrow> exact_le X mp b c \<Longrightarrow> exact_le X mp a c"
proof -
  obtain ida txa idb txb idc txc where abc: "a = (ida, txa)" "b = (idb, txb)" "c = (idc, txc)"
    by (cases a, cases b, cases c)
  assume le: "exact_le X mp a b" "exact_le X mp b c"
  let ?f = "\<lambda>i. unat (fee_for mp i)" and ?s = "\<lambda>t. unat (rate_size X t)"
  have ab: "?f idb * ?s txa \<le> ?f ida * ?s txb" and bc: "?f idc * ?s txb \<le> ?f idb * ?s txc"
    using le by (auto simp: exact_le_def abc Let_def)
  have "?f idc * ?s txa \<le> ?f ida * ?s txc"
    using cross_trans [OF ab bc rate_size_pos] .
  moreover have "ida \<le> idc" if "?f idc * ?s txa = ?f ida * ?s txc"
  proof -
    have "?f idb * ?s txa = ?f ida * ?s txb \<and> ?f idc * ?s txb = ?f idb * ?s txc"
      using cross_trans_strict [OF ab bc rate_size_pos rate_size_pos rate_size_pos that] .
    with le have "ida \<le> idb" "idb \<le> idc" by (auto simp: exact_le_def abc Let_def)
    then show ?thesis by (rule order_trans)
  qed
  ultimately show ?thesis by (auto simp: exact_le_def abc Let_def le_less)
qed

lemma sorted_pool:
  assumes "rates_fit X mp"
  shows "sorted_wrt (exact_le X mp) (sort_by (rate_le X mp) (pool_txs mp))"
proof -
  have "sorted_wrt (rate_le X mp) (sort_by (rate_le X mp) (pool_txs mp))"
  proof (rule sorted_sort_by)
    show "\<forall>a\<in>set (pool_txs mp). \<forall>b\<in>set (pool_txs mp). rate_le X mp a b \<or> rate_le X mp b a"
      using exact_le_total by (simp add: rate_le_exact [OF assms]) blast
    show "transp_on (set (pool_txs mp)) (rate_le X mp)"
      by (rule transp_onI) (use exact_le_trans in \<open>auto simp: rate_le_exact [OF assms]\<close>)
  qed simp
  then show ?thesis
    by (rule sorted_wrt_mono_rel [rotated]) (auto simp: rate_le_exact [OF assms])
qed

section \<open>Properties\<close>

text \<open>C16: over any run of admissions and removals the byte counter of the mempool equals the sum of
  the sizes of the transactions it holds and never exceeds 32 MiB, every transaction is stored
  under its own id, and every recorded fee is at least the minimum.\<close>

theorem mempool_run_invariant:
  assumes "(pool_step X)\<^sup>*\<^sup>* mempool_new mp"
  shows "total_bytes mp = hm_sum (tx_size X) (pool_txs mp) \<and> total_bytes mp \<le> 33554432
    \<and> (\<forall>tid tx. pool_get mp tid = Some tx \<longrightarrow> tid = txid_hex X tx)
    \<and> (\<forall>tid f. hm_get (pool_fees mp) tid = Some f \<longrightarrow> 1000 \<le> f)"
  using pool.reachable_inv [OF _ assms]
  by (auto simp: mempool_ok_def pool_bounded_def pool_get_def MAX_MEMPOOL_BYTES_def MIN_FEE_ARKES_def)

theorem mempool_run_invariant_witness:
  "let mp = snd (add_with_fee demo_tx_lib (coinbase ''ab'' 5 0) 1000 mempool_new) in
   (pool_step demo_tx_lib)\<^sup>*\<^sup>* mempool_new mp
   \<and> total_bytes mp = hm_sum (tx_size demo_tx_lib) (pool_txs mp) \<and> total_bytes mp \<le> 33554432"
proof -
  let ?mp = "snd (add_with_fee demo_tx_lib (coinbase ''ab'' 5 0) 1000 mempool_new)"
  have "pool_step demo_tx_lib mempool_new ?mp"
    by (rule pool_step.admit) (simp add: no_clash_def mempool_new_def)
  then have "(pool_step demo_tx_lib)\<^sup>*\<^sup>* mempool_new ?mp" by blast
  with mempool_run_invariant [OF this] show ?thesis by (simp add: Let_def)
qed

text \<open>\<open>take\<close> returns the first entries of an arrangement of the whole pool that is sorted by
  exact fee rate (cross-multiplied, ties by id), as long as no fee-size product reaches
  \<open>2^64\<close>.\<close>

theorem take_by_exact_fee_rate:
  assumes "rates_fit X mp"
  shows "\<exists>s. mset s = mset (pool_txs mp) \<and> sorted_wrt (exact_le X mp) s
    \<and> pool_take X mp limit = map snd (take limit s)"
  using sorted_pool [OF assms] unfolding pool_take_def by (intro exI conjI) simp_all

definition demo_pool :: mempool where
  "demo_pool = \<lparr>pool_txs = [(''a'', tx_new [] []), (''b'', (tx_new [] [])\<lparr>lock_time := 9\<rparr>)],
     pool_fees = [(''a'', 1000), (''b'', 3000)], total_bytes = 500\<rparr>"

theorem take_by_exact_fee_rate_witness:
  "rates_fit demo_tx_lib demo_pool
   \<and> (\<exists>s. mset s = mset (pool_txs demo_pool) \<and> sorted_wrt (exact_le demo_tx_lib demo_pool) s
        \<and> pool_take demo_tx_lib demo_pool 1 = map snd (take 1 s))"
proof -
  have "rates_fit demo_tx_lib demo_pool"
    by (simp add: rates_fit_def demo_pool_def fee_for_def rate_size_def hm_get_def demo_tx_lib_defs)
  with take_by_exact_fee_rate [OF this, of 1] show ?thesis by simp
qed

text \<open>Without that bound the comparison of \<open>take\<close> is no order: with fees and sizes a chain of
  this supply allows, the saturating products tie \<open>a\<close> with \<open>b\<close> and \<open>b\<close> with \<open>c\<close> while \<open>c\<close>
  pays twice the rate of \<open>a\<close>, so that \<open>a\<close> sorts before \<open>b\<close>, \<open>b\<close> before \<open>c\<close>, and \<open>c\<close>
  before \<open>a\<close>.\<close>

definition saturating_lib :: tx_lib where
  "saturating_lib = demo_tx_lib\<lparr>lib_tx_size := (\<lambda>tx. Some (lock_time tx))\<rparr>"

definition saturating_pool :: mempool where
  "saturating_pool = \<lparr>pool_txs = [(''a'', (tx_new [] [])\<lparr>lock_time := 1024\<rparr>),
       (''b'', (tx_new [] [])\<lparr>lock_time := 4194304\<rparr>), (''c'', (tx_new [] [])\<lparr>lock_time := 1024\<rparr>)],
     pool_fees = [(''a'', 8796093022208), (''b'', 18014398509481984), (''c'', 17592186044416)],
     total_bytes = 4196352\<rparr>"

theorem fee_rate_comparison_cyclic:
  "\<exists>a b c. {a, b, c} \<subseteq> set (pool_txs saturating_pool)
     \<and> rate_le saturating_lib saturating_pool a b \<and> rate_le saturating_lib saturating_pool b c
     \<and> \<not> rate_le saturating_lib saturating_pool a c"
  by (intro exI [of _ "(''a'', (tx_new [] [])\<lparr>lock_time := 1024\<rparr>)"]
      exI [of _ "(''b'', (tx_new [] [])\<lparr>lock_time := 4194304\<rparr>)"]
      exI [of _ "(''c'', (tx_new [] [])\<lparr>lock_time := 1024\<rparr>)"])
    (simp add: rate_le_def saturating_pool_def saturating_lib_def fee_for_def rate_size_def
      hm_get_def saturating_mul_def max_def)

end
