(* ===== verification/Consensus.thy ===== *)
theory Consensus
  imports Prelude
begin

text \<open>
  Difficulty and time rules: \<open>src/blockchain/consensus.rs\<close>. The medians, the difficulty
  adjustment on compact bits and the timestamp rule, on words as the code has them. Shown:
  the adjustment as arithmetic on the exponent and mantissa it decodes, the ranges of its
  result, the factor-four clamp, its fixed point on schedule, and that a minority of outlying
  timestamps cannot move a median out of the range of the others.
\<close>

unbundle bit_operations_syntax

section \<open>Definitions\<close>

definition TARGET_BLOCK_TIME :: u64 where "TARGET_BLOCK_TIME = 194"
definition DIFFICULTY_ADJUSTMENT_INTERVAL :: u64 where "DIFFICULTY_ADJUSTMENT_INTERVAL = 2016"

definition median_timestamp :: "u64 list \<Rightarrow> u64" where
  "median_timestamp ts = (if ts = [] then 0 else sort ts ! (length ts div 2))"

definition adjust_difficulty :: "u32 \<Rightarrow> u64 list \<Rightarrow> u64 list \<Rightarrow> u32" where
  "adjust_difficulty current_bits start_timestamps end_timestamps =
     (let interval_start_time = median_timestamp start_timestamps;
          interval_end_time = median_timestamp end_timestamps;
          actual_time = saturating_sub interval_end_time interval_start_time;
          expected_time = TARGET_BLOCK_TIME * DIFFICULTY_ADJUSTMENT_INTERVAL;
          actual_clamped = min (max actual_time (expected_time div 4)) (expected_time * 4);
          exp = (ucast (drop_bit 24 current_bits) :: u64);
          mantissa = (ucast (current_bits AND 0x00ffffff) :: u64)
      in if mantissa = 0 then current_bits
         else
           let new_mantissa = mantissa * actual_clamped div expected_time;
               (new_exp, new_mantissa) =
                 (if 0x00ffffff < new_mantissa then (exp + 1, drop_bit 8 new_mantissa)
                  else if new_mantissa < 0x000100 \<and> 1 < exp then (exp - 1, push_bit 8 new_mantissa)
                  else (exp, new_mantissa));
               new_mantissa = (ucast (min (max new_mantissa 1) 0x00ffffff) :: u32);
               new_exp = (ucast (min new_exp 0x1d) :: u32)
           in push_bit 24 new_exp OR new_mantissa)"

definition validate_timestamp :: "u64 \<Rightarrow> u64 \<Rightarrow> u64 \<Rightarrow> bool" where
  "validate_timestamp block_ts median_past_time network_time \<longleftrightarrow>
     median_past_time < block_ts \<and> block_ts \<le> network_time + 7200"

section \<open>Medians\<close>

lemma median_in_set: "ts \<noteq> [] \<Longrightarrow> median_timestamp ts \<in> set ts"
proof -
  assume "ts \<noteq> []"
  then have "length ts div 2 < length (sort ts)" by simp
  then have "sort ts ! (length ts div 2) \<in> set (sort ts)" by (rule nth_mem)
  with \<open>ts \<noteq> []\<close> show ?thesis by (simp add: median_timestamp_def)
qed

lemma median_perm: "mset ts = mset ts' \<Longrightarrow> median_timestamp ts = median_timestamp ts'"
  by (metis (no_types) median_timestamp_def mset_eq_length mset_zero_iff properties_for_sort
      mset_sort sorted_sort)

lemma length_filter_sort: "length (filter P (sort xs)) = length (filter P xs)"
  by (metis mset_filter mset_sort size_mset)

lemma sorted_low_count:
  assumes "sorted xs" "k < length xs" "xs ! k < lo"
  shows "k < length (filter (\<lambda>t. t < lo) xs)"
proof -
  have "list_all (\<lambda>t. t < lo) (take (Suc k) xs)"
  proof (clarsimp simp: list_all_length)
    fix i assume "i < length xs" "i < Suc k"
    with assms have "xs ! i \<le> xs ! k" by (simp add: sorted_nth_mono)
    with assms(3) show "xs ! i < lo" by simp
  qed
  then have "filter (\<lambda>t. t < lo) (take (Suc k) xs) = take (Suc k) xs"
    by (simp add: list_all_iff filter_id_conv)
  then have "Suc k \<le> length (filter (\<lambda>t. t < lo) (take (Suc k) xs))"
    using assms(2) by simp
  also have "\<dots> \<le> length (filter (\<lambda>t. t < lo) xs)"
    by (metis append_take_drop_id filter_append le_add1 length_append)
  finally show ?thesis by simp
qed

lemma sorted_high_count:
  assumes "sorted xs" "k < length xs" "hi < xs ! k"
  shows "length xs - k \<le> length (filter (\<lambda>t. hi < t) xs)"
proof -
  have "list_all (\<lambda>t. hi < t) (drop k xs)"
  proof (clarsimp simp: list_all_length)
    fix i assume "i < length xs - k"
    with assms have "xs ! k \<le> xs ! (k + i)" by (simp add: sorted_nth_mono)
    with assms(3) show "hi < xs ! (k + i)" by simp
  qed
  then have "filter (\<lambda>t. hi < t) (drop k xs) = drop k xs"
    by (simp add: list_all_iff filter_id_conv)
  then have "length xs - k \<le> length (filter (\<lambda>t. hi < t) (drop k xs))" by simp
  also have "\<dots> \<le> length (filter (\<lambda>t. hi < t) xs)"
    by (metis append_take_drop_id filter_append le_add2 length_append)
  finally show ?thesis .
qed

lemma median_bounds:
  assumes "ts \<noteq> []"
    and low: "length (filter (\<lambda>t. t < lo) ts) \<le> length ts div 2"
    and high: "length (filter (\<lambda>t. hi < t) ts) < length ts - length ts div 2"
  shows "lo \<le> median_timestamp ts \<and> median_timestamp ts \<le> hi"
proof -
  let ?k = "length ts div 2"
  have k: "?k < length (sort ts)" using assms(1) by simp
  have "\<not> sort ts ! ?k < lo"
    using sorted_low_count [OF sorted_sort k, of lo] low by (auto simp: length_filter_sort)
  moreover have "\<not> hi < sort ts ! ?k"
    using sorted_high_count [OF sorted_sort k, of hi] high by (auto simp: length_filter_sort)
  ultimately show ?thesis
    using assms(1) by (auto simp: median_timestamp_def not_less)
qed

section \<open>The adjustment as arithmetic\<close>

text \<open>The two fields of a compact target, as numbers.\<close>

definition bits_exp :: "u32 \<Rightarrow> nat" where "bits_exp b = unat (drop_bit 24 b)"
definition bits_mantissa :: "u32 \<Rightarrow> nat" where "bits_mantissa b = unat (b AND 0x00ffffff)"

lemma bits_exp_div: "bits_exp b = unat b div 2 ^ 24"
  by (simp add: bits_exp_def drop_bit_eq_div unat_div)

lemma and_ffffff: "(b :: u32) AND 0x00ffffff = take_bit 24 b"
  by (simp add: take_bit_eq_mask mask_eq_exp_minus_1)

lemma bits_mantissa_mod: "bits_mantissa b = unat b mod 2 ^ 24"
  by (simp add: bits_mantissa_def and_ffffff take_bit_eq_mod unat_mod)

lemma bits_exp_bound: "bits_exp b < 256"
  using unsigned_less [of b, where ?'a = nat] by (simp add: bits_exp_div)

lemma bits_mantissa_bound: "bits_mantissa b < 2 ^ 24"
  by (simp add: bits_mantissa_mod)

lemma unat_ucast_32_64: "unat (ucast (w :: u32) :: u64) = unat w"
proof -
  have "unat w < 2 ^ 32" using unsigned_less [of w, where ?'a = nat] by simp
  then show ?thesis by (simp add: unsigned_ucast_eq take_bit_eq_mod)
qed

lemma unat_ucast_64_32: "unat (w :: u64) < 2 ^ 32 \<Longrightarrow> unat (ucast w :: u32) = unat w"
  by (simp add: unsigned_ucast_eq take_bit_eq_mod)

lemma unat_min: "unat (min a (b :: 'a::len word)) = min (unat a) (unat b)"
  by (simp add: min_def word_le_nat_alt)

lemma unat_max: "unat (max a (b :: 'a::len word)) = max (unat a) (unat b)"
  by (simp add: max_def word_le_nat_alt)

lemma pack_bits:
  assumes "unat e < 256" "unat m < 2 ^ 24"
  shows "unat (push_bit 24 e OR (m :: u32)) = unat e * 2 ^ 24 + unat m"
proof -
  have "unat (push_bit 24 e) = unat e * 2 ^ 24"
    using assms(1) by (simp add: push_bit_eq_mult unat_word_ariths)
  moreover have "push_bit 24 e AND m = 0"
  proof (rule bit_eqI)
    fix n
    have "\<not> bit m n" if "24 \<le> n"
    proof -
      have "take_bit 24 m = m"
        using assms(2) by (simp add: take_bit_eq_mod word_unat_eq_iff unat_word_ariths)
      then have "bit m n = bit (take_bit 24 m) n" by simp
      with that show ?thesis by (simp add: bit_take_bit_iff)
    qed
    then show "bit (push_bit 24 e AND m) n = bit (0 :: u32) n"
      by (auto simp: bit_and_iff bit_push_bit_iff)
  qed
  then have "push_bit 24 e OR m = push_bit 24 e + m"
    by (simp add: disjunctive_add_eq_or)
  moreover have "unat (push_bit 24 e) + unat m < 2 ^ 32"
    using assms calculation(1) by simp
  ultimately show ?thesis by (simp add: unat_word_ariths)
qed

text \<open>The elapsed time, clamped to a quarter and four times the expected 391104 seconds.\<close>

definition clamped_time :: "u64 list \<Rightarrow> u64 list \<Rightarrow> nat" where
  "clamped_time st en =
     min (max (unat (median_timestamp en) - unat (median_timestamp st)) 97776) 1564416"

fun renormalise :: "nat \<Rightarrow> nat \<Rightarrow> nat \<times> nat" where
  "renormalise e m = (if 0xffffff < m then (e + 1, m div 256)
     else if m < 0x100 \<and> 1 < e then (e - 1, m * 256) else (e, m))"

lemma clamped_time_bounds: "97776 \<le> clamped_time st en \<and> clamped_time st en \<le> 1564416"
  by (auto simp: clamped_time_def)

lemma expected_time: "TARGET_BLOCK_TIME * DIFFICULTY_ADJUSTMENT_INTERVAL = 391104"
  by (simp add: TARGET_BLOCK_TIME_def DIFFICULTY_ADJUSTMENT_INTERVAL_def)

lemma unat_clamped:
  "unat (min (max (saturating_sub (median_timestamp en) (median_timestamp st)) (391104 div 4))
     (391104 * 4) :: u64) = clamped_time st en"
  by (simp add: unat_min unat_max unat_saturating_sub clamped_time_def)

lemma unat_scaled:
  assumes "unat (m :: u64) < 2 ^ 24" "unat (c :: u64) \<le> 1564416"
  shows "unat (m * c div 391104) = unat m * unat c div 391104"
proof -
  have "unat m * unat c \<le> 2 ^ 24 * 1564416"
    using assms by (intro mult_mono) simp_all
  then have "unat (m * c) = unat m * unat c" by (simp add: unat_word_ariths)
  then show ?thesis by (simp add: unat_div)
qed

lemma unat_renormalise:
  assumes "unat (e :: u64) < 256" "unat (m :: u64) < 2 ^ 60"
    and "(e', m') = (if 0x00ffffff < m then (e + 1, drop_bit 8 m)
       else if m < 0x000100 \<and> 1 < e then (e - 1, push_bit 8 m) else (e, m))"
  shows "(unat e', unat m') = renormalise (unat e) (unat m)"
proof -
  have "unat (e + 1) = unat e + 1" using assms(1) by (simp add: unat_word_ariths)
  moreover have "unat (e - 1) = unat e - 1" if "1 < e"
    using that by (simp add: unat_sub word_le_nat_alt word_less_nat_alt)
  moreover have "unat (drop_bit 8 m) = unat m div 256"
    by (simp add: drop_bit_eq_div unat_div)
  moreover have "unat (push_bit 8 m) = unat m * 256" if "m < 0x100"
    using that by (simp add: push_bit_eq_mult unat_word_ariths word_less_nat_alt)
  ultimately show ?thesis
    using assms(3) by (auto simp: word_less_nat_alt split: if_splits)
qed

lemma adjust_unfold:
  assumes "bits_mantissa b \<noteq> 0"
  shows "\<exists>(e :: u64) (m :: u64). (unat e, unat m) =
      renormalise (bits_exp b) (bits_mantissa b * clamped_time st en div 391104)
    \<and> adjust_difficulty b st en =
        push_bit 24 (ucast (min e 0x1d) :: u32) OR ucast (min (max m 1) 0x00ffffff)"
proof -
  let ?e = "ucast (drop_bit 24 b) :: u64" and ?m = "ucast (b AND 0x00ffffff) :: u64"
  let ?c = "min (max (saturating_sub (median_timestamp en) (median_timestamp st)) (391104 div 4))
     (391104 * 4) :: u64"
  let ?n = "?m * ?c div 391104"
  have e: "unat ?e = bits_exp b" and m: "unat ?m = bits_mantissa b"
    by (simp_all only: unat_ucast_32_64 bits_exp_def bits_mantissa_def)
  have n: "unat ?n = bits_mantissa b * clamped_time st en div 391104"
    using unat_scaled [of ?m ?c] bits_mantissa_bound [of b] clamped_time_bounds [of st en]
    unfolding m unat_clamped by simp
  obtain e' m' where pair: "(e', m') = (if 0x00ffffff < ?n then (?e + 1, drop_bit 8 ?n)
       else if ?n < 0x000100 \<and> 1 < ?e then (?e - 1, push_bit 8 ?n) else (?e, ?n))"
    by (metis surj_pair)
  have "bits_mantissa b * clamped_time st en \<le> 2 ^ 24 * 1564416"
    using bits_mantissa_bound [of b] clamped_time_bounds [of st en] by (intro mult_mono) simp_all
  then have "unat ?n < 2 ^ 60" unfolding n by simp
  then have ren: "(unat e', unat m') =
      renormalise (bits_exp b) (bits_mantissa b * clamped_time st en div 391104)"
    using unat_renormalise [OF _ _ pair] bits_exp_bound [of b] unfolding e n by simp
  have nz: "?m \<noteq> 0"
    using assms m by (metis unat_0)
  have "adjust_difficulty b st en =
      (case (e', m') of (ne, nm) \<Rightarrow>
        push_bit 24 (ucast (min ne 0x1d) :: u32) OR ucast (min (max nm 1) 0x00ffffff))"
    unfolding adjust_difficulty_def Let_def expected_time pair using nz by simp
  then have "adjust_difficulty b st en =
        push_bit 24 (ucast (min e' 0x1d) :: u32) OR ucast (min (max m' 1) 0x00ffffff)"
    by (simp only: prod.case)
  with ren show ?thesis by blast
qed

lemma adjust_fields:
  assumes "bits_mantissa b \<noteq> 0"
    and "renormalise (bits_exp b) (bits_mantissa b * clamped_time st en div 391104) = (e, m)"
  shows "bits_exp (adjust_difficulty b st en) = min e 29"
    and "bits_mantissa (adjust_difficulty b st en) = min (max m 1) 0xffffff"
proof -
  obtain e' :: u64 and m' :: u64 where em: "unat e' = e" "unat m' = m"
    and eq: "adjust_difficulty b st en =
        push_bit 24 (ucast (min e' 0x1d) :: u32) OR ucast (min (max m' 1) 0x00ffffff)"
    using adjust_unfold [OF assms(1), of st en] unfolding assms(2) by blast
  have "unat (min e' 0x1d) = min e 29" "unat (min (max m' 1) 0xffffff) = min (max m 1) 0xffffff"
    by (simp_all add: unat_min unat_max em)
  then have f: "unat (ucast (min e' 0x1d) :: u32) = min e 29"
    "unat (ucast (min (max m' 1) 0xffffff) :: u32) = min (max m 1) 0xffffff"
    by (simp_all add: unat_ucast_64_32)
  then have "unat (adjust_difficulty b st en) = min e 29 * 2 ^ 24 + min (max m 1) 0xffffff"
    unfolding eq by (subst pack_bits) simp_all
  then show "bits_exp (adjust_difficulty b st en) = min e 29"
    and "bits_mantissa (adjust_difficulty b st en) = min (max m 1) 0xffffff"
    by (auto simp: bits_exp_div bits_mantissa_mod)
qed

section \<open>The clamp\<close>

lemma scaled_le: "c \<le> 1564416 \<Longrightarrow> m * c div 391104 \<le> 4 * (m :: nat)"
proof -
  assume "c \<le> 1564416"
  then have "m * c \<le> m * 1564416" by (rule mult_le_mono2)
  then have "m * c div 391104 \<le> m * 1564416 div 391104" by (rule div_le_mono)
  then show ?thesis by simp
qed

lemma renormalise_le:
  assumes "renormalise e n = (e', m')" "n \<le> 4 * m" "1 \<le> m"
  shows "min (max m' 1) 0xffffff * 256 ^ min e' 29 \<le> 4 * m * 256 ^ e"
proof -
  have "min (max m' 1) 0xffffff * 256 ^ min e' 29 \<le> max m' 1 * 256 ^ e'"
    by (intro mult_mono power_increasing) simp_all
  also have "\<dots> \<le> max n 1 * 256 ^ e"
  proof -
    consider "0xffffff < n" | "n < 0x100" "1 < e" | "\<not> 0xffffff < n" "\<not> (n < 0x100 \<and> 1 < e)" by blast
    then show ?thesis
    proof cases
      case 1
      then have em: "e' = e + 1" "m' = n div 256" "1 \<le> n div 256" using assms(1) by auto
      have "max m' 1 * 256 ^ e' = n div 256 * 256 * 256 ^ e" using em by simp
      also have "\<dots> \<le> n * 256 ^ e" by (intro mult_le_mono1) simp
      also have "\<dots> \<le> max n 1 * 256 ^ e" by (intro mult_le_mono1) simp
      finally show ?thesis .
    next
      case 2
      then have "e' = e - 1" "m' = n * 256" using assms(1) by auto
      moreover have "(256 :: nat) ^ e = 256 * 256 ^ (e - 1)" using 2 by (cases e) simp_all
      ultimately show ?thesis by simp
    next
      case 3
      then show ?thesis using assms(1) by auto
    qed
  qed
  also have "\<dots> \<le> 4 * m * 256 ^ e" using assms(2,3) by (intro mult_le_mono1) simp
  finally show ?thesis .
qed

section \<open>Properties\<close>

text \<open>C26: the difficulty adjustment is exact arithmetic on the fields it decodes: the mantissa is
  scaled by the elapsed time (difference of medians, clamped to a quarter and four times 391104
  seconds), renormalised by one byte, and kept within one and \<open>0xffffff\<close>, the exponent
  within 29; no 64-bit product overflows. A zero mantissa is left alone.\<close>

theorem adjust_difficulty_exact:
  "if bits_mantissa b = 0 then adjust_difficulty b st en = b
   else (let (e, m) = renormalise (bits_exp b) (bits_mantissa b * clamped_time st en div 391104)
         in bits_exp (adjust_difficulty b st en) = min e 29
            \<and> bits_mantissa (adjust_difficulty b st en) = min (max m 1) 0xffffff)"
proof (cases "bits_mantissa b = 0")
  case True
  then have "(ucast (b AND 0x00ffffff) :: u64) = 0"
    unfolding bits_mantissa_def by (metis unat_0 unat_eq_zero unsigned_0 ucast_0 unat_inject)
  with True show ?thesis by (simp add: adjust_difficulty_def Let_def)
next
  case False
  then show ?thesis by (auto simp: adjust_fields simp del: renormalise.simps split: prod.split)
qed

text \<open>One adjustment never makes the target, the number mantissa times 256 to the exponent, more
  than four times larger.\<close>

theorem adjust_difficulty_at_most_fourfold:
  "bits_mantissa (adjust_difficulty b st en) * 256 ^ bits_exp (adjust_difficulty b st en)
     \<le> 4 * (bits_mantissa b * 256 ^ bits_exp b)"
proof (cases "bits_mantissa b = 0")
  case True
  then have "(ucast (b AND 0x00ffffff) :: u64) = 0"
    unfolding bits_mantissa_def by (metis unat_0 unat_eq_zero unsigned_0 ucast_0 unat_inject)
  with True show ?thesis by (simp add: adjust_difficulty_def Let_def)
next
  case False
  obtain e m where em: "renormalise (bits_exp b) (bits_mantissa b * clamped_time st en div 391104) = (e, m)"
    by fastforce
  show ?thesis
    using renormalise_le [OF em scaled_le] clamped_time_bounds [of st en] False
    unfolding adjust_fields [OF False em] by (simp add: mult.assoc)
qed

text \<open>On schedule nothing changes: when the medians are 391104 seconds apart, the mantissa has at
  least two bytes and the exponent is at most 29, the adjusted bits are the old ones.\<close>

theorem adjust_difficulty_fixed_point:
  assumes "unat (median_timestamp en) = unat (median_timestamp st) + 391104"
    "256 \<le> bits_mantissa b" "bits_exp b \<le> 29"
  shows "adjust_difficulty b st en = b"
proof -
  have c: "clamped_time st en = 391104" using assms(1) by (simp add: clamped_time_def)
  have nz: "bits_mantissa b \<noteq> 0" using assms(2) by simp
  have "renormalise (bits_exp b) (bits_mantissa b * clamped_time st en div 391104) =
      (bits_exp b, bits_mantissa b)"
    using assms(2) bits_mantissa_bound [of b] by (simp add: c)
  note f = adjust_fields [OF nz this]
  have "unat (adjust_difficulty b st en) = unat b"
    using f assms(2,3) bits_mantissa_bound [of b]
      div_mult_mod_eq [of "unat b" "2 ^ 24"] div_mult_mod_eq [of "unat (adjust_difficulty b st en)" "2 ^ 24"]
    unfolding bits_exp_div bits_mantissa_mod by (simp add: min_def max_def split: if_splits)
  then show ?thesis by simp
qed

theorem adjust_difficulty_fixed_point_witness:
  "adjust_difficulty 0x1d00ffff [0] [391104] = 0x1d00ffff"
  using adjust_difficulty_fixed_point [of "[391104]" "[0]" "0x1d00ffff"]
  by (simp add: median_timestamp_def bits_mantissa_mod bits_exp_div)

text \<open>The cap of the exponent turns an easing into a hardening: at exponent 29 a mantissa that
  grows past three bytes is divided by 256 without its exponent rising, so a period four
  times too slow shrinks the target by a factor of 64.\<close>

theorem adjust_difficulty_cap_hardens:
  "adjust_difficulty 0x1dffff00 [0] [1564416] = 0x1d03fffc
   \<and> 64 * (bits_mantissa 0x1d03fffc * 256 ^ bits_exp 0x1d03fffc)
       = bits_mantissa 0x1dffff00 * 256 ^ bits_exp 0x1dffff00"
proof
  have "unat (adjust_difficulty 0x1dffff00 [0] [1564416]) =
      bits_exp (adjust_difficulty 0x1dffff00 [0] [1564416]) * 2 ^ 24
      + bits_mantissa (adjust_difficulty 0x1dffff00 [0] [1564416])"
    unfolding bits_exp_div bits_mantissa_mod by (simp only: div_mult_mod_eq)
  also have "\<dots> = 29 * 2 ^ 24 + 0x3fffc"
    using adjust_fields [of "0x1dffff00" "[0]" "[1564416]"]
    by (simp add: clamped_time_def median_timestamp_def bits_mantissa_mod bits_exp_div)
  finally have "unat (adjust_difficulty 0x1dffff00 [0] [1564416]) = unat (0x1d03fffc :: u32)" by simp
  then show "adjust_difficulty 0x1dffff00 [0] [1564416] = 0x1d03fffc" by (simp only: unat_inject)
  show "64 * (bits_mantissa 0x1d03fffc * 256 ^ bits_exp 0x1d03fffc)
       = bits_mantissa 0x1dffff00 * 256 ^ bits_exp 0x1dffff00"
    by (simp add: bits_mantissa_mod bits_exp_div)
qed

text \<open>Timestamps outside \<open>[lo, hi]\<close> cannot move the median out of that range as long as at most
  half of them are below and less than half (rounded up) above.\<close>

theorem median_resists_minority:
  assumes "ts \<noteq> []"
    and "length (filter (\<lambda>t. t < lo) ts) \<le> length ts div 2"
    and "length (filter (\<lambda>t. hi < t) ts) < length ts - length ts div 2"
  shows "lo \<le> median_timestamp ts \<and> median_timestamp ts \<le> hi"
  using assms by (rule median_bounds)

theorem median_resists_minority_witness:
  "100 \<le> median_timestamp [0, 0, 101, 102, 103, 104, 105, 0, 99999, 99999, 99999]
   \<and> median_timestamp [0, 0, 101, 102, 103, 104, 105, 0, 99999, 99999, 99999] \<le> 110"
  by (rule median_resists_minority) (simp_all add: word_less_nat_alt)

end
