(* ===== verification/Blocks.thy ===== *)
theory Blocks
  imports Transactions Consensus
begin

text \<open>
  Blocks: \<open>src/blockchain/block.rs\<close>. Headers with their proof-of-work bytes, compact targets,
  structural validation, the reward schedule, the Merkle root, the genesis block and the CPU
  miner. The miner's loop may run forever, so it is a partial function whose value \<open>None\<close>
  means that it does not return. Shown: the number a compact target stands for and that the
  byte comparison compares numbers; that the miner returns the first header of its search
  that meets the target; that the schedule never issues more than the cap; that a Merkle
  root binds the list of transactions it was computed from.
\<close>

section \<open>Data\<close>

definition MAX_BLOCK_TRANSACTIONS :: nat where "MAX_BLOCK_TRANSACTIONS = 10000"
definition MAX_BLOCK_BYTES :: nat where "MAX_BLOCK_BYTES = 4 * 1024 * 1024"
definition MAX_BLOCK_UTXO_OPS :: nat where "MAX_BLOCK_UTXO_OPS = 50000"
definition BLOCK_REWARD_INITIAL :: u64 where "BLOCK_REWARD_INITIAL = 32188184932"
definition HALVING_INTERVAL :: u64 where "HALVING_INTERVAL = 488004"
definition ARKES_PER_ARKOS :: u64 where "ARKES_PER_ARKOS = 1000000000"
definition MAX_SUPPLY_ARKOS :: u64 where "MAX_SUPPLY_ARKOS = 31415926"
definition MAX_SUPPLY_ARKES :: u64 where "MAX_SUPPLY_ARKES = MAX_SUPPLY_ARKOS * ARKES_PER_ARKOS"

record block_header =
  hdr_version :: u32
  prev_hash :: string
  hdr_merkle_root :: string
  timestamp :: u64
  bits :: u32
  nonce :: u64

record block =
  header :: block_header
  transactions :: "transaction list"
  height :: u64

record block_lib = tx_lib +
  lib_block_size :: "block \<Rightarrow> u64 option"

datatype header_err = HeaderPrevHash | HeaderBits u32 u32 | HeaderTarget

datatype block_err =
    PrevHashMismatch
  | TargetNotMet
  | NoTransactions
  | TooManyTransactions nat
  | BlockTooLarge nat
  | TooManyUtxoOps nat
  | FirstNotCoinbase
  | MerkleMismatch

section \<open>Headers and targets\<close>

text \<open>
  \<open>decode_to_slice\<close> succeeds when the text decodes to exactly 32 bytes. When it fails, the
  output buffer is either untouched or (64 characters, one of them no digit) overwritten by
  the copy that follows.
\<close>

definition hex_32_or_bytes :: "'x hash_lib_scheme \<Rightarrow> string \<Rightarrow> bytes" where
  "hex_32_or_bytes X s =
     (let fallback = (let bs = as_bytes s; len = min (length bs) 32
                      in take len bs @ replicate (32 - len) 0) in
      case lib_hex_decode X s of
        Some out \<Rightarrow> if length out = 32 then out else fallback
      | None \<Rightarrow> fallback)"

definition pow_bytes :: "'x hash_lib_scheme \<Rightarrow> block_header \<Rightarrow> bytes" where
  "pow_bytes X h =
     u32_le (hdr_version h) @ hex_32_or_bytes X (prev_hash h)
     @ hex_32_or_bytes X (hdr_merkle_root h) @ u64_le (timestamp h) @ u32_le (bits h)
     @ u64_le (nonce h) @ [0]"

definition header_hash :: "'x hash_lib_scheme \<Rightarrow> block_header \<Rightarrow> bytes" where
  "header_hash X h = hash256 X (pow_bytes X h)"

definition header_hash_hex :: "'x hash_lib_scheme \<Rightarrow> block_header \<Rightarrow> string" where
  "header_hash_hex X h = hash_to_hex X (header_hash X h)"

definition bits_to_target :: "u32 \<Rightarrow> bytes" where
  "bits_to_target b =
     (let exp = unat (drop_bit 24 b);
          mantissa = b AND 0x00ffffff;
          target = replicate 32 0
      in if 1 \<le> exp \<and> exp \<le> 32 then
           let start = 32 - exp;
               t0 = target[start := ucast (drop_bit 16 mantissa AND 0xff)];
               t1 = (if start + 1 < 32
                     then t0[start + 1 := ucast (drop_bit 8 mantissa AND 0xff)] else t0);
               t2 = (if start + 2 < 32 then t1[start + 2 := ucast (mantissa AND 0xff)] else t1)
           in t2
         else target)"

fun hash_le_target :: "bytes \<Rightarrow> bytes \<Rightarrow> bool" where
  "hash_le_target (h # hs) (t # ts) =
     (if h < t then True else if t < h then False else hash_le_target hs ts)"
| "hash_le_target _ _ = True"

definition meets_target :: "'x hash_lib_scheme \<Rightarrow> block_header \<Rightarrow> bool" where
  "meets_target X h = hash_le_target (header_hash X h) (bits_to_target (bits h))"

definition validate_header_only ::
  "'x hash_lib_scheme \<Rightarrow> block_header \<Rightarrow> string \<Rightarrow> u32 option \<Rightarrow> header_err + unit" where
  "validate_header_only X h prev expected_bits =
     (if prev_hash h \<noteq> prev then Inl HeaderPrevHash
      else try_res
        (case expected_bits of
           Some b \<Rightarrow> if bits h \<noteq> b then Inl (HeaderBits (bits h) b) else Inr ()
         | None \<Rightarrow> Inr ())
        (\<lambda>_. if \<not> meets_target X h then Inl HeaderTarget else Inr ()))"

section \<open>Rewards, Merkle roots and blocks\<close>

definition block_hash :: "'x hash_lib_scheme \<Rightarrow> block \<Rightarrow> bytes" where
  "block_hash X b = header_hash X (header b)"

definition hash_hex :: "'x hash_lib_scheme \<Rightarrow> block \<Rightarrow> string" where
  "hash_hex X b = header_hash_hex X (header b)"

definition block_reward :: "u64 \<Rightarrow> u64" where
  "block_reward h =
     (let halvings = h div HALVING_INTERVAL in
      if 64 \<le> halvings then 0 else drop_bit (unat halvings) BLOCK_REWARD_INITIAL)"

definition pad_level :: "'x hash_lib_scheme \<Rightarrow> bytes list \<Rightarrow> bytes list" where
  "pad_level X hashes =
     (if length hashes mod 2 \<noteq> 0
      then hashes @ [hash256 X (u64_le (word_of_nat (length hashes)))] else hashes)"

fun pair_level :: "'x hash_lib_scheme \<Rightarrow> bytes list \<Rightarrow> bytes list" where
  "pair_level X (a # b # hs) = hash256 X (a @ b) # pair_level X hs"
| "pair_level X _ = []"

definition merkle_step :: "'x hash_lib_scheme \<Rightarrow> bytes list \<Rightarrow> bytes list" where
  "merkle_step X hashes = pair_level X (pad_level X hashes)"

lemma length_pair_level: "length (pair_level X hs) = length hs div 2"
  by (induction X hs rule: pair_level.induct) auto

lemma length_merkle_step: "length (merkle_step X hs) = Suc (length hs) div 2"
  by (auto simp: merkle_step_def length_pair_level pad_level_def)

function merkle_loop :: "'x hash_lib_scheme \<Rightarrow> bytes list \<Rightarrow> bytes" where
  "merkle_loop X hashes =
     (if 1 < length hashes then merkle_loop X (merkle_step X hashes) else hashes ! 0)"
  by pat_completeness auto
termination
  by (relation "measure (\<lambda>(X, hashes). length hashes)") (auto simp: length_merkle_step)

declare merkle_loop.simps [simp del]

definition merkle_root :: "'x tx_lib_scheme \<Rightarrow> transaction list \<Rightarrow> string" where
  "merkle_root X txs =
     (if txs = [] then zero_hash else hash_to_hex X (merkle_loop X (map (txid X) txs)))"

definition block_bytes :: "'x block_lib_scheme \<Rightarrow> block \<Rightarrow> nat" where
  "block_bytes X b = unat (case lib_block_size X b of None \<Rightarrow> - 1 | Some n \<Rightarrow> n)"

definition block_utxo_ops :: "block \<Rightarrow> nat" where
  "block_utxo_ops b =
     sum_list (map (\<lambda>tx. length (inputs tx) + length (outputs tx)) (transactions b))"

definition block_validate :: "'x block_lib_scheme \<Rightarrow> block \<Rightarrow> string \<Rightarrow> block_err + unit" where
  "block_validate X b prev =
     (if prev_hash (header b) \<noteq> prev then Inl PrevHashMismatch
      else if \<not> meets_target X (header b) then Inl TargetNotMet
      else if transactions b = [] then Inl NoTransactions
      else if MAX_BLOCK_TRANSACTIONS < length (transactions b)
      then Inl (TooManyTransactions (length (transactions b)))
      else if MAX_BLOCK_BYTES < block_bytes X b then Inl (BlockTooLarge (block_bytes X b))
      else if MAX_BLOCK_UTXO_OPS < block_utxo_ops b then Inl (TooManyUtxoOps (block_utxo_ops b))
      else if \<not> is_coinbase (hd (transactions b)) then Inl FirstNotCoinbase
      else if merkle_root X (transactions b) \<noteq> hdr_merkle_root (header b) then Inl MerkleMismatch
      else Inr ())"

section \<open>Mining\<close>

definition next_candidate :: "block_header \<Rightarrow> block_header" where
  "next_candidate h =
     (let n = nonce h + 1; h1 = h\<lparr>nonce := n\<rparr> in
      if n = 0 then h1\<lparr>timestamp := timestamp h1 + 1\<rparr> else h1)"

partial_function (option) mine_block_header ::
  "'x hash_lib_scheme \<Rightarrow> block_header \<Rightarrow> block_header option" where
  "mine_block_header X h =
     (if meets_target X h then Some h else mine_block_header X (next_candidate h))"

definition MAINNET_GENESIS_BITS :: u32 where "MAINNET_GENESIS_BITS = 0x1d00ffff"
definition TESTNET_GENESIS_BITS :: u32 where "TESTNET_GENESIS_BITS = 0x1e0fffff"
definition REGTEST_GENESIS_BITS :: u32 where "REGTEST_GENESIS_BITS = 0x207fffff"

definition genesis_block_with_bits :: "'x tx_lib_scheme \<Rightarrow> u32 \<Rightarrow> block option" where
  "genesis_block_with_bits X b =
     (let txs = [coinbase (replicate 40 (CHR ''0'')) (block_reward 0) 0];
          h = \<lparr>hdr_version = 1, prev_hash = zero_hash, hdr_merkle_root = merkle_root X txs,
               timestamp = 1700000000, bits = b, nonce = 0\<rparr>
      in case mine_block_header X h of
           None \<Rightarrow> None
         | Some h' \<Rightarrow> Some \<lparr>header = h', transactions = txs, height = 0\<rparr>)"

definition genesis_block :: "'x tx_lib_scheme \<Rightarrow> block option" where
  "genesis_block X = genesis_block_with_bits X REGTEST_GENESIS_BITS"

definition genesis_block_testnet :: "'x tx_lib_scheme \<Rightarrow> block option" where
  "genesis_block_testnet X = genesis_block_with_bits X TESTNET_GENESIS_BITS"

definition genesis_block_mainnet :: "'x tx_lib_scheme \<Rightarrow> block option" where
  "genesis_block_mainnet X = genesis_block_with_bits X MAINNET_GENESIS_BITS"

section \<open>Targets as numbers\<close>

lemma hash_le_target_nat:
  "length hs = length ts \<Longrightarrow> hash_le_target hs ts \<longleftrightarrow> be_nat hs \<le> be_nat ts"
proof (induction hs ts rule: list_induct2)
  case Nil
  then show ?case by simp
next
  case (Cons h hs t ts)
  have bh: "be_nat hs < 256 ^ length ts" and bt: "be_nat ts < 256 ^ length ts"
    using be_nat_bound [of hs] be_nat_bound [of ts] Cons.hyps by simp_all
  consider "unat h < unat t" | "unat t < unat h" | "h = t"
    by (metis linorder_neqE_nat unat_inject)
  then show ?case
  proof cases
    case 1
    then have "unat h * 256 ^ length ts + 256 ^ length ts \<le> unat t * 256 ^ length ts"
      by (metis Suc_leI add.commute mult_Suc mult_le_mono1)
    with 1 bh show ?thesis
      by (simp add: be_nat_Cons Cons.hyps word_less_nat_alt)
  next
    case 2
    then have "unat t * 256 ^ length ts + 256 ^ length ts \<le> unat h * 256 ^ length ts"
      by (metis Suc_leI add.commute mult_Suc mult_le_mono1)
    with 2 bt show ?thesis
      by (simp add: be_nat_Cons Cons.hyps word_less_nat_alt)
  next
    case 3
    with Cons show ?thesis by (simp add: be_nat_Cons)
  qed
qed

lemma length_bits_to_target [simp]: "length (bits_to_target b) = 32"
  by (simp add: bits_to_target_def Let_def)

lemma be_nat_update:
  "i < length bs \<Longrightarrow> bs ! i = 0 \<Longrightarrow>
     be_nat (bs[i := v]) = be_nat bs + unat v * 256 ^ (length bs - Suc i)"
proof (induction bs arbitrary: i)
  case (Cons b bs)
  then show ?case by (cases i) (simp_all add: be_nat_Cons)
qed simp

lemma mantissa_byte:
  "unat (ucast (drop_bit k (b AND 0x00ffffff) AND 0xff :: u32) :: u8) =
     bits_mantissa b div 2 ^ k mod 256"
proof -
  have "(drop_bit k (b AND 0x00ffffff) AND 0xff :: u32) = take_bit 8 (drop_bit k (b AND 0x00ffffff))"
    by (simp add: take_bit_eq_mask mask_eq_exp_minus_1)
  moreover have "unat (take_bit 8 (drop_bit k (b AND 0x00ffffff)) :: u32) =
      bits_mantissa b div 2 ^ k mod 256"
    unfolding bits_mantissa_def unsigned_take_bit_eq [of 8] unsigned_drop_bit_eq
    using unsigned_less [of "b AND 0x00ffffff", where ?'a = nat]
    by (simp add: take_bit_eq_mod drop_bit_eq_div)
  ultimately show ?thesis
    by (simp add: unsigned_ucast_eq take_bit_eq_mod)
qed


lemma target_two_bytes: "(m :: nat) < 2 ^ 24 \<Longrightarrow>
    m div 2 ^ 16 mod 256 * 256 + m div 2 ^ 8 mod 256 = m div 256"
proof -
  assume "m < 2 ^ 24"
  then have "m div 2 ^ 16 mod 256 = m div 256 div 256" by (simp add: div_mult2_eq [symmetric])
  then show ?thesis using div_mult_mod_eq [of "m div 256" 256] by simp
qed

lemma byte_sum:
  assumes "(m :: nat) < 2 ^ 24"
  shows "m div 2 ^ 16 mod 256 * 256 ^ 2 + m div 2 ^ 8 mod 256 * 256 + m mod 256 = m"
proof -
  have "m div 2 ^ 16 mod 256 * 256 ^ 2 + m div 2 ^ 8 mod 256 * 256 =
      (m div 2 ^ 16 mod 256 * 256 + m div 2 ^ 8 mod 256) * 256"
    by (simp add: power2_eq_square algebra_simps)
  also have "\<dots> = m div 256 * 256" by (simp only: target_two_bytes [OF assms])
  finally show ?thesis by (simp only: div_mult_mod_eq)
qed

text \<open>The byte of the target that comes from the mantissa shifted right by \<open>k\<close> bits.\<close>

definition mantissa_u8 :: "u32 \<Rightarrow> nat \<Rightarrow> u8" where
  "mantissa_u8 b k = ucast (drop_bit k (b AND 0x00ffffff) AND 0xff :: u32)"

lemma unat_mantissa_u8: "unat (mantissa_u8 b k) = bits_mantissa b div 2 ^ k mod 256"
  unfolding mantissa_u8_def by (rule mantissa_byte)

lemma target_three_bytes:
  assumes "bits_exp b = k + 3" "k \<le> 29"
  shows "be_nat (bits_to_target b) = bits_mantissa b * 256 ^ k"
proof -
  let ?m = "bits_mantissa b" and ?u = "mantissa_u8 b"
  have idx: "32 - (k + 3) = 29 - k" "29 - k + 1 = 30 - k" "29 - k + 2 = 31 - k" "30 - k < 32" "31 - k < 32"
    using assms(2) by simp_all
  have "be_nat (bits_to_target b) = be_nat ((replicate 32 0)[29 - k := ?u 16, 30 - k := ?u 8, 31 - k := ?u 0])"
    unfolding bits_to_target_def Let_def bits_exp_def [symmetric] assms(1) idx mantissa_u8_def
    using assms(2) idx(4,5) by simp
  also have "\<dots> = ?m div 2 ^ 16 mod 256 * 256 ^ (k + 2)
      + ?m div 2 ^ 8 mod 256 * 256 ^ (k + 1) + ?m div 2 ^ 0 mod 256 * 256 ^ k"
    using assms(2) by (simp add: be_nat_update unat_mantissa_u8)
  also have "\<dots> = (?m div 2 ^ 16 mod 256 * 256 ^ 2 + ?m div 2 ^ 8 mod 256 * 256 + ?m mod 256) * 256 ^ k"
    by (simp add: power_add algebra_simps)
  also have "\<dots> = ?m * 256 ^ k" by (simp only: byte_sum [OF bits_mantissa_bound])
  finally show ?thesis .
qed

lemma bits_to_target_value:
  "be_nat (bits_to_target b) =
     (if 1 \<le> bits_exp b \<and> bits_exp b \<le> 32
      then bits_mantissa b * 256 ^ bits_exp b div 256 ^ 3 else 0)"
proof (cases "1 \<le> bits_exp b \<and> bits_exp b \<le> 32")
  case False
  show ?thesis
    unfolding bits_to_target_def Let_def bits_exp_def [symmetric] if_not_P [OF False]
    by (rule be_nat_replicate0)
next
  case True
  let ?e = "bits_exp b" and ?m = "bits_mantissa b"
  have m: "?m < 2 ^ 24" by (rule bits_mantissa_bound)
  have "?e = 1 \<or> ?e = 2 \<or> ?e = (?e - 3) + 3 \<and> ?e - 3 \<le> 29" using True by arith
  then consider "?e = 1" | "?e = 2" | k where "?e = k + 3" "k \<le> 29" by blast
  then show ?thesis
  proof cases
    case 1
    then have "bits_to_target b = (replicate 32 0)[31 := mantissa_u8 b 16]"
      by (simp add: bits_to_target_def Let_def bits_exp_def [symmetric] mantissa_u8_def)
    then have "be_nat (bits_to_target b) = ?m div 2 ^ 16 mod 256"
      by (simp add: be_nat_update unat_mantissa_u8)
    with 1 m show ?thesis by simp
  next
    case 2
    then have "bits_to_target b = (replicate 32 0)[30 := mantissa_u8 b 16, 31 := mantissa_u8 b 8]"
      by (simp add: bits_to_target_def Let_def bits_exp_def [symmetric] mantissa_u8_def)
    then have "be_nat (bits_to_target b) = ?m div 2 ^ 16 mod 256 * 256 + ?m div 2 ^ 8 mod 256"
      by (simp add: be_nat_update unat_mantissa_u8)
    with 2 show ?thesis unfolding target_two_bytes [OF m] by simp
  next
    case 3
    then show ?thesis using target_three_bytes [OF 3] by (simp add: power_add)
  qed
qed


section \<open>The search of the miner\<close>

lemma mine_iterates:
  assumes "mine_block_header X h = Some h'"
  shows "\<exists>k. h' = (next_candidate ^^ k) h \<and> meets_target X h'
       \<and> (\<forall>j<k. \<not> meets_target X ((next_candidate ^^ j) h))"
proof -
  let ?first = "\<lambda>X h h'. \<exists>k. h' = (next_candidate ^^ k) h \<and> meets_target X h'
      \<and> (\<forall>j<k. \<not> meets_target X ((next_candidate ^^ j) h))"
  show ?thesis
  proof (rule mine_block_header.raw_induct [of ?first, OF _ assms])
    fix mine X h h'
    assume IH: "\<And>X h h'. mine X h = Some h' \<Longrightarrow> ?first X h h'"
      and step: "(if meets_target X h then Some h else mine X (next_candidate h)) = Some h'"
    show "?first X h h'"
    proof (cases "meets_target X h")
      case True
      with step show ?thesis by (intro exI [of _ 0]) simp
    next
      case False
      with step have "?first X (next_candidate h) h'" by (intro IH) simp
      then obtain k where k: "h' = (next_candidate ^^ k) (next_candidate h)"
        "meets_target X h'" "\<forall>j<k. \<not> meets_target X ((next_candidate ^^ j) (next_candidate h))"
        by blast
      have "\<not> meets_target X ((next_candidate ^^ j) h)" if "j < Suc k" for j
        using that False k(3) by (cases j) (simp_all add: funpow_swap1)
      with k(1,2) show ?thesis
        by (intro exI [of _ "Suc k"]) (simp add: funpow_swap1)
    qed
  qed
qed

lemma mine_returns:
  "meets_target X ((next_candidate ^^ k) h) \<Longrightarrow> \<exists>h'. mine_block_header X h = Some h'"
proof (induction k arbitrary: h)
  case 0
  then show ?case by (simp add: mine_block_header.simps)
next
  case (Suc k)
  then have "\<exists>h'. mine_block_header X (next_candidate h) = Some h'"
    by (simp add: funpow_swap1)
  then show ?case by (subst mine_block_header.simps) simp
qed

text \<open>The fields that the search leaves alone.\<close>

lemma next_candidate_fields [simp]:
  "hdr_version (next_candidate h) = hdr_version h" "prev_hash (next_candidate h) = prev_hash h"
  "hdr_merkle_root (next_candidate h) = hdr_merkle_root h" "bits (next_candidate h) = bits h"
  by (simp_all add: next_candidate_def Let_def)

lemma iterate_fields [simp]:
  "hdr_version ((next_candidate ^^ k) h) = hdr_version h"
  "prev_hash ((next_candidate ^^ k) h) = prev_hash h"
  "hdr_merkle_root ((next_candidate ^^ k) h) = hdr_merkle_root h"
  "bits ((next_candidate ^^ k) h) = bits h"
  by (induction k) simp_all

text \<open>Nonce and timestamp of the \<open>k\<close>-th candidate: together a counter of 128 bits.\<close>

lemma nonce_next: "nonce (next_candidate h) = nonce h + 1"
  by (simp add: next_candidate_def Let_def)

lemma iterate_nonce: "nonce ((next_candidate ^^ k) h) = nonce h + word_of_nat k"
  by (induction k) (simp_all add: nonce_next)

lemma iterate_counter:
  assumes "unat (nonce h) + k < 2 ^ 64"
  shows "(next_candidate ^^ k) h = h\<lparr>nonce := nonce h + word_of_nat k\<rparr>"
  using assms
proof (induction k)
  case (Suc k)
  have "nonce h + word_of_nat k + 1 \<noteq> 0"
  proof
    assume "nonce h + word_of_nat k + 1 = 0"
    then have "unat (nonce h + word_of_nat (k + 1)) = 0" by (simp add: ac_simps)
    moreover have "unat (nonce h + word_of_nat (k + 1)) = unat (nonce h) + (k + 1)"
      using Suc.prems by (simp add: unat_word_ariths unat_of_nat)
    ultimately show False by simp
  qed
  with Suc show ?case
    by (simp add: next_candidate_def Let_def ac_simps)
qed simp

lemma mined_fields:
  assumes "mine_block_header X h = Some h'"
  shows "meets_target X h'" "hdr_version h' = hdr_version h" "prev_hash h' = prev_hash h"
    "hdr_merkle_root h' = hdr_merkle_root h" "bits h' = bits h"
  using mine_iterates [OF assms] by auto

section \<open>The reward schedule\<close>

lemma unat_block_reward: "unat (block_reward h) = 32188184932 div 2 ^ (unat h div 488004)"
proof (cases "64 \<le> unat h div 488004")
  case True
  then have "(2 :: nat) ^ 64 \<le> 2 ^ (unat h div 488004)" by (intro power_increasing) simp_all
  then have "(32188184932 :: nat) div 2 ^ (unat h div 488004) = 0" by (intro div_less) simp
  moreover have "64 \<le> h div HALVING_INTERVAL"
    using True by (simp add: HALVING_INTERVAL_def word_le_nat_alt unat_div)
  ultimately show ?thesis by (simp add: block_reward_def Let_def)
next
  case False
  then have "\<not> 64 \<le> h div HALVING_INTERVAL"
    by (simp add: HALVING_INTERVAL_def word_le_nat_alt unat_div)
  moreover have "unat (drop_bit n (32188184932 :: u64)) = 32188184932 div 2 ^ n" for n
    unfolding unsigned_drop_bit_eq by (simp add: drop_bit_eq_div take_bit_eq_mod)
  ultimately show ?thesis
    by (simp add: block_reward_def Let_def HALVING_INTERVAL_def BLOCK_REWARD_INITIAL_def unat_div)
qed

lemma halving_sum: "(\<Sum>k<n. R div 2 ^ k) + 2 * (R div 2 ^ n) \<le> 2 * (R :: nat)"
proof (induction n)
  case (Suc n)
  have "2 * (R div 2 ^ Suc n) \<le> R div 2 ^ n"
    by (simp only: power_Suc2 div_mult2_eq)
  with Suc show ?case by simp
qed simp

lemma era_sum: "(\<Sum>h<n * H. f (h div H)) = H * (\<Sum>k<n. (f k :: nat))" if "0 < H"
proof (induction n)
  case (Suc n)
  have "(\<Sum>h<Suc n * H. f (h div H)) =
      (\<Sum>h<n * H. f (h div H)) + (\<Sum>h\<in>{n * H..<n * H + H}. f (h div H))"
    by (simp add: lessThan_atLeast0 sum.atLeastLessThan_concat add.commute)
  also have "(\<Sum>h\<in>{n * H..<n * H + H}. f (h div H)) = (\<Sum>h\<in>{n * H..<n * H + H}. f n)"
  proof (rule sum.cong [OF refl])
    fix h assume "h \<in> {n * H..<n * H + H}"
    then have "h div H = n" by (intro div_nat_eqI) (auto simp: algebra_simps)
    then show "f (h div H) = f n" by simp
  qed
  finally show ?case using Suc by (simp add: algebra_simps)
qed simp

lemma schedule_bound: "(\<Sum>h<n. 32188184932 div 2 ^ (h div 488004)) \<le> (31415926 * 10 ^ 9 :: nat)"
proof -
  let ?f = "\<lambda>k. 32188184932 div 2 ^ k :: nat"
  have "(\<Sum>h<n. ?f (h div 488004)) \<le> (\<Sum>h<n * 488004. ?f (h div 488004))"
    by (intro sum_mono2) auto
  also have "\<dots> = 488004 * (\<Sum>k<n. ?f k)" by (rule era_sum) simp
  also have "\<dots> \<le> 488004 * (2 * 32188184932)"
    using halving_sum [of 32188184932 n] by (intro mult_le_mono2) linarith
  finally show ?thesis by simp
qed

section \<open>Properties\<close>

definition demo_block_lib :: block_lib where
  "demo_block_lib = tx_lib.extend demo_tx_lib \<lparr>lib_block_size = (\<lambda>b. Some 1000)\<rparr>"

lemmas demo_block_lib_defs = demo_block_lib_def tx_lib.defs demo_tx_lib_defs

lemma demo_block_lib_ok: "sha_ok demo_block_lib" "hex_ok demo_block_lib" "sign_ok demo_block_lib"
  by (simp_all add: sha_ok_def hex_ok_def sign_ok_def demo_block_lib_defs demo_hex_roundtrip
      demo_hex_shape)

text \<open>The checksum keeps the first bytes, so a header of version 1 meets the regtest target.\<close>

lemma demo_sha_Cons: "\<exists>r. demo_sha (x # d) = x # r \<and> length r = 31"
  by (simp add: demo_sha_def)

lemma sha_demo_meets:
  assumes "lib_sha256 X = demo_sha" "hdr_version h = 1" "bits h = 0x207fffff"
  shows "meets_target X h"
proof -
  have "u32_le 1 = [1, 0, 0, 0]" by (simp add: u32_le_def nat_le_numeral)
  then obtain p where p: "pow_bytes X h = 1 # p" using assms(2) by (simp add: pow_bytes_def)
  obtain q where "demo_sha (1 # p) = 1 # q" using demo_sha_Cons by blast
  moreover obtain r where r: "demo_sha (1 # q) = 1 # r" "length r = 31" using demo_sha_Cons by blast
  ultimately have hh: "header_hash X h = 1 # r"
    by (simp add: header_hash_def hash256_def assms(1) p)
  have "be_nat (1 # r) < 2 * 256 ^ 31"
    using be_nat_bound [of r] r(2) by (simp add: be_nat_Cons)
  also have "\<dots> \<le> be_nat (bits_to_target (bits h))"
    unfolding bits_to_target_value assms(3) by (simp add: bits_exp_div bits_mantissa_mod)
  finally show ?thesis
    using r(2) hash_le_target_nat [of "1 # r" "bits_to_target (bits h)"]
    by (simp add: meets_target_def hh)
qed

text \<open>C27: a header meets its target exactly when its hash, read as a big-endian number, is at most
  mantissa times 256 to the exponent minus 3 (rounded down), and at most zero when the exponent
  is 0 or above 32.\<close>

theorem meets_target_numeric:
  assumes "sha_ok X"
  shows "meets_target X h \<longleftrightarrow> be_nat (header_hash X h) \<le>
    (if 1 \<le> bits_exp (bits h) \<and> bits_exp (bits h) \<le> 32
     then bits_mantissa (bits h) * 256 ^ bits_exp (bits h) div 256 ^ 3 else 0)"
  unfolding meets_target_def bits_to_target_value [symmetric]
  using assms by (intro hash_le_target_nat) (simp add: header_hash_def length_hash256)

lemma zero_hash_hex: "zero_hash = demo_hex_encode (replicate 32 0)"
proof -
  have "demo_hex_encode (replicate n 0) = replicate (2 * n) (CHR ''0'')" for n
    by (induction n) (simp_all add: hex_chars_def)
  then show ?thesis by (simp add: zero_hash_def)
qed

definition demo_header :: block_header where
  "demo_header = \<lparr>hdr_version = 1, prev_hash = zero_hash, hdr_merkle_root = zero_hash,
     timestamp = 1700000000, bits = 0x207fffff, nonce = 0\<rparr>"

theorem meets_target_numeric_witness:
  "meets_target demo_block_lib demo_header
   \<and> be_nat (header_hash demo_block_lib demo_header) \<le> 0x7fffff * 256 ^ 32 div 256 ^ 3"
proof -
  have "meets_target demo_block_lib demo_header"
    by (rule sha_demo_meets) (simp_all add: demo_block_lib_defs demo_header_def)
  with meets_target_numeric [OF demo_block_lib_ok(1), of demo_header] show ?thesis
    by (simp add: demo_header_def bits_exp_div bits_mantissa_mod)
qed

text \<open>C13: the miner returns exactly when some candidate of its search meets the target, and then it
  returns the first one; the search leaves version, parent, Merkle root and bits alone.\<close>

theorem miner_finds_first:
  "(mine_block_header X h = Some h' \<longleftrightarrow>
      (\<exists>k. h' = (next_candidate ^^ k) h \<and> meets_target X h'
         \<and> (\<forall>j<k. \<not> meets_target X ((next_candidate ^^ j) h))))
   \<and> hdr_version ((next_candidate ^^ k) h) = hdr_version h
   \<and> prev_hash ((next_candidate ^^ k) h) = prev_hash h
   \<and> hdr_merkle_root ((next_candidate ^^ k) h) = hdr_merkle_root h
   \<and> bits ((next_candidate ^^ k) h) = bits h"
proof -
  have "mine_block_header X h = Some h'"
    if k: "h' = (next_candidate ^^ k) h" "meets_target X h'"
      "\<forall>j<k. \<not> meets_target X ((next_candidate ^^ j) h)" for k
  proof -
    obtain h'' where h'': "mine_block_header X h = Some h''"
      using mine_returns [of X k h] k by auto
    then obtain k' where k': "h'' = (next_candidate ^^ k') h" "meets_target X h''"
      "\<forall>j<k'. \<not> meets_target X ((next_candidate ^^ j) h)" using mine_iterates by blast
    have "k' = k" using k k' by (metis linorder_neqE_nat)
    with k k' h'' show ?thesis by simp
  qed
  then show ?thesis using mine_iterates [of X h h'] by auto
qed

theorem miner_finds_first_witness:
  "mine_block_header demo_block_lib demo_header = Some demo_header"
proof -
  have "meets_target demo_block_lib demo_header"
    by (rule sha_demo_meets) (simp_all add: demo_block_lib_defs demo_header_def)
  then have "\<exists>k. demo_header = (next_candidate ^^ k) demo_header \<and> meets_target demo_block_lib demo_header
      \<and> (\<forall>j<k. \<not> meets_target demo_block_lib ((next_candidate ^^ j) demo_header))"
    by (intro exI [of _ 0]) simp
  then show ?thesis
    using miner_finds_first [of demo_block_lib demo_header demo_header] by blast
qed

text \<open>Over every stretch of heights from the genesis block on, the scheduled rewards add up to at
  most the advertised cap of 31,415,926 ARKOS.\<close>

theorem scheduled_rewards_within_cap:
  assumes "n \<le> 2 ^ 64"
  shows "(\<Sum>h<n. unat (block_reward (word_of_nat h))) \<le> unat MAX_SUPPLY_ARKES"
proof -
  have "(\<Sum>h<n. unat (block_reward (word_of_nat h))) = (\<Sum>h<n. 32188184932 div 2 ^ (h div 488004))"
    using assms by (intro sum.cong) (auto simp: unat_block_reward unat_of_nat)
  also have "\<dots> \<le> 31415926 * 10 ^ 9" by (rule schedule_bound)
  also have "\<dots> = unat MAX_SUPPLY_ARKES"
    by (simp add: MAX_SUPPLY_ARKES_def MAX_SUPPLY_ARKOS_def ARKES_PER_ARKOS_def)
  finally show ?thesis .
qed

theorem scheduled_rewards_within_cap_witness:
  "(\<Sum>h<40000000. unat (block_reward (word_of_nat h))) \<le> unat MAX_SUPPLY_ARKES"
  by (rule scheduled_rewards_within_cap) simp

lemma genesis_shape:
  assumes "genesis_block_with_bits X b = Some g"
  shows "height g = 0" "prev_hash (header g) = zero_hash" "meets_target X (header g)"
    "transactions g = [coinbase (replicate 40 (CHR ''0'')) (block_reward 0) 0]"
    "hdr_merkle_root (header g) = merkle_root X (transactions g)" "bits (header g) = b"
  using assms by (auto simp: genesis_block_with_bits_def Let_def dest: mined_fields split: option.splits)

text \<open>A genesis block, once mined, passes the structural validation of a block on the all-zero
  parent hash (its serialised size being within the limit).\<close>

theorem genesis_validates:
  assumes "genesis_block_with_bits X b = Some g" "lib_block_size X g = Some n" "unat n \<le> MAX_BLOCK_BYTES"
  shows "block_validate X g zero_hash = Inr ()"
  using assms(2,3) genesis_shape [OF assms(1)]
  by (simp add: block_validate_def block_bytes_def block_utxo_ops_def MAX_BLOCK_TRANSACTIONS_def
      MAX_BLOCK_UTXO_OPS_def) (simp add: coinbase_def)

lemma demo_genesis:
  "\<exists>g. genesis_block_with_bits demo_block_lib REGTEST_GENESIS_BITS = Some g"
proof -
  define h where "h = \<lparr>hdr_version = 1, prev_hash = zero_hash,
      hdr_merkle_root = merkle_root demo_block_lib [coinbase (replicate 40 (CHR ''0'')) (block_reward 0) 0],
      timestamp = 1700000000, bits = REGTEST_GENESIS_BITS, nonce = 0\<rparr>"
  have "meets_target demo_block_lib h"
    by (rule sha_demo_meets) (simp_all add: demo_block_lib_defs h_def REGTEST_GENESIS_BITS_def)
  then have "mine_block_header demo_block_lib h = Some h" by (simp add: mine_block_header.simps)
  then show ?thesis by (simp add: genesis_block_with_bits_def Let_def h_def)
qed

theorem genesis_validates_witness:
  "\<exists>g. genesis_block_with_bits demo_block_lib REGTEST_GENESIS_BITS = Some g
     \<and> block_validate demo_block_lib g zero_hash = Inr ()"
proof -
  obtain g where g: "genesis_block_with_bits demo_block_lib REGTEST_GENESIS_BITS = Some g"
    using demo_genesis by blast
  have "lib_block_size demo_block_lib g = Some 1000" "unat (1000 :: u64) \<le> MAX_BLOCK_BYTES"
    by (simp_all add: demo_block_lib_defs MAX_BLOCK_BYTES_def)
  from g genesis_validates [OF g this] show ?thesis by blast
qed

end
