(* ===== verification/Tx_Validation.thy ===== *)
theory Tx_Validation
  imports Utxo Mempool Blocks
begin

text \<open>
  Script evaluation and transaction validation: \<open>evaluate_script\<close>, \<open>validate_tx_with_utxo\<close>
  and \<open>coinbase_value\<close> of \<open>src/blockchain/chain.rs\<close>. The lemmas characterise acceptance:
  when each script form is satisfied, and that a transaction is accepted with a fee exactly
  when every input is mature, known and unlocked, no output is dust, and inputs cover outputs,
  the fee being the difference. Accepted transactions with distinct inputs never create
  value; the code does not require the inputs to be distinct.
\<close>

section \<open>Definitions\<close>

datatype script_err =
    BadEcdsaPubkey
  | P2pkhSignature crypto_err
  | P2pkhAddress
  | P2msSigners u8 nat
  | P2msSignatures u8 u8
  | CltvLocked u64 u64

datatype tx_err =
    ImmatureCoinbase string u32
  | UtxoNotFound string u32
  | InputSumOverflow
  | ScriptFailed string u32 script_err
  | DustOutput u64
  | OutputSumOverflow
  | OutputsExceedInputs

text \<open>One pass of the labelled loop of the P2MS case: some listed key equals the signer's key
  and the signature verifies.\<close>

definition signer_counts ::
  "'x sig_lib_scheme \<Rightarrow> hybrid_public_key list \<Rightarrow> bytes \<Rightarrow> hybrid_signature \<times> hybrid_public_key \<Rightarrow> bool"
where
  "signer_counts X pubkeys sighash = (\<lambda>(sg, pk).
     list_ex (\<lambda>allowed_pk. ecdsa_pubkey allowed_pk = ecdsa_pubkey pk
        \<and> dilithium_pubkey allowed_pk = dilithium_pubkey pk
        \<and> is_ok (hybrid_verify X sg sighash pk)) pubkeys)"

fun evaluate_script ::
  "'x sig_lib_scheme \<Rightarrow> script \<Rightarrow> tx_input \<Rightarrow> bytes \<Rightarrow> u64 \<Rightarrow> script_err + unit" where
  "evaluate_script X (P2PKH address) i sighash block_time =
     try_res (ok_or BadEcdsaPubkey (lib_secp_pk X (ecdsa_pubkey (input_pubkey i)))) (\<lambda>pubkey.
     try_res (map_err P2pkhSignature (hybrid_verify X (input_signature i) sighash (input_pubkey i)))
       (\<lambda>_.
     let derived_addr = lib_hex_encode X
           (hybrid_pubkey_to_address X pubkey (dilithium_pubkey (input_pubkey i)))
     in if derived_addr \<noteq> address then Inl P2pkhAddress else Inr ()))"
| "evaluate_script X (P2MS m pubkeys) i sighash block_time =
     (let signers = take (unat m) ((input_signature i, input_pubkey i) # witnesses i) in
      if length signers < unat m then Inl (P2msSigners m (length signers))
      else let valid_count =
             fold (\<lambda>s c. if signer_counts X pubkeys sighash s then c + 1 else c) signers 0
           in if valid_count < m then Inl (P2msSignatures valid_count m) else Inr ())"
| "evaluate_script X (TimeLocked lock_until inner) i sighash block_time =
     (if block_time < lock_until then Inl (CltvLocked lock_until block_time)
      else evaluate_script X inner i sighash block_time)"

fun check_inputs ::
  "'x sig_lib_scheme \<Rightarrow> utxo_set \<Rightarrow> bytes \<Rightarrow> u64 \<Rightarrow> u64 \<Rightarrow> u64 \<Rightarrow> tx_input list \<Rightarrow> tx_err + u64"
where
  "check_inputs X us sighash current_height block_time input_sum [] = Inr input_sum"
| "check_inputs X us sighash current_height block_time input_sum (i # is) =
     (if is_immature_coinbase us (prev_tx_hash i) current_height
      then Inl (ImmatureCoinbase (prev_tx_hash i) (prev_index i))
      else
      try_res (ok_or (UtxoNotFound (prev_tx_hash i) (prev_index i))
        (utxo_get us (prev_tx_hash i) (prev_index i))) (\<lambda>out.
      try_res (ok_or InputSumOverflow (checked_add input_sum (out_value out))) (\<lambda>acc.
      try_res (map_err (ScriptFailed (prev_tx_hash i) (prev_index i))
        (evaluate_script X (effective_script out) i sighash block_time)) (\<lambda>_.
      check_inputs X us sighash current_height block_time acc is))))"

fun check_dust :: "tx_output list \<Rightarrow> tx_err + unit" where
  "check_dust [] = Inr ()"
| "check_dust (out # outs) =
     (if out_value out < DUST_LIMIT_ARKES then Inl (DustOutput (out_value out))
      else check_dust outs)"

definition validate_tx_with_utxo ::
  "'x tx_lib_scheme \<Rightarrow> transaction \<Rightarrow> utxo_set \<Rightarrow> u32 \<Rightarrow> u64 \<Rightarrow> tx_err + u64" where
  "validate_tx_with_utxo X tx us network_magic current_height =
     (let sighash = sig_hash X network_magic tx; block_time = current_height * 600 in
      try_res (check_inputs X us sighash current_height block_time 0 (inputs tx)) (\<lambda>input_sum.
      try_res (check_dust (outputs tx)) (\<lambda>_.
      try_res (ok_or OutputSumOverflow (try_sum 0 (map out_value (outputs tx)))) (\<lambda>output_sum.
      if input_sum < output_sum then Inl OutputsExceedInputs
      else Inr (input_sum - output_sum)))))"

definition coinbase_value :: "block \<Rightarrow> u64" where
  "coinbase_value b =
     (case transactions b of
        [] \<Rightarrow> 0
      | tx # _ \<Rightarrow> (case try_sum 0 (map out_value (outputs tx)) of None \<Rightarrow> - 1 | Some s \<Rightarrow> s))"

section \<open>Scripts\<close>

lemma evaluate_P2PKH_ok:
  "evaluate_script X (P2PKH a) i sh t = Inr () \<longleftrightarrow>
     hybrid_verify X (input_signature i) sh (input_pubkey i) = Inr ()
     \<and> (\<exists>pk. lib_secp_pk X (ecdsa_pubkey (input_pubkey i)) = Some pk
          \<and> lib_hex_encode X (hybrid_pubkey_to_address X pk (dilithium_pubkey (input_pubkey i))) = a)"
  by (auto simp: try_res_Inr Let_def split: if_splits)

lemma fold_count:
  "length xs < 256 \<Longrightarrow> unat c + length xs < 256 \<Longrightarrow>
     unat (fold (\<lambda>s c. if P s then c + 1 else c) xs (c :: u8)) = unat c + length (filter P xs)"
proof (induction xs arbitrary: c)
  case (Cons x xs)
  have "unat (c + 1) = unat c + 1"
    using Cons.prems by (simp add: unat_word_ariths)
  with Cons.IH [of c] Cons.IH [of "c + 1"] Cons.prems show ?case by simp
qed simp

lemma length_filter_eq: "length (filter P xs) = length xs \<longleftrightarrow> list_all P xs"
  by (induction xs) (auto simp: le_imp_less_Suc length_filter_le dest: le_antisym,
      metis Suc_n_not_le_n length_filter_le)

text \<open>The count never exceeds \<open>m\<close>: the script holds when all of the first \<open>m\<close> signers count.\<close>

lemma evaluate_P2MS_ok:
  "evaluate_script X (P2MS m pks) i sh t = Inr () \<longleftrightarrow>
     unat m \<le> Suc (length (witnesses i))
     \<and> list_all (signer_counts X pks sh)
         (take (unat m) ((input_signature i, input_pubkey i) # witnesses i))"
proof -
  let ?s = "take (unat m) ((input_signature i, input_pubkey i) # witnesses i)"
  let ?c = "fold (\<lambda>s c. if signer_counts X pks sh s then c + 1 else c) ?s (0 :: u8)"
  have "unat m < 256" using unsigned_less [of m, where ?'a = nat] by simp
  then have c: "unat ?c = length (filter (signer_counts X pks sh) ?s)"
    using fold_count [of ?s 0 "signer_counts X pks sh"] by simp
  have "\<not> ?c < m \<longleftrightarrow> list_all (signer_counts X pks sh) ?s" if "length ?s = unat m"
    using that c length_filter_le [of "signer_counts X pks sh" ?s]
    by (simp only: word_less_nat_alt length_filter_eq [symmetric]) arith
  then show ?thesis by (auto simp: Let_def)
qed

text \<open>
  One listed key satisfies an \<open>m\<close>-of-\<open>n\<close> script alone, by repeating its signature in the
  witnesses: the evaluation does not ask the signers to be different.
\<close>

lemma p2ms_one_key:
  assumes "pk \<in> set pks" "hybrid_verify X sg sh pk = Inr ()"
    "input_signature i = sg" "input_pubkey i = pk" "witnesses i = replicate (unat m - 1) (sg, pk)"
  shows "evaluate_script X (P2MS m pks) i sh t = Inr ()"
proof -
  have "signer_counts X pks sh (sg, pk)"
    using assms(1,2) by (auto simp: signer_counts_def list_ex_iff)
  moreover have "set (take (unat m) ((sg, pk) # replicate (unat m - 1) (sg, pk))) \<subseteq> {(sg, pk)}"
    by (auto dest!: in_set_takeD)
  ultimately show ?thesis
    unfolding evaluate_P2MS_ok assms(3-5) by (auto simp: list_all_iff)
qed

section \<open>Transactions\<close>

text \<open>An input the validation accepts, and the condition on a whole transaction.\<close>

definition input_ok ::
  "'x sig_lib_scheme \<Rightarrow> utxo_set \<Rightarrow> bytes \<Rightarrow> u64 \<Rightarrow> u64 \<Rightarrow> tx_input \<Rightarrow> bool" where
  "input_ok X us sighash current_height block_time i \<longleftrightarrow>
     \<not> is_immature_coinbase us (prev_tx_hash i) current_height
     \<and> (case utxo_get us (prev_tx_hash i) (prev_index i) of
          None \<Rightarrow> False
        | Some out \<Rightarrow>
            evaluate_script X (effective_script out) i sighash block_time = Inr ())"

definition input_value :: "utxo_set \<Rightarrow> tx_input \<Rightarrow> nat" where
  "input_value us i = (case utxo_get us (prev_tx_hash i) (prev_index i) of
     None \<Rightarrow> 0 | Some out \<Rightarrow> unat (out_value out))"

lemma inputs_total_alt: "inputs_total us tx = sum_list (map (input_value us) (inputs tx))"
  by (simp add: inputs_total_def outpoints_def input_value_def [abs_def] comp_def)

lemma checked_add_Inr:
  "checked_add a (b :: u64) = Some c \<longleftrightarrow> unat a + unat b < 2 ^ 64 \<and> unat c = unat a + unat b"
  by (auto simp: checked_add_def unat_word_ariths word_unat_eq_iff simp del: unat_inject)

lemma check_inputs_Inr:
  "check_inputs X us sh h t acc is = Inr s \<longleftrightarrow>
     list_all (input_ok X us sh h t) is
     \<and> unat acc + sum_list (map (input_value us) is) < 2 ^ 64
     \<and> unat s = unat acc + sum_list (map (input_value us) is)"
proof (induction "is" arbitrary: acc)
  case Nil
  have "unat acc < 2 ^ 64" using unsigned_less [of acc, where ?'a = nat] by simp
  then show ?case by auto
next
  case (Cons i "is")
  show ?case
  proof (cases "utxo_get us (prev_tx_hash i) (prev_index i)")
    case None
    then show ?thesis by (simp add: input_ok_def)
  next
    case (Some out)
    then have v: "input_value us i = unat (out_value out)" by (simp add: input_value_def)
    have "check_inputs X us sh h t acc (i # is) = Inr s \<longleftrightarrow>
        input_ok X us sh h t i \<and> (\<exists>a. checked_add acc (out_value out) = Some a
          \<and> check_inputs X us sh h t a is = Inr s)"
      using Some by (auto simp: try_res_Inr input_ok_def)
    also have "\<dots> \<longleftrightarrow> input_ok X us sh h t i \<and> list_all (input_ok X us sh h t) is
        \<and> unat acc + unat (out_value out) + sum_list (map (input_value us) is) < 2 ^ 64
        \<and> unat s = unat acc + unat (out_value out) + sum_list (map (input_value us) is)"
      (is "?L \<longleftrightarrow> ?R")
    proof
      assume ?L
      then show ?R by (auto simp: Cons.IH checked_add_Inr)
    next
      assume R: ?R
      then have "checked_add acc (out_value out) = Some (acc + out_value out)"
        by (auto simp: checked_add_def)
      with R show ?L
        using checked_add_SomeD [of acc "out_value out"] by (auto simp: Cons.IH)
    qed
    finally show ?thesis using v by (auto simp: add.assoc)
  qed
qed

lemma check_dust_Inr:
  "check_dust outs = Inr () \<longleftrightarrow> list_all (\<lambda>out. 546 \<le> unat (out_value out)) outs"
  by (induction outs) (auto simp: DUST_LIMIT_ARKES_def word_less_nat_alt)

lemma outputs_sum:
  "try_sum (0 :: u64) (map out_value (outputs tx)) = Some s \<longleftrightarrow>
     outputs_total tx < 2 ^ 64 \<and> unat s = outputs_total tx"
proof -
  have sum: "sum_list (map unat (map out_value (outputs tx))) = outputs_total tx"
    by (simp add: outputs_total_def comp_def)
  show ?thesis
  proof (cases "try_sum (0 :: u64) (map out_value (outputs tx))")
    case None
    then show ?thesis
      using try_sum_None [of "0 :: u64" "map out_value (outputs tx)"] sum by simp
  next
    case (Some r)
    moreover have "unat r < 2 ^ 64" using unsigned_less [of r, where ?'a = nat] by simp
    ultimately show ?thesis
      using try_sum_SomeD [OF Some] sum by (metis add_0 option.inject unat_0 unat_inject)
  qed
qed

definition tx_acceptable ::
  "'x tx_lib_scheme \<Rightarrow> transaction \<Rightarrow> utxo_set \<Rightarrow> u32 \<Rightarrow> u64 \<Rightarrow> bool" where
  "tx_acceptable X tx us magic h \<longleftrightarrow>
     list_all (input_ok X us (sig_hash X magic tx) h (h * 600)) (inputs tx)
     \<and> list_all (\<lambda>out. 546 \<le> unat (out_value out)) (outputs tx)
     \<and> inputs_total us tx < 2 ^ 64 \<and> outputs_total tx \<le> inputs_total us tx"

lemma validate_tx_Inr:
  "validate_tx_with_utxo X tx us magic h = Inr fee \<longleftrightarrow>
     tx_acceptable X tx us magic h \<and> unat fee = inputs_total us tx - outputs_total tx"
proof -
  let ?ins = "list_all (input_ok X us (sig_hash X magic tx) h (h * 600)) (inputs tx)"
  have step: "validate_tx_with_utxo X tx us magic h = Inr fee \<longleftrightarrow>
      (\<exists>s. check_inputs X us (sig_hash X magic tx) h (h * 600) 0 (inputs tx) = Inr s
        \<and> check_dust (outputs tx) = Inr ()
        \<and> (\<exists>r. try_sum 0 (map out_value (outputs tx)) = Some r \<and> r \<le> s \<and> s - r = fee))"
    by (auto simp: validate_tx_with_utxo_def Let_def try_res_Inr not_less)
  have diff: "r \<le> s \<and> s - r = fee \<longleftrightarrow> unat r \<le> unat s \<and> unat fee = unat s - unat r"
    for r s :: u64
    by (auto simp: word_le_nat_alt unat_sub) (metis unat_inject unat_sub word_le_nat_alt)
  show ?thesis
  proof
    assume "validate_tx_with_utxo X tx us magic h = Inr fee"
    then show "tx_acceptable X tx us magic h \<and> unat fee = inputs_total us tx - outputs_total tx"
      unfolding step check_inputs_Inr check_dust_Inr outputs_sum diff tx_acceptable_def
        inputs_total_alt by auto
  next
    assume R: "tx_acceptable X tx us magic h \<and> unat fee = inputs_total us tx - outputs_total tx"
    let ?s = "word_of_nat (inputs_total us tx) :: u64" and ?r = "word_of_nat (outputs_total tx) :: u64"
    have "unat ?s = inputs_total us tx" "unat ?r = outputs_total tx"
      using R by (auto simp: tx_acceptable_def unat_of_nat)
    then show "validate_tx_with_utxo X tx us magic h = Inr fee"
      unfolding step check_inputs_Inr check_dust_Inr outputs_sum diff
      using R by (intro exI [of _ ?s] exI [of _ ?r] conjI)
        (auto simp: tx_acceptable_def inputs_total_alt)
  qed
qed

lemma acceptable_inputs_present:
  "tx_acceptable X tx us magic h \<Longrightarrow> list_all (\<lambda>(h, i). utxo_get us h i \<noteq> None) (outpoints tx)"
  by (auto simp: tx_acceptable_def input_ok_def outpoints_def list_all_iff split: option.splits)

lemma validated_conserves:
  assumes "validate_tx_with_utxo X tx us magic h = Inr fee"
    "distinct (outpoints tx)" "\<not> is_coinbase tx" "utxo_ok us" "txid_fresh X tx us"
    "length (outputs tx) \<le> 2 ^ 32"
  shows "utxo_total (apply_transaction X tx us) + unat fee = utxo_total us"
proof -
  have acc: "tx_acceptable X tx us magic h" and fee: "unat fee = inputs_total us tx - outputs_total tx"
    using assms(1) by (simp_all add: validate_tx_Inr)
  then have "outputs_total tx \<le> inputs_total us tx" by (simp add: tx_acceptable_def)
  with fee show ?thesis
    using utxo_total_spend [OF assms(6,3,5,4,2) acceptable_inputs_present [OF acc]] by linarith
qed

lemma unat_coinbase_value:
  "transactions b = tx # txs \<Longrightarrow> unat (coinbase_value b) = min (outputs_total tx) (2 ^ 64 - 1)"
proof (cases "try_sum (0 :: u64) (map out_value (outputs tx))")
  case None
  moreover have "sum_list (map unat (map out_value (outputs tx))) = outputs_total tx"
    by (simp add: outputs_total_def comp_def)
  ultimately have "2 ^ 64 \<le> outputs_total tx"
    using try_sum_None [of "0 :: u64" "map out_value (outputs tx)"] by simp
  with None show "transactions b = tx # txs \<Longrightarrow> ?thesis"
    by (simp add: coinbase_value_def unat_max_word)
next
  case (Some s)
  then have "outputs_total tx < 2 ^ 64" "unat s = outputs_total tx"
    by (simp_all add: outputs_sum)
  with Some show "transactions b = tx # txs \<Longrightarrow> ?thesis"
    by (simp add: coinbase_value_def)
qed

section \<open>A signed spend\<close>

text \<open>A spend of \<open>n\<close> copies of one output of 5000 arkes, signed by the key of the witnesses.\<close>

definition demo_addr :: string where
  "demo_addr = lib_hex_encode demo_block_lib (hybrid_pubkey_to_address demo_block_lib
     (ecdsa_public demo_key_pair) (dilithium_public demo_key_pair))"

definition demo_unsigned :: "nat \<Rightarrow> u64 \<Rightarrow> transaction" where
  "demo_unsigned n v = tx_new (replicate n \<lparr>prev_tx_hash = ''cc'', prev_index = 0,
     input_signature = empty_signature, input_pubkey = public_key demo_key_pair,
     coinbase_extra = [], witnesses = []\<rparr>) [p2pkh_output ''aa'' v]"

definition demo_sig :: "nat \<Rightarrow> u64 \<Rightarrow> hybrid_signature" where
  "demo_sig n v = the (hybrid_sign demo_block_lib demo_key_pair
     (sig_hash demo_block_lib 7 (demo_unsigned n v)))"

definition demo_signed :: "nat \<Rightarrow> u64 \<Rightarrow> transaction" where
  "demo_signed n v = remalleate (\<lambda>_. demo_sig n v) (\<lambda>_. []) (\<lambda>_. []) 0 (demo_unsigned n v)"

definition demo_utxos :: utxo_set where
  "demo_utxos = \<lparr>utxos = [(utxo_key ''cc'' 0, p2pkh_output demo_addr 5000)], coinbase_heights = []\<rparr>"

lemma remalleate_sig_hash: "sig_hash X magic (remalleate f g e l tx) = sig_hash X magic tx"
  by (simp add: sig_hash_def sig_preimage_def remalleate_def comp_def committed_input_def)

lemma demo_key_pair_wf: "key_pair_wf demo_block_lib demo_key_pair"
  unfolding key_pair_wf_def demo_key_pair_def
  by (intro conjI exI [of _ "replicate 32 1"]) (simp_all add: demo_block_lib_defs)

lemma demo_sig_ok:
  "hybrid_verify demo_block_lib (demo_sig n v) (sig_hash demo_block_lib 7 (demo_signed n v))
     (public_key demo_key_pair) = Inr ()"
  using sign_verifies [OF demo_block_lib_ok(3) demo_key_pair_wf,
      of "sig_hash demo_block_lib 7 (demo_unsigned n v)"]
  by (auto simp: demo_sig_def demo_signed_def remalleate_sig_hash)

lemma demo_get: "utxo_get demo_utxos ''cc'' 0 = Some (p2pkh_output demo_addr 5000)"
  by (simp add: utxo_get_def demo_utxos_def hm_get_def)

lemma demo_inputs:
  "inputs (demo_signed n v) = replicate n \<lparr>prev_tx_hash = ''cc'', prev_index = 0,
     input_signature = demo_sig n v, input_pubkey = public_key demo_key_pair,
     coinbase_extra = [], witnesses = []\<rparr>"
  by (simp add: demo_signed_def remalleate_def demo_unsigned_def tx_new_def map_replicate_const)

lemma demo_outputs: "outputs (demo_signed n v) = [p2pkh_output ''aa'' v]"
  by (simp add: demo_signed_def remalleate_def demo_unsigned_def tx_new_def)

lemma demo_totals:
  "inputs_total demo_utxos (demo_signed n v) = n * 5000"
  "outputs_total (demo_signed n v) = unat v"
  by (simp_all add: inputs_total_def outpoints_def demo_inputs demo_get outputs_total_def demo_outputs
      p2pkh_output_def sum_list_replicate map_replicate_const)

lemma demo_acceptable:
  assumes "546 \<le> unat v" "unat v \<le> n * 5000" "n * 5000 < 2 ^ 64"
  shows "tx_acceptable demo_block_lib (demo_signed n v) demo_utxos 7 1"
proof -
  let ?i = "\<lparr>prev_tx_hash = ''cc'', prev_index = 0, input_signature = demo_sig n v,
     input_pubkey = public_key demo_key_pair, coinbase_extra = [], witnesses = []\<rparr>"
  let ?s = "sig_hash demo_block_lib 7 (demo_signed n v)"
  have "evaluate_script demo_block_lib (P2PKH demo_addr) ?i ?s (1 * 600) = Inr ()"
    unfolding evaluate_P2PKH_ok
    by (simp add: demo_sig_ok demo_addr_def)
      (simp add: public_key_def demo_key_pair_def demo_block_lib_defs)
  then have "input_ok demo_block_lib demo_utxos ?s 1 (1 * 600) ?i"
    by (simp add: input_ok_def demo_get effective_script_def p2pkh_output_def is_immature_coinbase_def)
      (simp add: demo_utxos_def hm_get_def)
  then show ?thesis
    using assms by (simp add: tx_acceptable_def demo_totals demo_outputs demo_inputs p2pkh_output_def
        list_all_iff)
qed

lemma demo_fresh: "txid_fresh demo_block_lib (demo_signed n v) demo_utxos"
proof -
  have "length (txid_hex demo_block_lib (demo_signed n v)) = 64"
    using demo_block_lib_ok(1,2) length_hash256 [OF demo_block_lib_ok(1)]
    by (simp add: txid_hex_def txid_def hash_to_hex_def hex_ok_def)
  then have "txid_hex demo_block_lib (demo_signed n v) \<noteq> ''cc''" by force
  then show ?thesis
    by (auto simp: txid_fresh_def created_entries_nth demo_utxos_def hm_get_def demo_outputs)
qed

section \<open>Properties\<close>

text \<open>C10: a transaction is accepted with fee \<open>fee\<close> exactly when each input is not an immature
  coinbase, names an unspent output and satisfies its script, each output is worth at least 546
  arkes, the inputs add up to less than \<open>2^64\<close> and cover the outputs, and \<open>fee\<close> is the
  difference.\<close>

theorem validate_tx_accepts_iff:
  "validate_tx_with_utxo X tx us magic h = Inr fee \<longleftrightarrow>
     (\<forall>i \<in> set (inputs tx). \<not> is_immature_coinbase us (prev_tx_hash i) h \<and>
        (\<exists>out. utxo_get us (prev_tx_hash i) (prev_index i) = Some out \<and>
           evaluate_script X (effective_script out) i (sig_hash X magic tx) (h * 600) = Inr ()))
     \<and> (\<forall>out \<in> set (outputs tx). 546 \<le> unat (out_value out))
     \<and> inputs_total us tx < 2 ^ 64 \<and> outputs_total tx \<le> inputs_total us tx
     \<and> unat fee = inputs_total us tx - outputs_total tx"
  unfolding validate_tx_Inr tx_acceptable_def input_ok_def list_all_iff
  by (auto split: option.splits)

theorem validate_tx_accepts_iff_witness:
  "validate_tx_with_utxo demo_block_lib (demo_signed 1 4000) demo_utxos 7 1 = Inr 1000"
  using demo_acceptable [of 4000 1]
    validate_tx_accepts_iff [of demo_block_lib "demo_signed 1 4000" demo_utxos 7 1 1000]
  by (simp add: validate_tx_Inr demo_totals)

text \<open>C11: an accepted transaction whose inputs are distinct never creates value: applying it lowers
  the total value of the unspent outputs by exactly its fee.\<close>

theorem accepted_tx_conserves_value:
  assumes "validate_tx_with_utxo X tx us magic h = Inr fee"
    "distinct (outpoints tx)" "\<not> is_coinbase tx" "utxo_ok us" "txid_fresh X tx us"
    "length (outputs tx) \<le> 2 ^ 32"
  shows "utxo_total (apply_transaction X tx us) + unat fee = utxo_total us"
  using assms by (rule validated_conserves)

lemma demo_not_coinbase: "\<not> is_coinbase (demo_signed n v)"
proof
  assume "is_coinbase (demo_signed n v)"
  then obtain i where i: "inputs (demo_signed n v) = [i]" "prev_tx_hash i = zero_hash"
    by (auto simp: is_coinbase_def split: list.splits)
  then have "i \<in> set (inputs (demo_signed n v))" by simp
  then have "prev_tx_hash i = ''cc''" by (simp add: demo_inputs)
  then have "length zero_hash = length ''cc''" using i(2) by simp
  then show False by (simp add: zero_hash_def)
qed

theorem accepted_tx_conserves_value_witness:
  "utxo_total (apply_transaction demo_block_lib (demo_signed 1 4000) demo_utxos) + 1000 = 5000"
proof -
  have v: "validate_tx_with_utxo demo_block_lib (demo_signed 1 4000) demo_utxos 7 1 = Inr 1000"
    using demo_acceptable [of 4000 1] by (simp add: validate_tx_Inr demo_totals)
  have "distinct (outpoints (demo_signed 1 4000))" "utxo_ok demo_utxos"
    "length (outputs (demo_signed 1 4000)) \<le> 2 ^ 32"
    by (simp_all add: outpoints_def demo_inputs utxo_ok_def demo_utxos_def hm_ok_def demo_outputs)
  from accepted_tx_conserves_value [OF v this(1) demo_not_coinbase this(2) demo_fresh this(3)]
  show ?thesis by (simp add: utxo_total_def demo_utxos_def hm_sum_def p2pkh_output_def)
qed

text \<open>C35: validation does not require the inputs to be distinct, and a transaction that names one
  output twice is paid for it twice: with a single unspent output of 5000 arkes, a signed
  transaction of two equal inputs and one output of 9000 is accepted with a fee of 1000, and the
  set then holds 9000 arkes.\<close>

theorem repeated_input_creates_value:
  "validate_tx_with_utxo demo_block_lib (demo_signed 2 9000) demo_utxos 7 1 = Inr 1000
   \<and> utxo_total demo_utxos = 5000
   \<and> utxo_total (apply_transaction demo_block_lib (demo_signed 2 9000) demo_utxos) = 9000"
proof -
  have "validate_tx_with_utxo demo_block_lib (demo_signed 2 9000) demo_utxos 7 1 = Inr 1000"
    using demo_acceptable [of 9000 2] by (simp add: validate_tx_Inr demo_totals)
  moreover have "utxos (apply_transaction demo_block_lib (demo_signed 2 9000) demo_utxos) =
      [(utxo_key (txid_hex demo_block_lib (demo_signed 2 9000)) 0, p2pkh_output ''aa'' 9000)]"
    using demo_not_coinbase
    by (simp add: apply_transaction_def Let_def spent_keys_def demo_inputs demo_utxos_def
        created_entries_nth demo_outputs hm_remove_def hm_insert_def numeral_2_eq_2)
  ultimately show ?thesis
    by (simp add: utxo_total_def hm_sum_def p2pkh_output_def demo_utxos_def)
qed

text \<open>A P2MS script accepts exactly when there are at least \<open>m\<close> signers (the input's own slot
  and its witnesses) and each of the first \<open>m\<close> has a listed key and a valid signature.\<close>

theorem p2ms_accepts_iff:
  "evaluate_script X (P2MS m pks) i sh t = Inr () \<longleftrightarrow>
     unat m \<le> Suc (length (witnesses i))
     \<and> (\<forall>(sg, pk) \<in> set (take (unat m) ((input_signature i, input_pubkey i) # witnesses i)).
          pk \<in> set pks \<and> hybrid_verify X sg sh pk = Inr ())"
proof -
  have key: "ecdsa_pubkey a = ecdsa_pubkey b \<and> dilithium_pubkey a = dilithium_pubkey b \<longleftrightarrow> a = b"
    for a b :: hybrid_public_key by auto
  have "signer_counts X pks sh = (\<lambda>(sg, pk). pk \<in> set pks \<and> hybrid_verify X sg sh pk = Inr ())"
    by (rule ext) (auto simp: signer_counts_def list_ex_iff is_ok_iff key conj_assoc [symmetric])
  then show ?thesis unfolding evaluate_P2MS_ok list_all_iff by (simp only:)
qed

theorem p2ms_accepts_iff_witness:
  "evaluate_script demo_block_lib (P2MS 1 [public_key demo_key_pair]) (hd (inputs (demo_signed 1 4000)))
     (sig_hash demo_block_lib 7 (demo_signed 1 4000)) 0 = Inr ()"
  unfolding p2ms_accepts_iff by (simp add: demo_inputs demo_sig_ok)

text \<open>C37: the signers of a P2MS script need not be different: the holder of a single listed key
  satisfies every \<open>m\<close>-of-\<open>n\<close> script that lists it, by repeating one signature.\<close>

theorem p2ms_single_signer_suffices:
  assumes "pk \<in> set pks" "hybrid_verify X sg sh pk = Inr ()"
  shows "evaluate_script X (P2MS m pks)
    (i\<lparr>input_signature := sg, input_pubkey := pk, witnesses := replicate (unat m - 1) (sg, pk)\<rparr>) sh t = Inr ()"
  by (rule p2ms_one_key [OF assms]) simp_all

theorem p2ms_single_signer_suffices_witness:
  "evaluate_script demo_block_lib (P2MS 3 [empty_pubkey, public_key demo_key_pair, empty_pubkey])
     ((hd (inputs (demo_signed 1 4000)))\<lparr>input_signature := demo_sig 1 4000,
        input_pubkey := public_key demo_key_pair,
        witnesses := replicate (unat (3 :: u8) - 1) (demo_sig 1 4000, public_key demo_key_pair)\<rparr>)
     (sig_hash demo_block_lib 7 (demo_signed 1 4000)) 0 = Inr ()"
  by (rule p2ms_single_signer_suffices) (simp_all add: demo_sig_ok)

end
