(* ===== verification/Storage.thy ===== *)
theory Storage
  imports Blocks
begin

text \<open>
  The block store: \<open>src/storage/db.rs\<close>. RocksDB and \<open>bincode\<close> are third-party: the database
  is an abstract state with \<open>get\<close> and \<open>put\<close>, either of which can fail, and the codecs are
  partial functions. Shown: what was saved is loaded again by hash, by height and as the tip,
  saving one record leaves the records of other hashes alone, and the height index keeps only
  the last block saved at a height, on the best chain or not.
\<close>

section \<open>Definitions\<close>

record 'd store_lib = block_lib +
  db_get :: "'d \<Rightarrow> bytes \<Rightarrow> string + bytes option"
  db_put :: "bytes \<Rightarrow> bytes \<Rightarrow> 'd \<Rightarrow> ('d, string, unit) st_result"
  lib_block_ser :: "block \<Rightarrow> bytes option"
  lib_block_de :: "nat \<Rightarrow> bytes \<Rightarrow> block option"
  lib_tx_ser :: "transaction \<Rightarrow> bytes option"
  lib_tx_de :: "nat \<Rightarrow> bytes \<Rightarrow> transaction option"

datatype store_err =
    DbError string
  | SerializeError
  | BlockDecode
  | TxDecode
  | Utf8Error

definition MAX_BLOCK_SIZE :: nat where "MAX_BLOCK_SIZE = 32 * 1024 * 1024"
definition MAX_TX_SIZE :: nat where "MAX_TX_SIZE = 4 * 1024 * 1024"

definition block_key :: "string \<Rightarrow> bytes" where "block_key h = as_bytes (''block:'' @ h)"
definition height_key :: "u64 \<Rightarrow> bytes" where "height_key n = as_bytes (''height:'' @ show_nat (unat n))"
definition tx_key :: "string \<Rightarrow> bytes" where "tx_key h = as_bytes (''tx:'' @ h)"
definition tip_key :: bytes where "tip_key = as_bytes ''tip''"

text \<open>\<open>self.db.put(..)?\<close> and \<open>self.db.get(..)?\<close>\<close>

definition put_or ::
  "('d, 'x) store_lib_scheme \<Rightarrow> bytes \<Rightarrow> bytes \<Rightarrow> 'd \<Rightarrow> ('d, store_err, unit) st_result" where
  "put_or X k v d = (case db_put X k v d of (r, d') \<Rightarrow> (map_err DbError r, d'))"

definition get_or ::
  "('d, 'x) store_lib_scheme \<Rightarrow> 'd \<Rightarrow> bytes \<Rightarrow> store_err + bytes option" where
  "get_or X d k = map_err DbError (db_get X d k)"

definition save_block ::
  "('d, 'x) store_lib_scheme \<Rightarrow> block \<Rightarrow> 'd \<Rightarrow> ('d, store_err, unit) st_result" where
  "save_block X b d =
     (case lib_block_ser X b of
        None \<Rightarrow> (Inl SerializeError, d)
      | Some val \<Rightarrow>
          try_st (put_or X (block_key (hash_hex X b)) val d) (\<lambda>_ d1.
          try_st (put_or X (height_key (height b)) (as_bytes (hash_hex X b)) d1) (\<lambda>_ d2.
          (Inr (), d2))))"

definition load_block_by_hash ::
  "('d, 'x) store_lib_scheme \<Rightarrow> 'd \<Rightarrow> string \<Rightarrow> store_err + block option" where
  "load_block_by_hash X d h =
     try_res (get_or X d (block_key h)) (\<lambda>r.
       case r of
         None \<Rightarrow> Inr None
       | Some val \<Rightarrow>
           try_res (ok_or BlockDecode (lib_block_de X MAX_BLOCK_SIZE val)) (\<lambda>b. Inr (Some b)))"

definition load_block_by_height ::
  "('d, 'x) store_lib_scheme \<Rightarrow> 'd \<Rightarrow> u64 \<Rightarrow> store_err + block option" where
  "load_block_by_height X d n =
     try_res (get_or X d (height_key n)) (\<lambda>r.
       case r of
         None \<Rightarrow> Inr None
       | Some hash_bytes \<Rightarrow>
           try_res (ok_or Utf8Error (string_from_utf8 hash_bytes)) (\<lambda>h. load_block_by_hash X d h))"

definition save_transaction ::
  "('d, 'x) store_lib_scheme \<Rightarrow> transaction \<Rightarrow> 'd \<Rightarrow> ('d, store_err, unit) st_result" where
  "save_transaction X tx d =
     (case lib_tx_ser X tx of
        None \<Rightarrow> (Inl SerializeError, d)
      | Some val \<Rightarrow> try_st (put_or X (tx_key (txid_hex X tx)) val d) (\<lambda>_ d1. (Inr (), d1)))"

definition load_transaction ::
  "('d, 'x) store_lib_scheme \<Rightarrow> 'd \<Rightarrow> string \<Rightarrow> store_err + transaction option" where
  "load_transaction X d tid =
     try_res (get_or X d (tx_key tid)) (\<lambda>r.
       case r of
         None \<Rightarrow> Inr None
       | Some val \<Rightarrow>
           try_res (ok_or TxDecode (lib_tx_de X MAX_TX_SIZE val)) (\<lambda>tx. Inr (Some tx)))"

definition save_tip ::
  "('d, 'x) store_lib_scheme \<Rightarrow> string \<Rightarrow> 'd \<Rightarrow> ('d, store_err, unit) st_result" where
  "save_tip X h d = try_st (put_or X tip_key (as_bytes h) d) (\<lambda>_ d1. (Inr (), d1))"

definition load_tip :: "('d, 'x) store_lib_scheme \<Rightarrow> 'd \<Rightarrow> store_err + string option" where
  "load_tip X d =
     try_res (get_or X d tip_key) (\<lambda>r.
       case r of
         None \<Rightarrow> Inr None
       | Some val \<Rightarrow> try_res (ok_or Utf8Error (string_from_utf8 val)) (\<lambda>s. Inr (Some s)))"

section \<open>What the code relies on\<close>

text \<open>The documented behaviour of a key-value database seen through \<open>kv\<close>, its contents: reads
  return the contents, a write that succeeds changes one key.\<close>

definition db_ok :: "('d, 'x) store_lib_scheme \<Rightarrow> ('d \<Rightarrow> bytes \<Rightarrow> bytes option) \<Rightarrow> bool" where
  "db_ok X kv \<longleftrightarrow> (\<forall>d k. db_get X d k = Inr (kv d k))
     \<and> (\<forall>d k v d'. db_put X k v d = (Inr (), d') \<longrightarrow> kv d' = (kv d)(k \<mapsto> v))"

text \<open>\<open>bincode\<close> reads back what it wrote, within the size limit.\<close>

definition codec_ok :: "('d, 'x) store_lib_scheme \<Rightarrow> bool" where
  "codec_ok X \<longleftrightarrow>
     (\<forall>b v n. lib_block_ser X b = Some v \<longrightarrow> length v \<le> n \<longrightarrow> lib_block_de X n v = Some b)
     \<and> (\<forall>tx v n. lib_tx_ser X tx = Some v \<longrightarrow> length v \<le> n \<longrightarrow> lib_tx_de X n v = Some tx)"

lemma put_or_kv: "db_ok X kv \<Longrightarrow> put_or X k v d = (Inr (), d') \<Longrightarrow> kv d' = (kv d)(k \<mapsto> v)"
  by (auto simp: db_ok_def put_or_def split: prod.splits)

lemma get_or_kv: "db_ok X kv \<Longrightarrow> get_or X d k = Inr (kv d k)"
  by (simp add: db_ok_def get_or_def)

lemma store_keys [simp]:
  "block_key h = block_key h' \<longleftrightarrow> h = h'" "height_key n = height_key n' \<longleftrightarrow> n = n'"
  "tx_key h = tx_key h' \<longleftrightarrow> h = h'"
  "block_key h \<noteq> height_key n" "height_key n \<noteq> block_key h" "block_key h \<noteq> tip_key"
  "tip_key \<noteq> block_key h" "height_key n \<noteq> tip_key" "tip_key \<noteq> height_key n"
  "tx_key h' \<noteq> block_key h" "block_key h \<noteq> tx_key h'" "tx_key h \<noteq> height_key n"
  "height_key n \<noteq> tx_key h" "tx_key h \<noteq> tip_key" "tip_key \<noteq> tx_key h"
  by (simp_all add: block_key_def height_key_def tx_key_def tip_key_def)

lemma hex_digit_ascii: "hex_digit c \<Longrightarrow> of_char c < (128 :: nat)"
  by (auto simp: hex_digit_def)

lemma hash_hex_utf8: "hex_ok X \<Longrightarrow> string_from_utf8 (as_bytes (hash_hex X b)) = Some (hash_hex X b)"
  by (intro string_from_utf8_ascii)
    (auto simp: hex_ok_def hash_hex_def header_hash_hex_def hash_to_hex_def list_all_iff
      intro: hex_digit_ascii)

section \<open>Saving and loading\<close>

lemma save_block_kv:
  assumes "db_ok X kv" "save_block X b d = (Inr (), d')"
  obtains v where "lib_block_ser X b = Some v"
    "kv d' = (kv d)(block_key (hash_hex X b) \<mapsto> v, height_key (height b) \<mapsto> as_bytes (hash_hex X b))"
proof -
  obtain v d1 where "lib_block_ser X b = Some v"
    and p: "put_or X (block_key (hash_hex X b)) v d = (Inr (), d1)"
      "put_or X (height_key (height b)) (as_bytes (hash_hex X b)) d1 = (Inr (), d')"
    using assms(2) by (auto simp: save_block_def try_st_Inr split: option.splits)
  with that show thesis
    using put_or_kv [OF assms(1) p(1)] put_or_kv [OF assms(1) p(2)] by simp
qed

lemma save_tip_kv:
  "db_ok X kv \<Longrightarrow> save_tip X h d = (Inr (), d') \<Longrightarrow> kv d' = (kv d)(tip_key \<mapsto> as_bytes h)"
  by (auto simp: save_tip_def try_st_Inr dest!: put_or_kv)

lemma load_saved_hash:
  assumes "db_ok X kv" "codec_ok X" "save_block X b d = (Inr (), d')"
    "\<forall>v. lib_block_ser X b = Some v \<longrightarrow> length v \<le> MAX_BLOCK_SIZE"
  shows "load_block_by_hash X d' (hash_hex X b) = Inr (Some b)"
proof -
  obtain v where "lib_block_ser X b = Some v"
    "kv d' = (kv d)(block_key (hash_hex X b) \<mapsto> v, height_key (height b) \<mapsto> as_bytes (hash_hex X b))"
    using save_block_kv [OF assms(1,3)] .
  with assms(2,4) show ?thesis
    by (simp add: load_block_by_hash_def get_or_kv [OF assms(1)] codec_ok_def)
qed

lemma load_saved_height:
  assumes "db_ok X kv" "codec_ok X" "hex_ok X" "save_block X b d = (Inr (), d')"
    "\<forall>v. lib_block_ser X b = Some v \<longrightarrow> length v \<le> MAX_BLOCK_SIZE"
  shows "load_block_by_height X d' (height b) = Inr (Some b)"
proof -
  have "kv d' (height_key (height b)) = Some (as_bytes (hash_hex X b))"
    using save_block_kv [OF assms(1,4)] by fastforce
  with load_saved_hash [OF assms(1,2,4,5)] show ?thesis
    by (simp add: load_block_by_height_def get_or_kv [OF assms(1)] hash_hex_utf8 [OF assms(3)])
qed

lemma load_other_hash:
  assumes "db_ok X kv" "save_block X b d = (Inr (), d')" "h \<noteq> hash_hex X b"
  shows "load_block_by_hash X d' h = load_block_by_hash X d h"
proof -
  have "kv d' (block_key h) = kv d (block_key h)"
    using save_block_kv [OF assms(1,2)] assms(3) by fastforce
  then show ?thesis by (simp add: load_block_by_hash_def get_or_kv [OF assms(1)])
qed

lemma load_saved_tip:
  assumes "db_ok X kv" "hex_ok X" "save_tip X (hash_hex X b) d = (Inr (), d')"
  shows "load_tip X d' = Inr (Some (hash_hex X b))"
  using save_tip_kv [OF assms(1,3)]
  by (simp add: load_tip_def get_or_kv [OF assms(1)] hash_hex_utf8 [OF assms(2)])

lemma load_saved_transaction:
  assumes "db_ok X kv" "codec_ok X" "save_transaction X tx d = (Inr (), d')"
    "\<forall>v. lib_tx_ser X tx = Some v \<longrightarrow> length v \<le> MAX_TX_SIZE"
  shows "load_transaction X d' (txid_hex X tx) = Inr (Some tx)"
  using assms
  by (auto simp: save_transaction_def try_st_Inr load_transaction_def get_or_kv codec_ok_def
      dest!: put_or_kv split: option.splits)

section \<open>Properties\<close>

text \<open>A store in memory, with a codec for a block, a block on top of it, and one transaction.\<close>

definition demo_child :: "block \<Rightarrow> block" where
  "demo_child g = (let txs = [coinbase ''ab'' (block_reward 1) 1] in
     \<lparr>header = \<lparr>hdr_version = 1, prev_hash = hash_hex demo_block_lib g,
       hdr_merkle_root = merkle_root demo_block_lib txs, timestamp = 1700000100, bits = 0x207fffff,
       nonce = 0\<rparr>, transactions = txs, height = 1\<rparr>)"

definition demo_store_lib :: "block \<Rightarrow> (bytes \<Rightarrow> bytes option) store_lib" where
  "demo_store_lib g = block_lib.extend demo_block_lib
     \<lparr>db_get = (\<lambda>d k. Inr (d k)), db_put = (\<lambda>k v d. (Inr (), d(k \<mapsto> v))),
      lib_block_ser = (\<lambda>b. if b = g then Some [1] else if b = demo_child g then Some [3] else None),
      lib_block_de = (\<lambda>n v. if v = [1] then Some g else if v = [3] then Some (demo_child g) else None),
      lib_tx_ser = (\<lambda>tx. if tx = tx_new [] [] then Some [2] else None),
      lib_tx_de = (\<lambda>n v. if v = [2] then Some (tx_new [] []) else None)\<rparr>"

lemmas demo_store_lib_defs = demo_store_lib_def block_lib.defs demo_block_lib_defs

lemma demo_store_lib_ok:
  "sha_ok (demo_store_lib g)" "hex_ok (demo_store_lib g)" "sign_ok (demo_store_lib g)"
  "db_ok (demo_store_lib g) (\<lambda>d. d)" "codec_ok (demo_store_lib g)"
  by (auto simp: sha_ok_def hex_ok_def sign_ok_def db_ok_def codec_ok_def demo_store_lib_defs
      demo_hex_roundtrip demo_hex_shape)

definition demo_block :: block where
  "demo_block = \<lparr>header = demo_header, transactions = [], height = 3\<rparr>"

text \<open>A block that was saved without an error is loaded again, by its hash and by its height;
  blocks stored under other hashes are loaded as before.\<close>

theorem saved_block_is_loaded:
  assumes "db_ok X kv" "codec_ok X" "hex_ok X" "save_block X b d = (Inr (), d')"
    "\<forall>v. lib_block_ser X b = Some v \<longrightarrow> length v \<le> MAX_BLOCK_SIZE"
  shows "load_block_by_hash X d' (hash_hex X b) = Inr (Some b)
    \<and> load_block_by_height X d' (height b) = Inr (Some b)
    \<and> (\<forall>h. h \<noteq> hash_hex X b \<longrightarrow> load_block_by_hash X d' h = load_block_by_hash X d h)"
  using load_saved_hash [OF assms(1,2,4,5)] load_saved_height [OF assms]
    load_other_hash [OF assms(1,4)] by blast

lemma demo_save:
  "save_block (demo_store_lib demo_block) demo_block d = (Inr (),
     d(block_key (hash_hex (demo_store_lib demo_block) demo_block) \<mapsto> [1],
       height_key 3 \<mapsto> as_bytes (hash_hex (demo_store_lib demo_block) demo_block)))"
proof -
  have "lib_block_ser (demo_store_lib demo_block) demo_block = Some [1]" "height demo_block = 3"
    "put_or (demo_store_lib demo_block) k v e = (Inr (), e(k \<mapsto> v))" for k v e
    by (simp_all add: demo_store_lib_defs put_or_def demo_block_def)
  then show ?thesis by (simp add: save_block_def)
qed

theorem saved_block_is_loaded_witness:
  "\<exists>d'. save_block (demo_store_lib demo_block) demo_block Map.empty = (Inr (), d')
     \<and> load_block_by_height (demo_store_lib demo_block) d' 3 = Inr (Some demo_block)"
proof -
  have lim: "\<forall>v. lib_block_ser (demo_store_lib demo_block) demo_block = Some v \<longrightarrow> length v \<le> MAX_BLOCK_SIZE"
    by (simp add: demo_store_lib_defs MAX_BLOCK_SIZE_def)
  show ?thesis
    using saved_block_is_loaded [OF demo_store_lib_ok(4,5,2) demo_save lim] demo_save [of Map.empty]
    by (simp add: demo_block_def)
qed

text \<open>The height index keeps one block per height, the last one saved, whether or not it is on
  the active chain: after saving \<open>b\<close> and then a block \<open>b2\<close> of the same height, the height
  leads to \<open>b2\<close>.\<close>

theorem height_index_keeps_last_saved:
  assumes "db_ok X kv" "codec_ok X" "hex_ok X" "save_block X b d = (Inr (), d1)"
    "save_block X b2 d1 = (Inr (), d2)" "height b2 = height b"
    "\<forall>v. lib_block_ser X b2 = Some v \<longrightarrow> length v \<le> MAX_BLOCK_SIZE"
  shows "load_block_by_height X d2 (height b) = Inr (Some b2)"
  using load_saved_height [OF assms(1-3,5,7)] assms(6) by simp

theorem height_index_keeps_last_saved_witness:
  "\<exists>d1 d2. save_block (demo_store_lib demo_block) demo_block Map.empty = (Inr (), d1)
     \<and> save_block (demo_store_lib demo_block) demo_block d1 = (Inr (), d2)
     \<and> load_block_by_height (demo_store_lib demo_block) d2 (height demo_block) = Inr (Some demo_block)"
proof -
  have lim: "\<forall>v. lib_block_ser (demo_store_lib demo_block) demo_block = Some v \<longrightarrow> length v \<le> MAX_BLOCK_SIZE"
    by (simp add: demo_store_lib_defs MAX_BLOCK_SIZE_def)
  show ?thesis
    using height_index_keeps_last_saved [OF demo_store_lib_ok(4,5,2) demo_save demo_save refl lim]
      demo_save by blast
qed

end
