(* ===== verification/Protocol.thy ===== *)
theory Protocol
  imports Blocks
begin

text \<open>
  The messages of the peer-to-peer protocol and the network constants:
  \<open>src/network/protocol.rs\<close>.
\<close>

definition PROTOCOL_VERSION :: u32 where "PROTOCOL_VERSION = 1"
definition MAINNET_MAGIC :: u32 where "MAINNET_MAGIC = 0x41524b53"
definition TESTNET_MAGIC :: u32 where "TESTNET_MAGIC = 0x41524b54"
definition REGTEST_MAGIC :: u32 where "REGTEST_MAGIC = 0x41524b52"
definition MAX_HEADERS_PER_RESPONSE :: nat where "MAX_HEADERS_PER_RESPONSE = 2000"
definition MAX_GETDATA_INFLIGHT :: nat where "MAX_GETDATA_INFLIGHT = 50"

definition magic_for_network :: "string \<Rightarrow> u32" where
  "magic_for_network network =
     (if network = ''mainnet'' then MAINNET_MAGIC
      else if network = ''testnet'' then TESTNET_MAGIC else REGTEST_MAGIC)"

datatype inv_kind = InvBlock | InvTransaction

record inv_item =
  inv_kind :: inv_kind
  inv_hash :: string

datatype message =
    Version u32 u32 u64 string
  | Verack
  | GetHeaders "string list"
  | Headers "block_header list"
  | GetBlocks "string list"
  | Inv "inv_item list"
  | GetData "inv_item list"
  | BlockMsg block
  | TxMsg transaction
  | Addr "string list"
  | Ping u64
  | Pong u64

end
