(* ===== verification/Chain.thy ===== *)
theory Chain
  imports Tx_Validation Storage Protocol
begin

text \<open>
  The block chain: \<open>src/blockchain/chain.rs\<close>. The state of \<open>Blockchain\<close> with its maps, the
  rules a block is checked against, the switch to a heavier chain, pruning, mining and the
  persistent store. The clock is an argument; an operation that changes the state returns its
  result and the state it leaves, which after an error is what was changed before the error.
  \<open>blocks\<close> is never empty (every constructor puts the genesis block there), so \<open>tip\<close> is its
  last element. The walk from a block back to height 0 is bounded by the number of blocks
  stored plus one; \<open>WalkDiverges\<close>, the value of an endless walk, is shown not to occur.
\<close>

section \<open>State\<close>

definition MAX_COINBASE_OUTPUTS :: nat where "MAX_COINBASE_OUTPUTS = 16"
definition FINALITY_DEPTH :: u64 where "FINALITY_DEPTH = 200"

record 'd blockchain =
  network_magic :: u32
  blocks :: "block list"
  block_index :: "(string, nat) hmap"
  all_blocks :: "(string, block) hmap"
  chain_work :: "(string, u128) hmap"
  chain_utxos :: utxo_set
  chain_mempool :: mempool
  total_minted :: u64
  chain_store :: "'d option"

datatype chain_err =
    UnknownParent string
  | ParentMissing
  | BlockInvalid block_err
  | HeightMismatch u64 u64
  | UnknownBlock string
  | WalkDiverges
  | MintOverflow
  | ContextPanic
  | BitsMismatch u32 u32
  | TimestampRange u64
  | CoinbaseOutputs nat
  | TxInvalid tx_err
  | FeesOverflow
  | CoinbaseTooLarge u64 u64
  | MissingParentWork
  | WorkOverflow
  | MissingTipWork
  | EmptyActivation
  | StoreFailed store_err
  | EmptyChain
  | StoredTipMissing string
  | StoredHeightMissing u64

section \<open>Work, medians and difficulty of a chain\<close>

definition block_work :: "u32 \<Rightarrow> u128" where
  "block_work b =
     (let target_prefix = u128_of_be (take 16 (bits_to_target b)) in
      if target_prefix = 0 then - 1 else - 1 div target_prefix)"

definition median_past_time_for_blocks :: "block list \<Rightarrow> u64" where
  "median_past_time_for_blocks bs =
     (let timestamps = sort (map (\<lambda>b. timestamp (header b)) (take 11 (rev bs)))
      in timestamps ! (length timestamps div 2))"

text \<open>\<open>bs[lo..=hi]\<close>: \<open>None\<close> is the panic of a slice out of range.\<close>

definition slice_incl :: "'a list \<Rightarrow> nat \<Rightarrow> nat \<Rightarrow> 'a list option" where
  "slice_incl xs lo hi =
     (if lo \<le> hi + 1 \<and> hi < length xs then Some (take (hi + 1 - lo) (drop lo xs)) else None)"

definition next_bits_for_blocks :: "block list \<Rightarrow> u32 option" where
  "next_bits_for_blocks bs =
     (if bs = [] then None
      else
        let tip = last bs; h = height tip + 1 in
        if h mod DIFFICULTY_ADJUSTMENT_INTERVAL \<noteq> 0 then Some (bits (header tip))
        else
          let interval_start_height = unat (saturating_sub h DIFFICULTY_ADJUSTMENT_INTERVAL);
              tip_idx = length bs - 1
          in case slice_incl bs (interval_start_height - 5)
                    (min (interval_start_height + 5) (length bs - 1)) of
               None \<Rightarrow> None
             | Some start_window \<Rightarrow>
                 (case slice_incl bs (tip_idx - 10) tip_idx of
                    None \<Rightarrow> None
                  | Some end_window \<Rightarrow>
                      Some (adjust_difficulty (bits (header tip))
                        (map (\<lambda>b. timestamp (header b)) start_window)
                        (map (\<lambda>b. timestamp (header b)) end_window))))"

section \<open>Queries\<close>

definition tip :: "'d blockchain \<Rightarrow> block" where
  "tip c = last (blocks c)"

definition chain_height :: "'d blockchain \<Rightarrow> u64" where
  "chain_height c = height (tip c)"

definition remaining_supply :: "'d blockchain \<Rightarrow> u64" where
  "remaining_supply c = saturating_sub MAX_SUPPLY_ARKES (total_minted c)"

definition capped_block_reward :: "'d blockchain \<Rightarrow> u64 \<Rightarrow> u64" where
  "capped_block_reward c h = min (block_reward h) (remaining_supply c)"

definition median_past_time :: "'d blockchain \<Rightarrow> u64" where
  "median_past_time c = median_past_time_for_blocks (blocks c)"

definition next_block_timestamp :: "u64 \<Rightarrow> 'd blockchain \<Rightarrow> u64" where
  "next_block_timestamp now c = max now (median_past_time c + 1)"

definition next_bits :: "'d blockchain \<Rightarrow> u32 option" where
  "next_bits c = next_bits_for_blocks (blocks c)"

definition block_by_hash :: "'d blockchain \<Rightarrow> string \<Rightarrow> block option" where
  "block_by_hash c h = hm_get (all_blocks c) h"

definition balance_of :: "'d blockchain \<Rightarrow> string \<Rightarrow> u64" where
  "balance_of c address = utxo_balance_of (chain_utxos c) address"

section \<open>Contexts\<close>

fun chain_walk ::
  "nat \<Rightarrow> (string, block) hmap \<Rightarrow> string \<Rightarrow> block list \<Rightarrow> chain_err + block list" where
  "chain_walk 0 all cursor acc = Inl WalkDiverges"
| "chain_walk (Suc fuel) all cursor acc =
     try_res (ok_or (UnknownBlock cursor) (hm_get all cursor)) (\<lambda>b.
       if height b = 0 then Inr (b # acc)
       else chain_walk fuel all (prev_hash (header b)) (b # acc))"

definition chain_to_hash :: "'d blockchain \<Rightarrow> string \<Rightarrow> chain_err + block list" where
  "chain_to_hash c tip_hash = chain_walk (Suc (length (all_blocks c))) (all_blocks c) tip_hash []"

definition apply_block :: "'x tx_lib_scheme \<Rightarrow> block \<Rightarrow> utxo_set \<Rightarrow> utxo_set" where
  "apply_block X b us = fold (apply_transaction X) (transactions b) us"

fun replay ::
  "'x tx_lib_scheme \<Rightarrow> block list \<Rightarrow> utxo_set \<Rightarrow> u64 \<Rightarrow> chain_err + utxo_set \<times> u64" where
  "replay X [] us minted = Inr (us, minted)"
| "replay X (b # bs) us minted =
     try_res (ok_or MintOverflow (checked_add minted (coinbase_value b))) (\<lambda>m.
       replay X bs (apply_block X b us) m)"

definition parent_context ::
  "'x tx_lib_scheme \<Rightarrow> 'd blockchain \<Rightarrow> string \<Rightarrow> chain_err + block list \<times> utxo_set \<times> u64" where
  "parent_context X c parent_hash =
     (if parent_hash = hash_hex X (tip c)
      then Inr (blocks c, chain_utxos c, total_minted c)
      else
        try_res (chain_to_hash c parent_hash) (\<lambda>bs.
        try_res (replay X bs utxo_default 0) (\<lambda>(us, minted).
        Inr (bs, us, minted))))"

section \<open>Validation against the parent\<close>

fun sum_fees ::
  "'x tx_lib_scheme \<Rightarrow> utxo_set \<Rightarrow> u32 \<Rightarrow> u64 \<Rightarrow> u64 \<Rightarrow> transaction list \<Rightarrow> chain_err + u64" where
  "sum_fees X us magic h acc [] = Inr acc"
| "sum_fees X us magic h acc (tx # txs) =
     try_res (map_err TxInvalid (validate_tx_with_utxo X tx us magic h)) (\<lambda>fee.
     try_res (ok_or FeesOverflow (checked_add acc fee)) (\<lambda>a.
     sum_fees X us magic h a txs))"

definition validate_coinbase_subsidy_with_state ::
  "'x tx_lib_scheme \<Rightarrow> 'd blockchain \<Rightarrow> block \<Rightarrow> u64 \<Rightarrow> utxo_set \<Rightarrow> chain_err + unit" where
  "validate_coinbase_subsidy_with_state X c b total_minted_before_block us =
     (if transactions b = [] then Inl ContextPanic
      else
        let coinbase_tx = hd (transactions b) in
        if MAX_COINBASE_OUTPUTS < length (outputs coinbase_tx)
        then Inl (CoinbaseOutputs (length (outputs coinbase_tx)))
        else
          try_res (sum_fees X us (network_magic c) (height b) 0 (drop 1 (transactions b)))
            (\<lambda>total_fees.
          let remaining = saturating_sub MAX_SUPPLY_ARKES total_minted_before_block;
              scheduled_reward = block_reward (height b);
              allowed_reward = saturating_add (min scheduled_reward remaining) total_fees;
              minted = coinbase_value b
          in if allowed_reward < minted then Inl (CoinbaseTooLarge minted allowed_reward)
             else Inr ()))"

fun validate_transactions ::
  "'x tx_lib_scheme \<Rightarrow> u32 \<Rightarrow> u64 \<Rightarrow> transaction list \<Rightarrow> utxo_set \<Rightarrow> chain_err + unit" where
  "validate_transactions X magic h [] us = Inr ()"
| "validate_transactions X magic h (tx # txs) us =
     try_res (map_err TxInvalid (validate_tx_with_utxo X tx us magic h)) (\<lambda>_.
     validate_transactions X magic h txs (apply_transaction X tx us))"

definition validate_block_against_parent ::
  "'x tx_lib_scheme \<Rightarrow> u64 \<Rightarrow> 'd blockchain \<Rightarrow> block \<Rightarrow> string \<Rightarrow> chain_err + unit" where
  "validate_block_against_parent X now c b parent_hash =
     try_res (ok_or ParentMissing (hm_get (all_blocks c) parent_hash)) (\<lambda>parent.
     let expected_height = height parent + 1 in
     if height b \<noteq> expected_height then Inl (HeightMismatch expected_height (height b))
     else
     try_res (parent_context X c parent_hash) (\<lambda>(parent_chain, branch_utxo, minted).
     try_res (ok_or ContextPanic (next_bits_for_blocks parent_chain)) (\<lambda>expected_bits.
     if bits (header b) \<noteq> expected_bits then Inl (BitsMismatch expected_bits (bits (header b)))
     else
     let past = median_past_time_for_blocks parent_chain in
     if \<not> validate_timestamp (timestamp (header b)) past now
     then Inl (TimestampRange (timestamp (header b)))
     else
     try_res (validate_coinbase_subsidy_with_state X c b minted branch_utxo) (\<lambda>_.
     validate_transactions X (network_magic c) (height b) (drop 1 (transactions b)) branch_utxo))))"

section \<open>State changes\<close>

definition store_save_block ::
  "('d, 'x) store_lib_scheme \<Rightarrow> block \<Rightarrow> 'd blockchain \<Rightarrow> ('d blockchain, chain_err, unit) st_result"
where
  "store_save_block X b c =
     (case chain_store c of
        None \<Rightarrow> (Inr (), c)
      | Some d \<Rightarrow> (case save_block X b d of
                    (r, d') \<Rightarrow> (map_err StoreFailed r, c\<lparr>chain_store := Some d'\<rparr>)))"

fun store_save_blocks ::
  "('d, 'x) store_lib_scheme \<Rightarrow> block list \<Rightarrow> 'd blockchain \<Rightarrow> ('d blockchain, chain_err, unit) st_result"
where
  "store_save_blocks X [] c = (Inr (), c)"
| "store_save_blocks X (b # bs) c =
     try_st (store_save_block X b c) (\<lambda>_ c1. store_save_blocks X bs c1)"

definition store_save_tip ::
  "('d, 'x) store_lib_scheme \<Rightarrow> string \<Rightarrow> 'd blockchain \<Rightarrow> ('d blockchain, chain_err, unit) st_result"
where
  "store_save_tip X h c =
     (case chain_store c of
        None \<Rightarrow> (Inr (), c)
      | Some d \<Rightarrow> (case save_tip X h d of
                    (r, d') \<Rightarrow> (map_err StoreFailed r, c\<lparr>chain_store := Some d'\<rparr>)))"

text \<open>The loop of \<open>rebuild_active_state\<close>: index, minted total, outputs and mempool advance
  together; the mempool is changed in place, also when the total overflows.\<close>

fun rebuild_loop ::
  "'x tx_lib_scheme \<Rightarrow> nat \<Rightarrow> block list \<Rightarrow> (string, nat) hmap \<Rightarrow> u64 \<Rightarrow> utxo_set \<Rightarrow> mempool
     \<Rightarrow> (mempool, chain_err, (string, nat) hmap \<times> u64 \<times> utxo_set) st_result" where
  "rebuild_loop X n [] idx minted us mp = (Inr (idx, minted, us), mp)"
| "rebuild_loop X n (b # bs) idx minted us mp =
     (let idx1 = hm_insert (hash_hex X b) n idx in
      case checked_add minted (coinbase_value b) of
        None \<Rightarrow> (Inl MintOverflow, mp)
      | Some m \<Rightarrow>
          rebuild_loop X (n + 1) bs idx1 m (apply_block X b us)
            (fold (\<lambda>tx. pool_remove X (txid_hex X tx)) (transactions b) mp))"

definition rebuild_active_state ::
  "'x tx_lib_scheme \<Rightarrow> block list \<Rightarrow> 'd blockchain \<Rightarrow> ('d blockchain, chain_err, unit) st_result" where
  "rebuild_active_state X bs c =
     (case rebuild_loop X 0 bs [] 0 utxo_default (chain_mempool c) of
        (Inl e, mp) \<Rightarrow> (Inl e, c\<lparr>chain_mempool := mp\<rparr>)
      | (Inr (idx, minted, us), mp) \<Rightarrow>
          (Inr (), c\<lparr>chain_mempool := mp, blocks := bs, block_index := idx, chain_utxos := us,
                     total_minted := minted\<rparr>))"

definition activate_chain ::
  "('d, 'x) store_lib_scheme \<Rightarrow> string \<Rightarrow> 'd blockchain \<Rightarrow> ('d blockchain, chain_err, unit) st_result"
where
  "activate_chain X tip_hash c =
     (case chain_to_hash c tip_hash of
        Inl e \<Rightarrow> (Inl e, c)
      | Inr new_blocks \<Rightarrow>
          if new_blocks = [] then (Inl EmptyActivation, c)
          else
            try_st (rebuild_active_state X new_blocks c) (\<lambda>_ c1.
            try_st (store_save_blocks X (blocks c1) c1) (\<lambda>_ c2.
            store_save_tip X (hash_hex X (tip c2)) c2)))"

definition prune_stale_orphans :: "'x hash_lib_scheme \<Rightarrow> 'd blockchain \<Rightarrow> 'd blockchain" where
  "prune_stale_orphans X c =
     (let tip_height = chain_height c in
      if tip_height < FINALITY_DEPTH then c
      else
        let cutoff_height = tip_height - FINALITY_DEPTH;
            active_hashes = map (hash_hex X) (filter (\<lambda>b. height b \<le> cutoff_height) (blocks c));
            all1 = hm_retain (\<lambda>h b. cutoff_height < height b \<or> h \<in> set active_hashes) (all_blocks c)
        in c\<lparr>all_blocks := all1,
             chain_work := hm_retain (\<lambda>h _. hm_contains all1 h) (chain_work c)\<rparr>)"

definition add_block ::
  "('d, 'x) store_lib_scheme \<Rightarrow> u64 \<Rightarrow> block \<Rightarrow> 'd blockchain \<Rightarrow> ('d blockchain, chain_err, unit) st_result"
where
  "add_block X now b c =
     (let hash = hash_hex X b in
      if hm_contains (all_blocks c) hash then (Inr (), c)
      else
        let parent_hash = prev_hash (header b) in
        if \<not> hm_contains (all_blocks c) parent_hash then (Inl (UnknownParent parent_hash), c)
        else
          case try_res (ok_or ParentMissing (hm_get (all_blocks c) parent_hash)) (\<lambda>parent.
               try_res (map_err BlockInvalid (block_validate X b (hash_hex X parent))) (\<lambda>_.
               try_res (validate_block_against_parent X now c b parent_hash) (\<lambda>_.
               try_res (ok_or MissingParentWork (hm_get (chain_work c) parent_hash)) (\<lambda>parent_work.
               ok_or WorkOverflow (checked_add parent_work (block_work (bits (header b)))))))) of
            Inl e \<Rightarrow> (Inl e, c)
          | Inr candidate_work \<Rightarrow>
              try_st (store_save_block X b c) (\<lambda>_ c1.
              let c2 = c1\<lparr>chain_work := hm_insert hash candidate_work (chain_work c1),
                          all_blocks := hm_insert hash b (all_blocks c1)\<rparr> in
              case hm_get (chain_work c2) (hash_hex X (tip c2)) of
                None \<Rightarrow> (Inl MissingTipWork, c2)
              | Some current_work \<Rightarrow>
                  try_st (if current_work < candidate_work then activate_chain X hash c2
                          else (Inr (), c2)) (\<lambda>_ c3.
                  (Inr (), prune_stale_orphans X c3))))"

section \<open>Construction, mining and the mempool\<close>

definition from_genesis_with_magic ::
  "'x tx_lib_scheme \<Rightarrow> block \<Rightarrow> 'd option \<Rightarrow> u32 \<Rightarrow> 'd blockchain" where
  "from_genesis_with_magic X genesis store magic =
     (let hash = hash_hex X genesis in
      \<lparr>network_magic = magic, blocks = [genesis], block_index = hm_insert hash 0 [],
       all_blocks = hm_insert hash genesis [],
       chain_work = hm_insert hash (block_work (bits (header genesis))) [],
       chain_utxos = apply_block X genesis utxo_default, chain_mempool = mempool_new,
       total_minted = coinbase_value genesis, chain_store = store\<rparr>)"

definition from_genesis :: "'x tx_lib_scheme \<Rightarrow> block \<Rightarrow> 'd option \<Rightarrow> 'd blockchain" where
  "from_genesis X genesis store = from_genesis_with_magic X genesis store REGTEST_MAGIC"

definition genesis_bits :: "string \<Rightarrow> u32" where
  "genesis_bits network =
     (if network = ''mainnet'' then MAINNET_GENESIS_BITS
      else if network = ''testnet'' then TESTNET_GENESIS_BITS else REGTEST_GENESIS_BITS)"

definition chain_new :: "'x tx_lib_scheme \<Rightarrow> 'd blockchain option" where
  "chain_new X = map_option (\<lambda>g. from_genesis X g None) (genesis_block X)"

definition new_for_network :: "'x tx_lib_scheme \<Rightarrow> string \<Rightarrow> 'd blockchain option" where
  "new_for_network X network =
     map_option (\<lambda>g. from_genesis_with_magic X g None (magic_for_network network))
       (genesis_block_with_bits X (genesis_bits network))"

text \<open>\<open>from_blocks\<close>: the clock is read once per block.\<close>

fun add_blocks ::
  "('d, 'x) store_lib_scheme \<Rightarrow> (nat \<Rightarrow> u64) \<Rightarrow> nat \<Rightarrow> block list \<Rightarrow> 'd blockchain
     \<Rightarrow> ('d blockchain, chain_err, unit) st_result" where
  "add_blocks X clock n [] c = (Inr (), c)"
| "add_blocks X clock n (b # bs) c =
     try_st (add_block X (clock n) b c) (\<lambda>_ c1. add_blocks X clock (n + 1) bs c1)"

definition from_blocks ::
  "('d, 'x) store_lib_scheme \<Rightarrow> (nat \<Rightarrow> u64) \<Rightarrow> block list \<Rightarrow> 'd option \<Rightarrow> chain_err + 'd blockchain" where
  "from_blocks X clock bs store =
     (case bs of
        [] \<Rightarrow> Inl EmptyChain
      | genesis # rest \<Rightarrow>
          (case add_blocks X clock 0 rest (from_genesis X genesis store) of
             (Inl e, _) \<Rightarrow> Inl e
           | (Inr _, c) \<Rightarrow> Inr c))"

fun load_heights ::
  "('d, 'x) store_lib_scheme \<Rightarrow> 'd \<Rightarrow> u64 list \<Rightarrow> chain_err + block list" where
  "load_heights X d [] = Inr []"
| "load_heights X d (n # ns) =
     try_res (map_err StoreFailed (load_block_by_height X d n)) (\<lambda>r.
     try_res (ok_or (StoredHeightMissing n) r) (\<lambda>b.
     try_res (load_heights X d ns) (\<lambda>bs. Inr (b # bs))))"

text \<open>\<open>open_for_network\<close> on an opened store; \<open>None\<close>: the search for a genesis nonce does not end.\<close>

definition open_for_network ::
  "('d, 'x) store_lib_scheme \<Rightarrow> (nat \<Rightarrow> u64) \<Rightarrow> 'd \<Rightarrow> string \<Rightarrow> (chain_err + 'd blockchain) option" where
  "open_for_network X clock d network =
     (case map_err StoreFailed (load_tip X d) of
        Inl e \<Rightarrow> Some (Inl e)
      | Inr (Some tip_hash) \<Rightarrow>
          Some (
            try_res (map_err StoreFailed (load_block_by_hash X d tip_hash)) (\<lambda>r.
            try_res (ok_or (StoredTipMissing tip_hash) r) (\<lambda>t.
            try_res (load_heights X d (map word_of_nat [0..<Suc (unat (height t))])) (\<lambda>bs.
            try_res (from_blocks X clock bs (Some d)) (\<lambda>c.
            Inr (c\<lparr>network_magic := magic_for_network network\<rparr>))))))
      | Inr None \<Rightarrow>
          (case genesis_block_with_bits X (genesis_bits network) of
             None \<Rightarrow> None
           | Some g \<Rightarrow>
               let c = from_genesis X g (Some d) in
               Some (case try_st (store_save_block X (tip c) c)
                            (\<lambda>_ c1. store_save_tip X (hash_hex X (tip c1)) c1) of
                       (Inl e, _) \<Rightarrow> Inl e
                     | (Inr _, c2) \<Rightarrow> Inr c2)))"

definition open_chain ::
  "('d, 'x) store_lib_scheme \<Rightarrow> (nat \<Rightarrow> u64) \<Rightarrow> 'd \<Rightarrow> (chain_err + 'd blockchain) option" where
  "open_chain X clock d = open_for_network X clock d ''regtest''"

text \<open>\<open>mine_block\<close>: \<open>None\<close> when the search does not end (or the difficulty window panics).\<close>

definition mine_block :: "'x tx_lib_scheme \<Rightarrow> u64 \<Rightarrow> string \<Rightarrow> 'd blockchain \<Rightarrow> block option" where
  "mine_block X now miner_address c =
     (let prev = tip c; h = height prev + 1 in
      case next_bits c of
        None \<Rightarrow> None
      | Some nb \<Rightarrow>
          let reward = capped_block_reward c h;
              selected = pool_take X (chain_mempool c) 500;
              total_fees = foldl (\<lambda>acc tx. saturating_add acc (fee_for (chain_mempool c) (txid_hex X tx)))
                             0 selected;
              cb = coinbase miner_address (saturating_add reward total_fees) h;
              txs = cb # selected;
              hd = \<lparr>hdr_version = 1, prev_hash = hash_hex X prev,
                    hdr_merkle_root = merkle_root X txs,
                    timestamp = next_block_timestamp now c, bits = nb, nonce = 0\<rparr>
          in map_option (\<lambda>hd'. \<lparr>header = hd', transactions = txs, height = h\<rparr>)
               (mine_block_header X hd))"

datatype submit_err = SubmitInvalid tx_err | SubmitRejected mempool_err

definition validate_tx :: "'x tx_lib_scheme \<Rightarrow> transaction \<Rightarrow> 'd blockchain \<Rightarrow> tx_err + u64" where
  "validate_tx X tx c = validate_tx_with_utxo X tx (chain_utxos c) (network_magic c) (chain_height c)"

definition submit_transaction ::
  "'x tx_lib_scheme \<Rightarrow> transaction \<Rightarrow> 'd blockchain \<Rightarrow> ('d blockchain, submit_err, string) st_result" where
  "submit_transaction X tx c =
     (case validate_tx X tx c of
        Inl e \<Rightarrow> (Inl (SubmitInvalid e), c)
      | Inr fee \<Rightarrow>
          (case add_with_fee X tx fee (chain_mempool c) of
             (r, mp) \<Rightarrow> (map_err SubmitRejected r, c\<lparr>chain_mempool := mp\<rparr>)))"

end
