(* ===== verification/Chain_Walk.thy ===== *)
theory Chain_Walk
  imports Chain
begin

text \<open>
  The stored blocks as a tree, and the walk from a block back to the genesis block
  (\<open>chain_to_hash\<close> of \<open>src/blockchain/chain.rs\<close>). Shown: in a well-formed store the walk
  always ends, within the bound of the model; what it returns starts at height 0, is numbered
  and linked block by block, and ends in the block asked for; inserting an unrelated block
  does not change it.
\<close>

section \<open>Well-formed stores and chains\<close>

definition all_ok :: "'x hash_lib_scheme \<Rightarrow> (string, block) hmap \<Rightarrow> bool" where
  "all_ok X all \<longleftrightarrow> hm_ok all
     \<and> (\<forall>h b. hm_get all h = Some b \<longrightarrow> h = hash_hex X b)
     \<and> (\<forall>h b p. hm_get all h = Some b \<longrightarrow> height b \<noteq> 0 \<longrightarrow>
          hm_get all (prev_hash (header b)) = Some p \<longrightarrow> unat (height b) = Suc (unat (height p)))"

definition numbered :: "block list \<Rightarrow> bool" where
  "numbered bs \<longleftrightarrow> (\<forall>i < length bs. unat (height (bs ! i)) = i)"

definition linked :: "'x hash_lib_scheme \<Rightarrow> block list \<Rightarrow> bool" where
  "linked X bs \<longleftrightarrow>
     (\<forall>i. Suc i < length bs \<longrightarrow> prev_hash (header (bs ! Suc i)) = hash_hex X (bs ! i))"

definition stored :: "'x hash_lib_scheme \<Rightarrow> (string, block) hmap \<Rightarrow> block list \<Rightarrow> bool" where
  "stored X all bs \<longleftrightarrow> list_all (\<lambda>b. hm_get all (hash_hex X b) = Some b) bs"

lemma all_okD:
  assumes "all_ok X all" "hm_get all h = Some b"
  shows "h = hash_hex X b"
    and "height b \<noteq> 0 \<Longrightarrow> hm_get all (prev_hash (header b)) = Some p \<Longrightarrow>
      unat (height b) = Suc (unat (height p))"
  using assms by (auto simp: all_ok_def)

lemma numbered_append1:
  "numbered (bs @ [b]) \<longleftrightarrow> numbered bs \<and> unat (height b) = length bs"
  by (auto simp: numbered_def nth_append less_Suc_eq)

lemma linked_append1:
  "linked X (bs @ [b]) \<longleftrightarrow>
     linked X bs \<and> (bs \<noteq> [] \<longrightarrow> prev_hash (header b) = hash_hex X (last bs))"
proof
  assume lk: "linked X (bs @ [b])"
  have "prev_hash (header b) = hash_hex X (last bs)" if "bs \<noteq> []"
    using lk [unfolded linked_def, rule_format, of "length bs - 1"] that
    by (simp add: nth_append last_conv_nth)
  moreover have "prev_hash (header (bs ! Suc i)) = hash_hex X (bs ! i)" if "Suc i < length bs" for i
    using lk [unfolded linked_def, rule_format, of i] that by (simp add: nth_append)
  ultimately show "linked X bs \<and> (bs \<noteq> [] \<longrightarrow> prev_hash (header b) = hash_hex X (last bs))"
    by (simp add: linked_def)
next
  assume R: "linked X bs \<and> (bs \<noteq> [] \<longrightarrow> prev_hash (header b) = hash_hex X (last bs))"
  show "linked X (bs @ [b])"
    unfolding linked_def
  proof (intro allI impI)
    fix i assume "Suc i < length (bs @ [b])"
    then consider "Suc i < length bs" | "Suc i = length bs" by fastforce
    then show "prev_hash (header ((bs @ [b]) ! Suc i)) = hash_hex X ((bs @ [b]) ! i)"
    proof cases
      case 1
      with R show ?thesis by (simp add: linked_def nth_append)
    next
      case 2
      then have "bs \<noteq> []" "length bs - 1 = i" by auto
      then have "bs \<noteq> []" "last bs = bs ! i" by (simp_all add: last_conv_nth)
      with R 2 show ?thesis by (simp add: nth_append)
    qed
  qed
qed

lemma numbered_last: "numbered bs \<Longrightarrow> bs \<noteq> [] \<Longrightarrow> unat (height (last bs)) = length bs - 1"
  by (simp add: numbered_def last_conv_nth)

lemma numbered_distinct: "numbered bs \<Longrightarrow> distinct bs"
  unfolding numbered_def distinct_conv_nth by metis

lemma numbered_stored_distinct:
  assumes "numbered bs" "stored X all bs"
  shows "distinct (map (hash_hex X) bs)"
proof -
  have "inj_on (hash_hex X) (set bs)"
    using assms(2) by (auto simp: stored_def list_all_iff inj_on_def) (metis option.inject)
  then show ?thesis using numbered_distinct [OF assms(1)] by (simp add: distinct_map)
qed

section \<open>The walk\<close>

lemma chain_walk_Inr:
  assumes "all_ok X all"
  shows "chain_walk f all cur acc = Inr bs \<Longrightarrow>
    \<exists>pre. bs = pre @ acc \<and> pre \<noteq> [] \<and> hm_get all cur = Some (last pre)
      \<and> numbered pre \<and> linked X pre \<and> stored X all pre"
proof (induction f arbitrary: cur acc)
  case 0
  then show ?case by simp
next
  case (Suc f)
  then obtain b where b: "hm_get all cur = Some b"
    and rest: "(if height b = 0 then Inr (b # acc)
       else chain_walk f all (prev_hash (header b)) (b # acc)) = Inr bs"
    by (auto simp: try_res_Inr)
  have hb: "hm_get all (hash_hex X b) = Some b" using all_okD(1) [OF assms b] b by simp
  show ?case
  proof (cases "height b = 0")
    case True
    with rest b hb show ?thesis
      by (intro exI [of _ "[b]"]) (simp add: numbered_def linked_def stored_def)
  next
    case False
    with rest Suc.IH obtain pre where pre: "bs = pre @ b # acc" "pre \<noteq> []"
      "hm_get all (prev_hash (header b)) = Some (last pre)"
      "numbered pre" "linked X pre" "stored X all pre" by metis
    have "unat (height b) = length pre"
      using all_okD(2) [OF assms b False pre(3)] numbered_last [OF pre(4,2)] pre(2)
      by (cases pre) simp_all
    moreover have "prev_hash (header b) = hash_hex X (last pre)"
      by (rule all_okD(1) [OF assms pre(3)])
    ultimately show ?thesis
      using pre b hb
      by (intro exI [of _ "pre @ [b]"])
        (simp add: numbered_append1 linked_append1 stored_def)
  qed
qed

lemma chain_walk_diverges:
  assumes "all_ok X all"
  shows "chain_walk f all cur acc = Inl WalkDiverges \<Longrightarrow>
    \<exists>bs. length bs = f \<and> set bs \<subseteq> snd ` set all
      \<and> sorted_wrt (\<lambda>a b. unat (height b) < unat (height a)) bs
      \<and> (bs \<noteq> [] \<longrightarrow> hm_get all cur = Some (hd bs))"
proof (induction f arbitrary: cur acc)
  case 0
  then show ?case by simp
next
  case (Suc f)
  then obtain b where b: "hm_get all cur = Some b" "height b \<noteq> 0"
    and rest: "chain_walk f all (prev_hash (header b)) (b # acc) = Inl WalkDiverges"
    by (cases "hm_get all cur") (auto split: if_splits)
  from Suc.IH [OF rest] obtain bs where bs: "length bs = f" "set bs \<subseteq> snd ` set all"
    "sorted_wrt (\<lambda>a b. unat (height b) < unat (height a)) bs"
    "bs \<noteq> [] \<longrightarrow> hm_get all (prev_hash (header b)) = Some (hd bs)" by blast
  have "unat (height x) < unat (height b)" if "x \<in> set bs" for x
  proof -
    have ne: "bs \<noteq> []" using that by auto
    then have "unat (height b) = Suc (unat (height (hd bs)))"
      using all_okD(2) [OF assms b] bs(4) by simp
    moreover have "unat (height x) \<le> unat (height (hd bs))"
      using that bs(3) ne by (cases bs) auto
    ultimately show ?thesis by simp
  qed
  moreover have "b \<in> snd ` set all"
    using hm_get_in_set [OF b(1)] by force
  ultimately show ?case
    using bs b by (intro exI [of _ "b # bs"]) simp
qed

lemma sorted_heights_distinct:
  "sorted_wrt (\<lambda>a b. unat (height b) < unat (height a)) bs \<Longrightarrow> distinct bs"
  by (induction bs) auto

lemma chain_to_hash_terminates:
  assumes "all_ok X (all_blocks c)"
  shows "chain_to_hash c h \<noteq> Inl WalkDiverges"
proof
  assume "chain_to_hash c h = Inl WalkDiverges"
  then obtain bs where bs: "length bs = Suc (length (all_blocks c))"
    "set bs \<subseteq> snd ` set (all_blocks c)"
    "sorted_wrt (\<lambda>a b. unat (height b) < unat (height a)) bs"
    using chain_walk_diverges [OF assms] unfolding chain_to_hash_def by blast
  have "length bs = card (set bs)"
    using sorted_heights_distinct [OF bs(3)] by (simp add: distinct_card)
  also have "\<dots> \<le> card (snd ` set (all_blocks c))"
    by (rule card_mono [OF _ bs(2)]) simp
  also have "\<dots> \<le> card (set (all_blocks c))" by (rule card_image_le) simp
  also have "\<dots> \<le> length (all_blocks c)" by (rule card_length)
  finally show False using bs(1) by simp
qed

lemma chain_to_hash_Inr:
  assumes "all_ok X (all_blocks c)" "chain_to_hash c h = Inr bs"
  shows "bs \<noteq> []" "hm_get (all_blocks c) h = Some (last bs)" "numbered bs" "linked X bs"
    "stored X (all_blocks c) bs"
  using chain_walk_Inr [OF assms(1) assms(2) [unfolded chain_to_hash_def]] by auto

section \<open>Computing a walk\<close>

text \<open>A numbered, linked and stored chain is what the walk from its last block returns.\<close>

lemma chain_walk_build:
  assumes "stored X all bs" "numbered bs" "linked X bs" "bs \<noteq> []"
  shows "length bs \<le> f \<Longrightarrow> chain_walk f all (hash_hex X (last bs)) acc = Inr (bs @ acc)"
  using assms
proof (induction bs arbitrary: f acc rule: rev_induct)
  case Nil
  then show ?case by simp
next
  case (snoc b bs)
  obtain g where f: "f = Suc g" using snoc.prems(1) by (cases f) auto
  have get: "hm_get all (hash_hex X b) = Some b" and sto: "stored X all bs"
    using snoc.prems(2) by (auto simp: stored_def)
  have nb: "numbered bs" "unat (height b) = length bs"
    using snoc.prems(3) by (simp_all add: numbered_append1)
  show ?case
  proof (cases "bs = []")
    case True
    then have "height b = 0" using nb by (simp add: unat_eq_0)
    with True get show ?thesis by (simp add: f)
  next
    case False
    then have "height b \<noteq> 0" using nb by auto
    moreover have "prev_hash (header b) = hash_hex X (last bs)" "linked X bs"
      using snoc.prems(4) False by (simp_all add: linked_append1)
    moreover have "chain_walk g all (hash_hex X (last bs)) (b # acc) = Inr (bs @ b # acc)"
      using snoc.prems(1) f by (intro snoc.IH sto nb(1) calculation(3) False) simp
    ultimately show ?thesis using get by (simp add: f)
  qed
qed

lemma stored_length:
  assumes "stored X all bs" "numbered bs"
  shows "length bs \<le> length all"
proof -
  have "distinct (map (hash_hex X) bs)" by (rule numbered_stored_distinct [OF assms(2,1)])
  then have "length bs = card (set (map (hash_hex X) bs))"
    by (metis distinct_card length_map)
  also have "\<dots> \<le> card (fst ` set all)"
    using assms(1)
    by (intro card_mono) (force simp: stored_def list_all_iff dest: hm_get_in_set)+
  also have "\<dots> \<le> length all"
    by (metis card_length card_image_le finite_set le_trans)
  finally show ?thesis .
qed

lemma chain_to_hash_build:
  assumes "stored X (all_blocks c) bs" "numbered bs" "linked X bs" "bs \<noteq> []"
  shows "chain_to_hash c (hash_hex X (last bs)) = Inr bs"
  using chain_walk_build [OF assms, of "Suc (length (all_blocks c))" "[]"]
    stored_length [OF assms(1,2)]
  by (simp add: chain_to_hash_def)

lemma stored_insert:
  "stored X all bs \<Longrightarrow> hm_get all h = None \<Longrightarrow> stored X (hm_insert h b all) bs"
  by (auto simp: stored_def list_all_iff)

lemma all_ok_insert:
  assumes "all_ok X all" "hm_get all (hash_hex X b) = None"
    and "hm_get all (prev_hash (header b)) = Some p" "unat (height b) = Suc (unat (height p))"
    and leaf: "\<forall>h b'. hm_get all h = Some b' \<longrightarrow> height b' \<noteq> 0 \<longrightarrow> prev_hash (header b') \<noteq> hash_hex X b"
  shows "all_ok X (hm_insert (hash_hex X b) b all)"
proof -
  have "prev_hash (header b) \<noteq> hash_hex X b" using assms(2,3) by auto
  then show ?thesis
    using assms by (auto simp: all_ok_def split: if_splits)
qed

lemma all_ok_sub:
  assumes "all_ok X all" "hm_ok all'" "\<And>h b. hm_get all' h = Some b \<Longrightarrow> hm_get all h = Some b"
  shows "all_ok X all'"
  using assms unfolding all_ok_def by blast

end
