(* ===== verification/Chain_Invariants.thy ===== *)
theory Chain_Invariants
  imports Chain_Walk
begin

text \<open>
  The invariant of \<open>Blockchain\<close> (\<open>src/blockchain/chain.rs\<close>) and that \<open>add_block\<close> keeps it on
  every outcome, errors included. The invariant relates the fields: the active chain is
  numbered, linked and stored; the index maps a hash to its position; the set of unspent
  outputs and the minted total are those of a replay of the active chain; every stored block
  has its accumulated work. Separately, the active tip has the most work of all stored blocks,
  which every operation keeps unless the minted total overflows during a switch of chains.
\<close>

section \<open>The invariant\<close>

definition index_ok :: "'x hash_lib_scheme \<Rightarrow> block list \<Rightarrow> (string, nat) hmap \<Rightarrow> bool" where
  "index_ok X bs idx \<longleftrightarrow> (\<forall>h i. hm_get idx h = Some i \<longleftrightarrow> i < length bs \<and> hash_hex X (bs ! i) = h)"

definition active_ok :: "'x tx_lib_scheme \<Rightarrow> 'd blockchain \<Rightarrow> bool" where
  "active_ok X c \<longleftrightarrow> blocks c \<noteq> [] \<and> numbered (blocks c) \<and> linked X (blocks c)
     \<and> stored X (all_blocks c) (blocks c) \<and> index_ok X (blocks c) (block_index c)
     \<and> replay X (blocks c) utxo_default 0 = Inr (chain_utxos c, total_minted c)"

definition work_ok :: "(string, block) hmap \<Rightarrow> (string, u128) hmap \<Rightarrow> bool" where
  "work_ok all work \<longleftrightarrow> hm_ok work
     \<and> (\<forall>h. hm_get work h = None \<longleftrightarrow> hm_get all h = None)
     \<and> (\<forall>h b w. hm_get all h = Some b \<longrightarrow> hm_get work h = Some w \<longrightarrow>
          (height b = 0 \<longrightarrow> w = block_work (bits (header b)))
          \<and> (\<forall>pw. height b \<noteq> 0 \<longrightarrow> hm_get work (prev_hash (header b)) = Some pw \<longrightarrow>
               unat w = unat pw + unat (block_work (bits (header b)))))"

definition chain_ok :: "'x tx_lib_scheme \<Rightarrow> 'd blockchain \<Rightarrow> bool" where
  "chain_ok X c \<longleftrightarrow> all_ok X (all_blocks c) \<and> active_ok X c \<and> work_ok (all_blocks c) (chain_work c)"

definition tip_best :: "'x tx_lib_scheme \<Rightarrow> 'd blockchain \<Rightarrow> bool" where
  "tip_best X c \<longleftrightarrow> (\<exists>t. hm_get (chain_work c) (hash_hex X (tip c)) = Some t
     \<and> (\<forall>h w. hm_get (chain_work c) h = Some w \<longrightarrow> w \<le> t))"

text \<open>The new block is not the parent of a stored one (whose parent must then have been pruned).\<close>

definition fresh_leaf :: "'x hash_lib_scheme \<Rightarrow> block \<Rightarrow> 'd blockchain \<Rightarrow> bool" where
  "fresh_leaf X b c \<longleftrightarrow>
     (\<forall>h b'. hm_get (all_blocks c) h = Some b' \<longrightarrow> height b' \<noteq> 0 \<longrightarrow> prev_hash (header b') \<noteq> hash_hex X b)"

lemma chain_ok_store [simp]: "chain_ok X (c\<lparr>chain_store := s\<rparr>) = chain_ok X c"
  by (simp add: chain_ok_def active_ok_def)

lemma chain_ok_mempool [simp]: "chain_ok X (c\<lparr>chain_mempool := mp\<rparr>) = chain_ok X c"
  by (simp add: chain_ok_def active_ok_def)

lemma tip_best_store [simp]: "tip_best X (c\<lparr>chain_store := s\<rparr>) = tip_best X c"
  by (simp add: tip_best_def tip_def)

lemma tip_best_mempool [simp]: "tip_best X (c\<lparr>chain_mempool := mp\<rparr>) = tip_best X c"
  by (simp add: tip_best_def tip_def)

lemma chain_ok_tip:
  assumes "chain_ok X c"
  shows "hm_get (all_blocks c) (hash_hex X (tip c)) = Some (tip c)"
    and "unat (height (tip c)) = length (blocks c) - 1"
    and "\<exists>t. hm_get (chain_work c) (hash_hex X (tip c)) = Some t"
proof -
  have ne: "blocks c \<noteq> []" and st: "stored X (all_blocks c) (blocks c)"
    and nb: "numbered (blocks c)"
    using assms by (auto simp: chain_ok_def active_ok_def)
  then show g: "hm_get (all_blocks c) (hash_hex X (tip c)) = Some (tip c)"
    by (simp add: tip_def stored_def list_all_iff)
  show "unat (height (tip c)) = length (blocks c) - 1"
    unfolding tip_def by (rule numbered_last [OF nb ne])
  have "hm_get (chain_work c) (hash_hex X (tip c)) \<noteq> None"
    using g assms by (auto simp: chain_ok_def work_ok_def)
  then show "\<exists>t. hm_get (chain_work c) (hash_hex X (tip c)) = Some t" by simp
qed

lemma chain_to_hash_tip: "chain_ok X c \<Longrightarrow> chain_to_hash c (hash_hex X (tip c)) = Inr (blocks c)"
  unfolding tip_def
  by (rule chain_to_hash_build) (auto simp: chain_ok_def active_ok_def)

text \<open>The shortcut of \<open>parent_context\<close> for a block on the active tip gives what the general
  path computes.\<close>

lemma parent_context_slow:
  assumes "chain_ok X c"
  shows "parent_context X c h =
    try_res (chain_to_hash c h) (\<lambda>bs.
      try_res (replay X bs utxo_default 0) (\<lambda>(us, minted). Inr (bs, us, minted)))"
  using assms chain_to_hash_tip [OF assms]
  by (auto simp: parent_context_def chain_ok_def active_ok_def)

section \<open>Genesis\<close>

lemma chain_ok_genesis:
  assumes "height g = 0"
  shows "chain_ok X (from_genesis_with_magic X g s magic)"
    and "tip_best X (from_genesis_with_magic X g s magic)"
proof -
  let ?h = "hash_hex X g"
  have ins: "hm_insert ?h v [] = [(?h, v)]" for v :: 'z by (simp add: hm_insert_def)
  have "unat (0 :: u64) + unat (coinbase_value g) < 2 ^ 64"
    using unsigned_less [of "coinbase_value g", where ?'a = nat] by simp
  then have "checked_add 0 (coinbase_value g) = Some (coinbase_value g)"
    by (simp add: checked_add_def)
  then show "chain_ok X (from_genesis_with_magic X g s magic)"
    using assms
    by (auto simp: chain_ok_def from_genesis_with_magic_def Let_def all_ok_def active_ok_def
        work_ok_def numbered_def linked_def stored_def index_ok_def split: if_splits)
  show "tip_best X (from_genesis_with_magic X g s magic)"
    by (auto simp: tip_best_def from_genesis_with_magic_def Let_def tip_def split: if_splits)
qed

section \<open>Inserting a block\<close>

definition insert_block :: "'x hash_lib_scheme \<Rightarrow> block \<Rightarrow> u128 \<Rightarrow> 'd blockchain \<Rightarrow> 'd blockchain" where
  "insert_block X b w c = c\<lparr>chain_work := hm_insert (hash_hex X b) w (chain_work c),
     all_blocks := hm_insert (hash_hex X b) b (all_blocks c)\<rparr>"

lemma work_ok_insert:
  assumes "work_ok all work" "hm_get all k = None" "hm_get work (prev_hash (header b)) = Some pw"
    "unat w = unat pw + unat (block_work (bits (header b)))" "height b \<noteq> 0"
    and leaf: "\<forall>h b'. hm_get all h = Some b' \<longrightarrow> height b' \<noteq> 0 \<longrightarrow> prev_hash (header b') \<noteq> k"
  shows "work_ok (hm_insert k b all) (hm_insert k w work)"
proof -
  have "hm_get work k = None" using assms(1,2) by (simp add: work_ok_def)
  moreover from this have "prev_hash (header b) \<noteq> k" using assms(3) by auto
  ultimately show ?thesis
    using assms unfolding work_ok_def by (auto split: if_splits)
qed

lemma chain_ok_insert:
  assumes ok: "chain_ok X c" and new: "hm_get (all_blocks c) (hash_hex X b) = None"
    and par: "hm_get (all_blocks c) (prev_hash (header b)) = Some p"
      "unat (height b) = Suc (unat (height p))"
    and wk: "hm_get (chain_work c) (prev_hash (header b)) = Some pw"
      "checked_add pw (block_work (bits (header b))) = Some w"
    and leaf: "fresh_leaf X b c"
  shows "chain_ok X (insert_block X b w c)"
proof -
  have "height b \<noteq> 0" using par(2) by auto
  then have "work_ok (hm_insert (hash_hex X b) b (all_blocks c))
      (hm_insert (hash_hex X b) w (chain_work c))"
    using ok new wk leaf checked_add_SomeD [OF wk(2)]
    by (intro work_ok_insert) (auto simp: chain_ok_def fresh_leaf_def)
  moreover have "all_ok X (hm_insert (hash_hex X b) b (all_blocks c))"
    using ok new par leaf by (intro all_ok_insert) (auto simp: chain_ok_def fresh_leaf_def)
  moreover have "active_ok X (insert_block X b w c)"
    using ok new stored_insert [of X "all_blocks c" "blocks c" "hash_hex X b" b]
    by (simp add: chain_ok_def active_ok_def insert_block_def)
  ultimately show ?thesis by (simp add: chain_ok_def insert_block_def)
qed

lemma chain_to_hash_insert:
  assumes ok: "chain_ok X c" and new: "hm_get (all_blocks c) (hash_hex X b) = None"
    and par: "chain_to_hash c (prev_hash (header b)) = Inr bs"
      "unat (height b) = Suc (unat (height (last bs)))"
  shows "chain_to_hash (insert_block X b w c) (hash_hex X b) = Inr (bs @ [b])"
proof -
  have all: "all_ok X (all_blocks c)" using ok by (simp add: chain_ok_def)
  note bs = chain_to_hash_Inr [OF all par(1)]
  have "stored X (all_blocks (insert_block X b w c)) (bs @ [b])"
    using stored_insert [OF bs(5) new, of b] by (simp add: insert_block_def stored_def)
  moreover have "unat (height b) = length bs"
    using par(2) numbered_last [OF bs(3,1)] bs(1) by (cases bs) simp_all
  then have "numbered (bs @ [b])" using bs(3) by (simp add: numbered_append1)
  moreover have "linked X (bs @ [b])"
    using bs(4) all_okD(1) [OF all bs(2)] by (simp add: linked_append1)
  ultimately show ?thesis
    using chain_to_hash_build [of X "insert_block X b w c" "bs @ [b]"] by simp
qed

section \<open>Switching chains\<close>

lemma rebuild_loop_replay:
  "fst (rebuild_loop X n bs idx m us mp) =
     (case replay X bs us m of
        Inl e \<Rightarrow> Inl e
      | Inr (us', m') \<Rightarrow>
          Inr (fold (\<lambda>(k, v). hm_insert k v) (zip (map (hash_hex X) bs) [n..<n + length bs]) idx,
               m', us'))"
proof (induction X n bs idx m us mp rule: rebuild_loop.induct)
  case (2 X n b bs idx minted us mp)
  have "n < n + length (b # bs)" by simp
  then have z: "zip (map (hash_hex X) (b # bs)) [n..<n + length (b # bs)] =
      (hash_hex X b, n) # zip (map (hash_hex X) bs) [n + 1..<n + 1 + length bs]"
    by (subst upt_conv_Cons) simp_all
  show ?case
    unfolding z fold_simps prod.case
    using 2 by (cases "checked_add minted (coinbase_value b)") (simp_all add: Let_def)
qed simp

lemma case_option_self: "(case m of None \<Rightarrow> None | Some x \<Rightarrow> Some x) = m"
  by (cases m) simp_all

lemma index_ok_fold:
  assumes "distinct (map (hash_hex X) bs)"
  shows "index_ok X bs (fold (\<lambda>(k, v). hm_insert k v) (zip (map (hash_hex X) bs) [0..<length bs]) [])"
proof -
  let ?z = "zip (map (hash_hex X) bs) [0..<length bs]"
  have "map_of ?z h = Some i \<longleftrightarrow> i < length bs \<and> hash_hex X (bs ! i) = h" for h i
    using assms by (auto simp: map_of_eq_Some_iff in_set_zip intro!: exI [of _ i])
  moreover have "hm_get (fold (\<lambda>(k, v). hm_insert k v) ?z []) h = map_of ?z h" for h
  proof -
    have d: "distinct (map fst ?z)" using assms by simp
    show ?thesis
      unfolding hm.get_fold_ins_distinct [OF d] hm_get_Nil by (rule case_option_self)
  qed
  ultimately show ?thesis by (simp only: index_ok_def) blast
qed

lemma rebuild_ok:
  assumes "chain_ok X c" "chain_to_hash c h = Inr bs" "rebuild_active_state X bs c = (r, c')"
  shows "chain_ok X c'"
    and "r = Inr () \<Longrightarrow> blocks c' = bs \<and> all_blocks c' = all_blocks c \<and> chain_work c' = chain_work c"
    and "r = Inr () \<or> r = Inl MintOverflow \<and> c' = c\<lparr>chain_mempool := chain_mempool c'\<rparr>"
proof -
  have all: "all_ok X (all_blocks c)" using assms(1) by (simp add: chain_ok_def)
  note bs = chain_to_hash_Inr [OF all assms(2)]
  have err: "replay X bs us m = Inl e \<Longrightarrow> e = MintOverflow" for us m e
    by (induction X bs us m rule: replay.induct)
      (auto simp: try_res_def ok_or_def split: option.splits sum.splits)
  obtain lr mp where l: "rebuild_loop X 0 bs [] 0 utxo_default (chain_mempool c) = (lr, mp)"
    by fastforce
  then have lr: "lr = (case replay X bs utxo_default 0 of Inl e \<Rightarrow> Inl e
      | Inr (us', m') \<Rightarrow>
          Inr (fold (\<lambda>(k, v). hm_insert k v) (zip (map (hash_hex X) bs) [0..<length bs]) [], m', us'))"
    using rebuild_loop_replay [of X 0 bs "[]" 0 utxo_default "chain_mempool c"]
    by (simp only: l fst_conv add_0)
  have "chain_ok X c' \<and> (r = Inr () \<longrightarrow> blocks c' = bs \<and> all_blocks c' = all_blocks c \<and> chain_work c' = chain_work c)
      \<and> (r = Inr () \<or> r = Inl MintOverflow \<and> c' = c\<lparr>chain_mempool := chain_mempool c'\<rparr>)"
  proof (cases "replay X bs utxo_default 0")
    case (Inl e)
    with lr l assms(3) have "r = Inl e" "c' = c\<lparr>chain_mempool := mp\<rparr>"
      by (simp_all add: rebuild_active_state_def)
    with err [OF Inl] assms(1) show ?thesis by simp
  next
    case (Inr um)
    obtain us m where um: "um = (us, m)" by (cases um)
    let ?idx = "fold (\<lambda>(k, v). hm_insert k v) (zip (map (hash_hex X) bs) [0..<length bs]) []"
    have c': "r = Inr ()" "c' = c\<lparr>chain_mempool := mp, blocks := bs, block_index := ?idx,
        chain_utxos := us, total_minted := m\<rparr>"
      using lr l assms(3) Inr by (simp_all add: rebuild_active_state_def um)
    have "index_ok X bs ?idx"
      by (rule index_ok_fold [OF numbered_stored_distinct [OF bs(3,5)]])
    then have "active_ok X c'"
      using bs Inr by (simp add: c' active_ok_def um)
    with c' assms(1) show ?thesis by (simp add: chain_ok_def)
  qed
  then show "chain_ok X c'"
    and "r = Inr () \<Longrightarrow> blocks c' = bs \<and> all_blocks c' = all_blocks c \<and> chain_work c' = chain_work c"
    and "r = Inr () \<or> r = Inl MintOverflow \<and> c' = c\<lparr>chain_mempool := chain_mempool c'\<rparr>"
    by blast+
qed


lemma store_self: "c\<lparr>chain_store := chain_store c\<rparr> = c"
  by (cases c) simp

lemma store_save_block_core:
  "store_save_block X b c = (r, c') \<Longrightarrow> \<exists>s. c' = c\<lparr>chain_store := s\<rparr>"
  by (auto simp: store_save_block_def store_self intro: exI [of _ "chain_store c"]
      split: option.splits prod.splits)

lemma store_save_tip_core:
  "store_save_tip X h c = (r, c') \<Longrightarrow> \<exists>s. c' = c\<lparr>chain_store := s\<rparr>"
  by (auto simp: store_save_tip_def store_self intro: exI [of _ "chain_store c"]
      split: option.splits prod.splits)

lemma store_save_blocks_core:
  "store_save_blocks X bs c = (r, c') \<Longrightarrow> \<exists>s. c' = c\<lparr>chain_store := s\<rparr>"
proof (induction bs arbitrary: c)
  case Nil
  then show ?case by (auto simp: store_self intro: exI [of _ "chain_store c"])
next
  case (Cons b bs)
  obtain r1 c1 where b: "store_save_block X b c = (r1, c1)" by fastforce
  then obtain s where s: "c1 = c\<lparr>chain_store := s\<rparr>" using store_save_block_core by blast
  show ?case
  proof (cases r1)
    case (Inl e)
    with Cons.prems b s show ?thesis by auto
  next
    case (Inr u)
    then have "store_save_blocks X bs c1 = (r, c')" using Cons.prems b by simp
    from Cons.IH [OF this] s show ?thesis by auto
  qed
qed

lemma activate_ok:
  assumes ok: "chain_ok X c" and walk: "chain_to_hash c h = Inr bs"
    and act: "activate_chain X h c = (r, c')"
  shows "chain_ok X c' \<and> all_blocks c' = all_blocks c \<and> chain_work c' = chain_work c
    \<and> (blocks c' = bs \<or> r = Inl MintOverflow \<and> blocks c' = blocks c)"
proof -
  have ne: "bs \<noteq> []" using chain_to_hash_Inr(1) [OF _ walk] ok by (auto simp: chain_ok_def)
  obtain r1 c1 where c1: "rebuild_active_state X bs c = (r1, c1)" by fastforce
  note rb = rebuild_ok [OF ok walk c1]
  show ?thesis
  proof (cases "r1 = Inr ()")
    case False
    with rb(3) have e: "r1 = Inl MintOverflow" "c1 = c\<lparr>chain_mempool := chain_mempool c1\<rparr>" by auto
    then have "r = r1" "c' = c1" using act walk ne c1 by (simp_all add: activate_chain_def)
    moreover have "blocks c1 = blocks c" "all_blocks c1 = all_blocks c" "chain_work c1 = chain_work c"
      by (subst e(2), simp)+
    ultimately show ?thesis using rb(1) e(1) by simp
  next
    case True
    obtain r2 c2 where c2: "store_save_blocks X (blocks c1) c1 = (r2, c2)" by fastforce
    then obtain s2 where s2: "c2 = c1\<lparr>chain_store := s2\<rparr>" using store_save_blocks_core by blast
    have "\<exists>s. c' = c1\<lparr>chain_store := s\<rparr>"
    proof (cases r2)
      case (Inl e)
      then show ?thesis using act walk ne c1 c2 True s2 by (auto simp: activate_chain_def)
    next
      case (Inr u)
      then have "store_save_tip X (hash_hex X (tip c2)) c2 = (r, c')"
        using act walk ne c1 c2 True by (simp add: activate_chain_def)
      from store_save_tip_core [OF this] s2 show ?thesis by auto
    qed
    with rb(1) rb(2) [OF True] show ?thesis by auto
  qed
qed

section \<open>Pruning\<close>

lemma prune_gets:
  assumes "chain_ok X c"
  shows "hm_get (all_blocks (prune_stale_orphans X c)) h = Some b \<Longrightarrow> hm_get (all_blocks c) h = Some b"
    and "b \<in> set (blocks c) \<Longrightarrow> hm_get (all_blocks (prune_stale_orphans X c)) (hash_hex X b) = Some b"
    and "hm_get (chain_work (prune_stale_orphans X c)) h =
      (if hm_get (all_blocks (prune_stale_orphans X c)) h = None then None
       else hm_get (chain_work c) h)"
proof -
  have oks: "hm_ok (all_blocks c)" "hm_ok (chain_work c)"
    and dom: "\<And>h. hm_get (chain_work c) h = None \<longleftrightarrow> hm_get (all_blocks c) h = None"
    using assms by (auto simp: chain_ok_def all_ok_def work_ok_def)
  show "hm_get (all_blocks (prune_stale_orphans X c)) h = Some b \<Longrightarrow> hm_get (all_blocks c) h = Some b"
    using oks by (auto simp: prune_stale_orphans_def Let_def hm_get_retain split: if_splits option.splits)
  have "b \<in> set (blocks c) \<Longrightarrow> hm_get (all_blocks c) (hash_hex X b) = Some b"
    using assms by (simp add: chain_ok_def active_ok_def stored_def list_all_iff)
  then show "b \<in> set (blocks c) \<Longrightarrow>
      hm_get (all_blocks (prune_stale_orphans X c)) (hash_hex X b) = Some b"
    using oks by (auto simp: prune_stale_orphans_def Let_def hm_get_retain not_less)
  show "hm_get (chain_work (prune_stale_orphans X c)) h =
      (if hm_get (all_blocks (prune_stale_orphans X c)) h = None then None
       else hm_get (chain_work c) h)"
    using oks dom by (auto simp: prune_stale_orphans_def Let_def hm_get_retain split: option.splits)
qed

lemma prune_fields [simp]:
  "blocks (prune_stale_orphans X c) = blocks c"
  "block_index (prune_stale_orphans X c) = block_index c"
  "chain_utxos (prune_stale_orphans X c) = chain_utxos c"
  "total_minted (prune_stale_orphans X c) = total_minted c"
  "tip (prune_stale_orphans X c) = tip c"
  by (simp_all add: prune_stale_orphans_def Let_def tip_def)

lemma prune_ok:
  assumes "chain_ok X c"
  shows "chain_ok X (prune_stale_orphans X c)"
proof -
  let ?c = "prune_stale_orphans X c"
  note g = prune_gets [OF assms]
  have "hm_ok (all_blocks ?c)" "hm_ok (chain_work ?c)"
    using assms by (simp_all add: prune_stale_orphans_def Let_def chain_ok_def all_ok_def work_ok_def)
  moreover have "all_ok X (all_blocks ?c)"
    using assms calculation(1) g(1) by (auto simp: chain_ok_def intro: all_ok_sub)
  moreover have "active_ok X ?c"
    using assms g(2) by (simp add: chain_ok_def active_ok_def stored_def list_all_iff)
  moreover have dom: "hm_get (chain_work ?c) h = None \<longleftrightarrow> hm_get (all_blocks ?c) h = None" for h
    using assms g(1) [of h] g(3) [of h] unfolding chain_ok_def work_ok_def
    by (cases "hm_get (all_blocks ?c) h") auto
  have sub: "hm_get (chain_work c) h = Some w" if "hm_get (chain_work ?c) h = Some w" for h w
    using that g(3) [of h] by (auto split: if_splits)
  have "work_ok (all_blocks ?c) (chain_work ?c)"
    unfolding work_ok_def
  proof (intro conjI allI impI)
    fix h b w assume "hm_get (all_blocks ?c) h = Some b" "hm_get (chain_work ?c) h = Some w"
    note old = g(1) [OF this(1)] sub [OF this(2)]
    show "w = block_work (bits (header b))" if "height b = 0"
      using assms old that by (simp add: chain_ok_def work_ok_def)
    show "unat w = unat pw + unat (block_work (bits (header b)))"
      if "height b \<noteq> 0" "hm_get (chain_work ?c) (prev_hash (header b)) = Some pw" for pw
      using assms old that(1) sub [OF that(2)] by (simp add: chain_ok_def work_ok_def)
  qed (use calculation(2) dom in auto)
  ultimately show ?thesis by (simp add: chain_ok_def)
qed

lemma prune_best:
  assumes "chain_ok X c" "tip_best X c"
  shows "tip_best X (prune_stale_orphans X c)"
proof -
  have "tip c \<in> set (blocks c)"
    using assms(1) by (simp add: chain_ok_def active_ok_def tip_def)
  then have "hm_get (chain_work (prune_stale_orphans X c)) (hash_hex X (tip c)) =
      hm_get (chain_work c) (hash_hex X (tip c))"
    using prune_gets(2,3) [OF assms(1)] by simp
  with assms(2) show ?thesis
    using prune_gets(3) [OF assms(1)] by (auto simp: tip_best_def split: if_splits)
qed

section \<open>Adding a block\<close>

lemma validated_context:
  assumes "validate_block_against_parent X now c b ph = Inr ()" "hm_get (all_blocks c) ph = Some p"
  shows "height b = height p + 1" "\<exists>ctx. parent_context X c ph = Inr ctx"
  using assms by (auto simp: validate_block_against_parent_def Let_def try_res_Inr split: if_splits)

lemma chain_context:
  assumes "chain_ok X c" "parent_context X c ph = Inr ctx"
  shows "\<exists>bs. chain_to_hash c ph = Inr bs"
  using assms parent_context_slow [OF assms(1), of ph] by (auto simp: try_res_Inr)

lemma unat_succ_height: "(h :: u64) = g + 1 \<Longrightarrow> h \<noteq> 0 \<Longrightarrow> unat h = Suc (unat g)"
  by (metis add.commute unatSuc)

text \<open>A block that passes every check, from the state after it was saved.\<close>

lemma insert_and_activate:
  assumes ok: "chain_ok X c" and new: "hm_get (all_blocks c) (hash_hex X b) = None"
    and par: "hm_get (all_blocks c) (prev_hash (header b)) = Some p"
      "unat (height b) = Suc (unat (height p))" "chain_to_hash c (prev_hash (header b)) = Inr bs"
    and wk: "hm_get (chain_work c) (prev_hash (header b)) = Some pw"
      "checked_add pw (block_work (bits (header b))) = Some w"
    and leaf: "fresh_leaf X b c"
    and cur: "hm_get (chain_work (insert_block X b w c)) (hash_hex X (tip c)) = Some t"
    and act: "(if t < w then activate_chain X (hash_hex X b) (insert_block X b w c)
               else (Inr (), insert_block X b w c)) = (r, c')"
  shows "chain_ok X c' \<and> (tip_best X c \<longrightarrow> r \<noteq> Inl MintOverflow \<longrightarrow> tip_best X c')"
proof -
  let ?c2 = "insert_block X b w c"
  have ok2: "chain_ok X ?c2" by (rule chain_ok_insert [OF ok new par(1,2) wk leaf])
  have tip2: "tip ?c2 = tip c" by (simp add: insert_block_def tip_def)
  have "hash_hex X (tip c) \<noteq> hash_hex X b" using chain_ok_tip(1) [OF ok] new by auto
  then have t: "hm_get (chain_work c) (hash_hex X (tip c)) = Some t"
    using cur by (simp add: insert_block_def)
  have works: "v \<le> max t w"
    if "tip_best X c" "hm_get (chain_work ?c2) h = Some v" for h v
    using that t by (auto simp: tip_best_def insert_block_def le_max_iff_disj split: if_splits)
  show ?thesis
  proof (cases "t < w")
    case False
    then have "c' = ?c2" using act by simp
    moreover have "tip_best X ?c2" if "tip_best X c"
      using works [OF that] cur False unfolding tip_best_def tip2
      by (auto simp: not_less max_def)
    ultimately show ?thesis using ok2 by simp
  next
    case True
    have "unat (height b) = Suc (unat (height (last bs)))"
      using par chain_to_hash_Inr(2) [OF _ par(3)] ok by (auto simp: chain_ok_def)
    then have walk: "chain_to_hash ?c2 (hash_hex X b) = Inr (bs @ [b])"
      by (rule chain_to_hash_insert [OF ok new par(3)])
    have a: "chain_ok X c'" "chain_work c' = chain_work ?c2"
      "blocks c' = bs @ [b] \<or> r = Inl MintOverflow"
      using activate_ok [OF ok2 walk, of r c'] act True by auto
    have "tip_best X c'" if "tip_best X c" "r \<noteq> Inl MintOverflow"
    proof -
      have "tip c' = b" using a(3) that(2) by (simp add: tip_def)
      moreover have "hm_get (chain_work c') (hash_hex X b) = Some w"
        using a(2) by (simp add: insert_block_def)
      moreover have "max t w = w" using True by (intro max_absorb2 less_imp_le)
      ultimately show ?thesis
        using works [OF that(1)] a(2) by (simp add: tip_best_def)
    qed
    with a(1) show ?thesis by blast
  qed
qed

text \<open>The outcomes of \<open>add_block\<close>: the block is refused or not saved, or it is stored and the chain
  is switched when the block has more work than the tip.\<close>

text \<open>The checks before the block is saved, with the work of its branch as their result.\<close>

definition candidate_work ::
  "'x block_lib_scheme \<Rightarrow> u64 \<Rightarrow> 'd blockchain \<Rightarrow> block \<Rightarrow> block \<Rightarrow> chain_err + u128" where
  "candidate_work X now c b p =
     try_res (map_err BlockInvalid (block_validate X b (hash_hex X p))) (\<lambda>_.
     try_res (validate_block_against_parent X now c b (prev_hash (header b))) (\<lambda>_.
     try_res (ok_or MissingParentWork (hm_get (chain_work c) (prev_hash (header b)))) (\<lambda>parent_work.
     ok_or WorkOverflow (checked_add parent_work (block_work (bits (header b)))))))"

lemma add_block_candidate:
  assumes "hm_get (all_blocks c) (hash_hex X b) = None" "hm_get (all_blocks c) (prev_hash (header b)) = Some p"
  shows "add_block X now b c =
    (case candidate_work X now c b p of
       Inl e \<Rightarrow> (Inl e, c)
     | Inr w \<Rightarrow> try_st (store_save_block X b c) (\<lambda>_ c1.
         let c2 = insert_block X b w c1 in
         case hm_get (chain_work c2) (hash_hex X (tip c2)) of
           None \<Rightarrow> (Inl MissingTipWork, c2)
         | Some t \<Rightarrow> try_st (if t < w then activate_chain X (hash_hex X b) c2 else (Inr (), c2))
             (\<lambda>_ c3. (Inr (), prune_stale_orphans X c3))))"
  unfolding candidate_work_def insert_block_def using assms by (simp add: add_block_def Let_def)

lemma add_block_cases:
  assumes add: "add_block X now b c = (r, c')"
  obtains (refused) s where "c' = c\<lparr>chain_store := s\<rparr>"
      "r \<noteq> Inr () \<or> hm_get (all_blocks c) (hash_hex X b) \<noteq> None"
  | (stored) p pw w s c2 where "hm_get (all_blocks c) (hash_hex X b) = None"
      "hm_get (all_blocks c) (prev_hash (header b)) = Some p"
      "block_validate X b (hash_hex X p) = Inr ()"
      "validate_block_against_parent X now c b (prev_hash (header b)) = Inr ()"
      "hm_get (chain_work c) (prev_hash (header b)) = Some pw"
      "checked_add pw (block_work (bits (header b))) = Some w"
      "c2 = insert_block X b w (c\<lparr>chain_store := s\<rparr>)"
      "(r, c') = (case hm_get (chain_work c2) (hash_hex X (tip c2)) of
         None \<Rightarrow> (Inl MissingTipWork, c2)
       | Some t \<Rightarrow> try_st (if t < w then activate_chain X (hash_hex X b) c2 else (Inr (), c2))
           (\<lambda>_ c3. (Inr (), prune_stale_orphans X c3)))"
proof (cases "hm_contains (all_blocks c) (hash_hex X b) \<or>
    \<not> hm_contains (all_blocks c) (prev_hash (header b))")
  case True
  then have "c' = c" "r \<noteq> Inr () \<or> hm_get (all_blocks c) (hash_hex X b) \<noteq> None"
    using add by (auto simp: add_block_def Let_def split: if_splits)
  then show thesis by (intro refused [of "chain_store c"]) (simp_all add: store_self)
next
  case False
  then obtain p where new: "hm_get (all_blocks c) (hash_hex X b) = None"
    and p: "hm_get (all_blocks c) (prev_hash (header b)) = Some p" by auto
  note eq = add_block_candidate [OF new p, of now]
  obtain sr c1 where sv: "store_save_block X b c = (sr, c1)" by fastforce
  then obtain s where c1: "c1 = c\<lparr>chain_store := s\<rparr>" using store_save_block_core by blast
  show thesis
  proof (cases "candidate_work X now c b p")
    case (Inl e)
    then have "c' = c" "r \<noteq> Inr ()" using add by (auto simp: eq)
    then show thesis by (intro refused [of "chain_store c"]) (simp_all add: store_self)
  next
    case (Inr w)
    then obtain pw where ok: "block_validate X b (hash_hex X p) = Inr ()"
      "validate_block_against_parent X now c b (prev_hash (header b)) = Inr ()"
      "hm_get (chain_work c) (prev_hash (header b)) = Some pw"
      "checked_add pw (block_work (bits (header b))) = Some w"
      by (auto simp: candidate_work_def try_res_Inr)
    show thesis
    proof (cases sr)
      case (Inl e)
      then have "c' = c1" "r \<noteq> Inr ()" using add Inr sv \<open>candidate_work X now c b p = Inr w\<close> by (auto simp: eq)
      then show thesis using c1 refused by blast
    next
      case (Inr u)
      then show thesis using stored [OF new p ok refl, of s] add sv \<open>candidate_work X now c b p = Inr w\<close>
        unfolding c1 by (simp add: eq Let_def)
    qed
  qed
qed

lemma add_block_ok:
  assumes ok: "chain_ok X c" and leaf: "fresh_leaf X b c" and h0: "height b \<noteq> 0"
    and add: "add_block X now b c = (r, c')"
  shows "chain_ok X c' \<and> (tip_best X c \<longrightarrow> r \<noteq> Inl MintOverflow \<longrightarrow> tip_best X c')"
  using add
proof (cases rule: add_block_cases)
  case (refused s)
  with ok show ?thesis by simp
next
  case (stored p pw w s c2)
  let ?c1 = "c\<lparr>chain_store := s\<rparr>"
  have hb: "unat (height b) = Suc (unat (height p))"
    by (rule unat_succ_height [OF validated_context(1) [OF stored(4,2)] h0])
  have "chain_to_hash ?c1 = chain_to_hash c" by (rule ext) (simp add: chain_to_hash_def)
  then obtain bs where bs: "chain_to_hash ?c1 (prev_hash (header b)) = Inr bs"
    using validated_context(2) [OF stored(4,2)] chain_context [OF ok] by metis
  have tip2: "tip c2 = tip ?c1" by (simp add: stored(7) insert_block_def tip_def)
  obtain t where t: "hm_get (chain_work c2) (hash_hex X (tip ?c1)) = Some t"
    using chain_ok_tip(3) [of X ?c1] ok by (cases "hash_hex X (tip ?c1) = hash_hex X b") (auto simp: stored(7) insert_block_def)
  obtain ar c3 where act: "(if t < w then activate_chain X (hash_hex X b) c2 else (Inr (), c2)) = (ar, c3)"
    by fastforce
  have core: "chain_ok X c3 \<and> (tip_best X ?c1 \<longrightarrow> ar \<noteq> Inl MintOverflow \<longrightarrow> tip_best X c3)"
    using stored(1,2,5) leaf ok
    by (intro insert_and_activate [OF _ _ _ hb bs _ stored(6) _ t [unfolded stored(7)] act [unfolded stored(7)]])
      (simp_all add: fresh_leaf_def)
  have "(r, c') = (case ar of Inl e \<Rightarrow> (Inl e, c3) | Inr _ \<Rightarrow> (Inr (), prune_stale_orphans X c3))"
    using stored(8) unfolding tip2 t option.case act by (cases ar) simp_all
  with core prune_ok prune_best show ?thesis by (cases ar) auto
qed

end
