(* ===== verification/Chain_Rules.thy ===== *)
theory Chain_Rules
  imports Chain_Invariants
begin

text \<open>
  What acceptance of a block means (\<open>src/blockchain/chain.rs\<close>): the checks of
  \<open>validate_block_against_parent\<close> and the subsidy rule as conditions, that the difficulty
  window never panics on a well-formed chain, that a valid block on the active tip becomes the
  tip, that the work recorded for a block is the sum over its chain, and runs of the node as
  a system of steps.
\<close>

section \<open>Fees and subsidy\<close>

lemma ex_word64: "n < 2 ^ 64 \<Longrightarrow> \<exists>f :: u64. unat f = n"
  by (intro exI [of _ "word_of_nat n"] unat_of_nat_small) simp

lemma sum_fees_Inr:
  "sum_fees X us magic h acc txs = Inr s \<longleftrightarrow>
     list_all (\<lambda>tx. tx_acceptable X tx us magic h) txs
     \<and> unat acc + sum_list (map (\<lambda>tx. inputs_total us tx - outputs_total tx) txs) < 2 ^ 64
     \<and> unat s = unat acc + sum_list (map (\<lambda>tx. inputs_total us tx - outputs_total tx) txs)"
proof (induction txs arbitrary: acc)
  case Nil
  have "unat acc < 2 ^ 64" using unsigned_less [of acc, where ?'a = nat] by simp
  then show ?case by auto
next
  case (Cons tx txs)
  let ?f = "inputs_total us tx - outputs_total tx"
  let ?S = "sum_list (map (\<lambda>tx. inputs_total us tx - outputs_total tx) txs)"
  have "sum_fees X us magic h acc (tx # txs) = Inr s \<longleftrightarrow>
      (\<exists>(fee :: u64) a. tx_acceptable X tx us magic h \<and> unat fee = ?f
        \<and> (unat acc + unat fee < 2 ^ 64 \<and> unat a = unat acc + unat fee)
        \<and> sum_fees X us magic h a txs = Inr s)"
    unfolding sum_fees.simps try_res_Inr map_err_Inr ok_or_Inr validate_tx_Inr checked_add_Inr
    by blast
  also have "\<dots> \<longleftrightarrow> tx_acceptable X tx us magic h
      \<and> list_all (\<lambda>tx. tx_acceptable X tx us magic h) txs
      \<and> unat acc + ?f + ?S < 2 ^ 64 \<and> unat s = unat acc + ?f + ?S" (is "?L \<longleftrightarrow> ?R")
  proof
    assume ?L
    then show ?R by (auto simp: Cons.IH)
  next
    assume R: ?R
    obtain fee a :: u64 where "unat fee = ?f" "unat a = unat acc + ?f"
      using R ex_word64 [of ?f] ex_word64 [of "unat acc + ?f"] by auto
    with R show ?L
      by (intro exI [of _ fee] exI [of _ a]) (simp add: Cons.IH)
  qed
  finally show ?case by (auto simp: add.assoc)
qed

definition fees_total :: "utxo_set \<Rightarrow> transaction list \<Rightarrow> nat" where
  "fees_total us txs = sum_list (map (\<lambda>tx. inputs_total us tx - outputs_total tx) txs)"

lemma max_supply: "unat MAX_SUPPLY_ARKES = 31415926 * 10 ^ 9"
  by (simp add: MAX_SUPPLY_ARKES_def MAX_SUPPLY_ARKOS_def ARKES_PER_ARKOS_def)

lemma subsidy_Inr:
  "validate_coinbase_subsidy_with_state X c b m us = Inr () \<longleftrightarrow>
     transactions b \<noteq> [] \<and> length (outputs (hd (transactions b))) \<le> 16
     \<and> list_all (\<lambda>tx. tx_acceptable X tx us (network_magic c) (height b)) (tl (transactions b))
     \<and> fees_total us (tl (transactions b)) < 2 ^ 64
     \<and> unat (coinbase_value b) \<le> min (unat (block_reward (height b))) (31415926 * 10 ^ 9 - unat m)
          + fees_total us (tl (transactions b))"
proof -
  let ?fees = "fees_total us (tl (transactions b))"
  let ?base = "min (block_reward (height b)) (saturating_sub MAX_SUPPLY_ARKES m)"
  have base: "unat ?base = min (unat (block_reward (height b))) (31415926 * 10 ^ 9 - unat m)"
    by (simp only: unat_min unat_saturating_sub max_supply)
  have cap: "\<not> saturating_add ?base f < coinbase_value b \<longleftrightarrow> unat (coinbase_value b) \<le> unat ?base + unat f"
    for f
    using unsigned_less [of "coinbase_value b", where ?'a = nat]
    by (auto simp: word_less_nat_alt unat_saturating_add not_less)
  have "validate_coinbase_subsidy_with_state X c b m us = Inr () \<longleftrightarrow>
      transactions b \<noteq> [] \<and> length (outputs (hd (transactions b))) \<le> 16
      \<and> (\<exists>f. sum_fees X us (network_magic c) (height b) 0 (tl (transactions b)) = Inr f
           \<and> \<not> saturating_add ?base f < coinbase_value b)"
    by (auto simp: validate_coinbase_subsidy_with_state_def Let_def try_res_Inr drop_Suc
        MAX_COINBASE_OUTPUTS_def not_less)
  also have "\<dots> \<longleftrightarrow> transactions b \<noteq> [] \<and> length (outputs (hd (transactions b))) \<le> 16
      \<and> list_all (\<lambda>tx. tx_acceptable X tx us (network_magic c) (height b)) (tl (transactions b))
      \<and> ?fees < 2 ^ 64
      \<and> (\<exists>f :: u64. unat f = ?fees \<and> unat (coinbase_value b) \<le> unat ?base + unat f)"
    unfolding cap sum_fees_Inr fees_total_def by auto
  also have "\<dots> \<longleftrightarrow> transactions b \<noteq> [] \<and> length (outputs (hd (transactions b))) \<le> 16
      \<and> list_all (\<lambda>tx. tx_acceptable X tx us (network_magic c) (height b)) (tl (transactions b))
      \<and> ?fees < 2 ^ 64 \<and> unat (coinbase_value b) \<le> unat ?base + ?fees"
    using ex_word64 [of ?fees] by (metis (no_types, lifting))
  finally show ?thesis unfolding base .
qed

section \<open>Validation against the parent\<close>

lemma validate_block_Inr:
  "validate_block_against_parent X now c b ph = Inr () \<longleftrightarrow>
     (\<exists>p bs us m. hm_get (all_blocks c) ph = Some p \<and> height b = height p + 1
        \<and> parent_context X c ph = Inr (bs, us, m)
        \<and> next_bits_for_blocks bs = Some (bits (header b))
        \<and> validate_timestamp (timestamp (header b)) (median_past_time_for_blocks bs) now
        \<and> validate_coinbase_subsidy_with_state X c b m us = Inr ()
        \<and> validate_transactions X (network_magic c) (height b) (tl (transactions b)) us = Inr ())"
  (is "?L \<longleftrightarrow> ?R")
proof
  assume ?L
  then show ?R
    by (auto simp: validate_block_against_parent_def Let_def try_res_Inr drop_Suc split: if_splits)
next
  assume ?R
  then obtain p bs us m where "hm_get (all_blocks c) ph = Some p" "height b = height p + 1"
    "parent_context X c ph = Inr (bs, us, m)" "next_bits_for_blocks bs = Some (bits (header b))"
    "validate_timestamp (timestamp (header b)) (median_past_time_for_blocks bs) now"
    "validate_coinbase_subsidy_with_state X c b m us = Inr ()"
    "validate_transactions X (network_magic c) (height b) (tl (transactions b)) us = Inr ()" by blast
  then show ?L by (simp add: validate_block_against_parent_def Let_def drop_Suc)
qed

lemma numbered_next_bits:
  assumes "numbered bs" "bs \<noteq> []"
  shows "next_bits_for_blocks bs \<noteq> None"
proof -
  let ?s = "unat (saturating_sub (height (last bs) + 1) DIFFICULTY_ADJUSTMENT_INTERVAL)"
  have h: "unat (height (last bs)) = length bs - 1" by (rule numbered_last [OF assms])
  have "unat (height (last bs) + 1) \<le> unat (height (last bs)) + 1"
    by (simp add: unat_word_ariths)
  then have "?s \<le> length bs - 1"
    using h by (simp add: unat_saturating_sub DIFFICULTY_ADJUSTMENT_INTERVAL_def)
  moreover have "length bs - 1 < length bs" using assms(2) by simp
  ultimately have "slice_incl bs (?s - 5) (min (?s + 5) (length bs - 1)) \<noteq> None"
    "slice_incl bs (length bs - 1 - 10) (length bs - 1) \<noteq> None"
    by (auto simp: slice_incl_def min_def)
  then show ?thesis
    using assms(2) by (auto simp: next_bits_for_blocks_def Let_def)
qed

lemma block_work_pos: "0 < unat (block_work b)"
proof -
  let ?p = "u128_of_be (take 16 (bits_to_target b))"
  have "unat (- 1 div ?p) = (2 ^ 128 - 1) div unat ?p"
    by (simp add: unat_div unat_max_word)
  moreover have "unat ?p \<le> 2 ^ 128 - 1"
    using unsigned_less [of ?p, where ?'a = nat] by simp
  moreover have "0 < unat ?p" if "?p \<noteq> 0" using that by (simp add: unat_gt_0)
  ultimately show ?thesis
    by (auto simp: block_work_def Let_def unat_max_word div_greater_zero_iff)
qed

section \<open>Extending the tip\<close>

lemma add_block_pre:
  assumes "hm_get (all_blocks c) (hash_hex X b) = None"
    "hm_get (all_blocks c) (prev_hash (header b)) = Some p"
    "block_validate X b (hash_hex X p) = Inr ()"
    "validate_block_against_parent X now c b (prev_hash (header b)) = Inr ()"
    "hm_get (chain_work c) (prev_hash (header b)) = Some pw"
    "checked_add pw (block_work (bits (header b))) = Some w"
    "store_save_block X b c = (Inr (), c1)" "c1 = c\<lparr>chain_store := s\<rparr>"
    "hm_get (chain_work c) (hash_hex X (tip c)) = Some t" "hash_hex X (tip c) \<noteq> hash_hex X b"
  shows "add_block X now b c =
    try_st (if t < w then activate_chain X (hash_hex X b) (insert_block X b w c1)
            else (Inr (), insert_block X b w c1)) (\<lambda>_ c3. (Inr (), prune_stale_orphans X c3))"
proof -
  have "add_block X now b c =
      (case hm_get (chain_work (insert_block X b w c1)) (hash_hex X (tip (insert_block X b w c1))) of
         None \<Rightarrow> (Inl MissingTipWork, insert_block X b w c1)
       | Some cur \<Rightarrow>
           try_st (if cur < w then activate_chain X (hash_hex X b) (insert_block X b w c1)
                   else (Inr (), insert_block X b w c1)) (\<lambda>_ c3. (Inr (), prune_stale_orphans X c3)))"
    unfolding insert_block_def using assms(1-7) by (simp add: add_block_def Let_def)
  moreover have "hm_get (chain_work (insert_block X b w c1)) (hash_hex X (tip (insert_block X b w c1))) =
      Some t"
    using assms(8-10) by (simp add: insert_block_def tip_def)
  ultimately show ?thesis by simp
qed

lemma replay_append:
  "replay X (bs @ cs) us m = try_res (replay X bs us m) (\<lambda>(us', m'). replay X cs us' m')"
proof (induction X bs us m rule: replay.induct)
  case (2 X b bs us minted)
  then show ?case by (cases "checked_add minted (coinbase_value b)") simp_all
qed simp

lemma prune_store: "chain_store (prune_stale_orphans X c) = chain_store c"
  by (simp add: prune_stale_orphans_def Let_def)

text \<open>The chain is in memory only, or the store accepts the blocks and every tip.\<close>

definition saves :: "('d, 'x) store_lib_scheme \<Rightarrow> 'd option \<Rightarrow> block list \<Rightarrow> bool" where
  "saves X s bs \<longleftrightarrow> s = None
   \<or> (\<forall>d. (\<forall>b \<in> set bs. fst (save_block X b d) = Inr ()) \<and> (\<forall>h. fst (save_tip X h d) = Inr ()))"

lemma saves_block:
  assumes "saves X (chain_store c) bs" "b \<in> set bs"
  obtains s where "store_save_block X b c = (Inr (), c\<lparr>chain_store := s\<rparr>)" "saves X s bs"
proof (cases "chain_store c")
  case None
  then have "c\<lparr>chain_store := None\<rparr> = c" by simp
  with None show ?thesis by (intro that [of None]) (simp_all add: store_save_block_def saves_def)
next
  case (Some d)
  then obtain d' where "save_block X b d = (Inr (), d')"
    using assms by (auto simp: saves_def) (metis prod.collapse)
  with Some assms(1) show ?thesis
    by (intro that [of "Some d'"]) (simp_all add: store_save_block_def saves_def)
qed

lemma saves_blocks:
  assumes "saves X (chain_store c) cs" "set bs \<subseteq> set cs"
  shows "\<exists>s. store_save_blocks X bs c = (Inr (), c\<lparr>chain_store := s\<rparr>) \<and> saves X s cs"
  using assms
proof (induction bs arbitrary: c)
  case Nil
  then show ?case by (auto simp: intro: exI [of _ "chain_store c"])
next
  case (Cons b bs)
  then obtain s where s: "store_save_block X b c = (Inr (), c\<lparr>chain_store := s\<rparr>)" "saves X s cs"
    using saves_block [of X c cs b] by auto
  with Cons.IH [of "c\<lparr>chain_store := s\<rparr>"] Cons.prems(2) show ?case by auto
qed

lemma saves_tip:
  assumes "saves X (chain_store c) bs"
  shows "\<exists>s. store_save_tip X h c = (Inr (), c\<lparr>chain_store := s\<rparr>) \<and> saves X s bs"
proof (cases "chain_store c")
  case None
  then have "c\<lparr>chain_store := None\<rparr> = c" by simp
  with None show ?thesis by (intro exI [of _ None]) (simp_all add: store_save_tip_def saves_def)
next
  case (Some d)
  then obtain d' where "save_tip X h d = (Inr (), d')"
    using assms by (auto simp: saves_def) (metis prod.collapse)
  with Some assms show ?thesis
    by (intro exI [of _ "Some d'"]) (simp_all add: store_save_tip_def saves_def)
qed

lemma activate_saves:
  assumes "chain_to_hash c h = Inr bs" "bs \<noteq> []" "rebuild_active_state X bs c = (Inr (), c1)"
    "saves X (chain_store c1) cs" "set (blocks c1) \<subseteq> set cs"
  obtains s where "activate_chain X h c = (Inr (), c1\<lparr>chain_store := s\<rparr>)" "saves X s cs"
proof -
  obtain s2 where s2: "store_save_blocks X (blocks c1) c1 = (Inr (), c1\<lparr>chain_store := s2\<rparr>)"
    "saves X s2 cs"
    using saves_blocks [OF assms(4,5)] by auto
  with saves_tip [of X "c1\<lparr>chain_store := s2\<rparr>" cs "hash_hex X (tip (c1\<lparr>chain_store := s2\<rparr>))"]
  show thesis using assms(1-3) that by (auto simp: activate_chain_def)
qed

text \<open>The pool after a switch: without the transactions of the new chain.\<close>

definition pool_purge :: "'x tx_lib_scheme \<Rightarrow> block list \<Rightarrow> mempool \<Rightarrow> mempool" where
  "pool_purge X bs = fold (\<lambda>b. fold (\<lambda>tx. pool_remove X (txid_hex X tx)) (transactions b)) bs"

lemma rebuild_loop_pool:
  "fst (rebuild_loop X n bs idx m us mp) = Inr (idx', m', us') \<Longrightarrow>
     snd (rebuild_loop X n bs idx m us mp) = pool_purge X bs mp"
  by (induction X n bs idx m us mp rule: rebuild_loop.induct)
    (auto simp: pool_purge_def Let_def split: option.splits)

lemma rebuild_Inr:
  assumes "replay X bs utxo_default 0 = Inr (us, m)"
  shows "\<exists>c1. rebuild_active_state X bs c = (Inr (), c1) \<and> blocks c1 = bs \<and> chain_utxos c1 = us
    \<and> total_minted c1 = m \<and> chain_store c1 = chain_store c
    \<and> chain_mempool c1 = pool_purge X bs (chain_mempool c)"
proof -
  obtain lr mp where l: "rebuild_loop X 0 bs [] 0 utxo_default (chain_mempool c) = (lr, mp)"
    by fastforce
  then obtain idx where "lr = Inr (idx, m, us)"
    using rebuild_loop_replay [of X 0 bs "[]" 0 utxo_default "chain_mempool c"] assms by simp
  with l rebuild_loop_pool [of X 0 bs "[]" 0 utxo_default "chain_mempool c" idx m us]
  show ?thesis by (simp add: rebuild_active_state_def)
qed

text \<open>
  A block that passes the checks on the active tip becomes the tip, and the state is that of
  the chain extended by it, provided the store accepts it.
\<close>

lemma extend_tip_full:
  assumes ok: "chain_ok X c" and mem: "saves X (chain_store c) cs" "set (blocks c @ [b]) \<subseteq> set cs"
    and new: "hm_get (all_blocks c) (hash_hex X b) = None"
    and par: "prev_hash (header b) = hash_hex X (tip c)" and h0: "height b \<noteq> 0"
    and val: "block_validate X b (hash_hex X (tip c)) = Inr ()"
      "validate_block_against_parent X now c b (hash_hex X (tip c)) = Inr ()"
    and wk: "hm_get (chain_work c) (hash_hex X (tip c)) = Some t"
      "checked_add t (block_work (bits (header b))) = Some w"
    and mint: "checked_add (total_minted c) (coinbase_value b) = Some m"
  shows "\<exists>c'. add_block X now b c = (Inr (), c') \<and> blocks c' = blocks c @ [b]
    \<and> chain_utxos c' = apply_block X b (chain_utxos c) \<and> total_minted c' = m
    \<and> saves X (chain_store c') cs
    \<and> chain_mempool c' = pool_purge X (blocks c @ [b]) (chain_mempool c)"
proof -
  obtain s where s: "store_save_block X b c = (Inr (), c\<lparr>chain_store := s\<rparr>)" "saves X s cs"
    using saves_block [OF mem(1), of b] mem(2) by auto
  let ?c1 = "c\<lparr>chain_store := s\<rparr>"
  let ?c2 = "insert_block X b w ?c1"
  note g = chain_ok_tip(1) [OF ok]
  have ne: "hash_hex X (tip c) \<noteq> hash_hex X b" using g new by auto
  have "unat (height b) = Suc (unat (height (tip c)))"
    by (rule unat_succ_height [OF validated_context(1) [OF val(2) g] h0])
  then have walk: "chain_to_hash ?c2 (hash_hex X b) = Inr (blocks c @ [b])"
    using chain_to_hash_insert [of X ?c1 b "blocks c" w] chain_to_hash_tip [OF ok] ok new
      chain_to_hash_tip [of X ?c1]
    by (simp add: par tip_def)
  have "replay X (blocks c @ [b]) utxo_default 0 = Inr (apply_block X b (chain_utxos c), m)"
    using ok mint by (simp add: chain_ok_def active_ok_def replay_append)
  then obtain c1 where c1: "rebuild_active_state X (blocks c @ [b]) ?c2 = (Inr (), c1)"
    "blocks c1 = blocks c @ [b]" "chain_utxos c1 = apply_block X b (chain_utxos c)"
    "total_minted c1 = m" "chain_store c1 = chain_store ?c2"
    "chain_mempool c1 = pool_purge X (blocks c @ [b]) (chain_mempool ?c2)"
    using rebuild_Inr by blast
  obtain s' where "activate_chain X (hash_hex X b) ?c2 = (Inr (), c1\<lparr>chain_store := s'\<rparr>)"
    and s': "saves X s' cs"
    by (rule activate_saves [OF walk _ c1(1), of cs]) (use s(2) c1(2,5) mem(2) in \<open>simp_all add: insert_block_def\<close>)
  moreover have "t < w"
    using checked_add_SomeD [OF wk(2)] block_work_pos [of "bits (header b)"]
    by (simp add: word_less_nat_alt)
  ultimately have "add_block X now b c = (Inr (), prune_stale_orphans X (c1\<lparr>chain_store := s'\<rparr>))"
    using add_block_pre [OF new _ val(1) _ _ wk(2) s(1) refl wk(1) ne] par g val(2) wk(1) by simp
  moreover have "chain_mempool (prune_stale_orphans X (c1\<lparr>chain_store := s'\<rparr>)) = chain_mempool c1"
    by (simp add: prune_stale_orphans_def Let_def)
  ultimately show ?thesis using c1 s' by (simp add: prune_store insert_block_def)
qed

lemma extend_tip_saving:
  assumes "chain_ok X c" "saves X (chain_store c) cs" "set (blocks c @ [b]) \<subseteq> set cs"
    and "hm_get (all_blocks c) (hash_hex X b) = None"
    and "prev_hash (header b) = hash_hex X (tip c)" "height b \<noteq> 0"
    and "block_validate X b (hash_hex X (tip c)) = Inr ()"
      "validate_block_against_parent X now c b (hash_hex X (tip c)) = Inr ()"
    and "hm_get (chain_work c) (hash_hex X (tip c)) = Some t"
      "checked_add t (block_work (bits (header b))) = Some w"
    and "checked_add (total_minted c) (coinbase_value b) = Some m"
  shows "\<exists>c'. add_block X now b c = (Inr (), c') \<and> blocks c' = blocks c @ [b]
    \<and> chain_utxos c' = apply_block X b (chain_utxos c) \<and> total_minted c' = m
    \<and> saves X (chain_store c') cs"
  using extend_tip_full [OF assms] by blast

lemma extend_tip:
  assumes "chain_ok X c" "chain_store c = None"
    and "hm_get (all_blocks c) (hash_hex X b) = None"
    and "prev_hash (header b) = hash_hex X (tip c)" "height b \<noteq> 0"
    and "block_validate X b (hash_hex X (tip c)) = Inr ()"
      "validate_block_against_parent X now c b (hash_hex X (tip c)) = Inr ()"
    and "hm_get (chain_work c) (hash_hex X (tip c)) = Some t"
      "checked_add t (block_work (bits (header b))) = Some w"
    and "checked_add (total_minted c) (coinbase_value b) = Some m"
  shows "\<exists>c'. add_block X now b c = (Inr (), c') \<and> blocks c' = blocks c @ [b]
    \<and> chain_utxos c' = apply_block X b (chain_utxos c) \<and> total_minted c' = m"
  using extend_tip_saving [OF assms(1) _ subset_refl assms(3-10)] assms(2) by (auto simp: saves_def)

section \<open>Work\<close>

lemma work_sum:
  assumes "work_ok all work" "all_ok X all"
  shows "stored X all bs \<Longrightarrow> numbered bs \<Longrightarrow> linked X bs \<Longrightarrow> bs \<noteq> [] \<Longrightarrow>
    \<exists>w. hm_get work (hash_hex X (last bs)) = Some w
      \<and> unat w = sum_list (map (\<lambda>b. unat (block_work (bits (header b)))) bs)"
proof (induction bs rule: rev_induct)
  case Nil
  then show ?case by simp
next
  case (snoc b bs)
  have get: "hm_get all (hash_hex X b) = Some b" and st: "stored X all bs"
    using snoc.prems(1) by (auto simp: stored_def)
  then obtain w where w: "hm_get work (hash_hex X b) = Some w"
    using assms(1) unfolding work_ok_def by fastforce
  have nb: "numbered bs" "unat (height b) = length bs"
    using snoc.prems(2) by (simp_all add: numbered_append1)
  show ?case
  proof (cases "bs = []")
    case True
    then have "height b = 0" using nb by (simp add: unat_eq_0)
    then show ?thesis using assms(1) get w True by (auto simp: work_ok_def)
  next
    case False
    then have "height b \<noteq> 0" using nb by auto
    moreover have link: "prev_hash (header b) = hash_hex X (last bs)" "linked X bs"
      using snoc.prems(3) False by (simp_all add: linked_append1)
    obtain pw where pw: "hm_get work (hash_hex X (last bs)) = Some pw"
      "unat pw = sum_list (map (\<lambda>b. unat (block_work (bits (header b)))) bs)"
      using snoc.IH [OF st nb(1) link(2) False] by blast
    ultimately have "unat w = unat pw + unat (block_work (bits (header b)))"
      using assms(1) get w link(1) unfolding work_ok_def by metis
    with w pw(2) show ?thesis by simp
  qed
qed

lemma best_chain_work:
  assumes "chain_ok X c" "tip_best X c" "chain_to_hash c h = Inr bs"
  shows "sum_list (map (\<lambda>b. unat (block_work (bits (header b)))) bs)
    \<le> sum_list (map (\<lambda>b. unat (block_work (bits (header b)))) (blocks c))"
proof -
  have ok: "work_ok (all_blocks c) (chain_work c)" "all_ok X (all_blocks c)" "active_ok X c"
    using assms(1) by (auto simp: chain_ok_def)
  note bs = chain_to_hash_Inr [OF ok(2) assms(3)]
  obtain w where w: "hm_get (chain_work c) (hash_hex X (last bs)) = Some w"
    "unat w = sum_list (map (\<lambda>b. unat (block_work (bits (header b)))) bs)"
    using work_sum [OF ok(1,2) bs(5,3,4,1)] by blast
  obtain t where t: "hm_get (chain_work c) (hash_hex X (tip c)) = Some t"
    "unat t = sum_list (map (\<lambda>b. unat (block_work (bits (header b)))) (blocks c))"
    using work_sum [OF ok(1,2), of "blocks c"] ok(3) by (auto simp: active_ok_def tip_def)
  have "w \<le> t" using assms(2) w(1) t(1) by (auto simp: tip_best_def)
  with w(2) t(2) show ?thesis by (simp add: word_le_nat_alt)
qed

section \<open>Runs\<close>

text \<open>The steps of a node on its chain: a block or a transaction arrives. A block of height 0
  other than the genesis block could only follow one of height \<open>2^64 - 1\<close>.\<close>

inductive chain_step :: "('d, 'x) store_lib_scheme \<Rightarrow> 'd blockchain \<Rightarrow> 'd blockchain \<Rightarrow> bool" for X
where
  block_arrives: "fresh_leaf X b c \<Longrightarrow> height b \<noteq> 0 \<Longrightarrow> add_block X now b c = (r, c') \<Longrightarrow>
     r \<noteq> Inl MintOverflow \<Longrightarrow> chain_step X c c'"
| tx_arrives: "submit_transaction X tx c = (sr, c') \<Longrightarrow> chain_step X c c'"

inductive_cases chain_stepE: "chain_step X c c'"

lemma submit_core: "submit_transaction X tx c = (r, c') \<Longrightarrow> \<exists>mp. c' = c\<lparr>chain_mempool := mp\<rparr>"
proof -
  have "\<exists>mp. c = c\<lparr>chain_mempool := mp\<rparr>"
    by (rule exI [of _ "chain_mempool c"]) (cases c, simp)
  then show "submit_transaction X tx c = (r, c') \<Longrightarrow> ?thesis"
    by (auto simp: submit_transaction_def split: sum.splits prod.splits)
qed

definition fresh_chain :: "'x tx_lib_scheme \<Rightarrow> 'd blockchain \<Rightarrow> bool" where
  "fresh_chain X c \<longleftrightarrow> (\<exists>g s magic. height g = 0 \<and> c = from_genesis_with_magic X g s magic)"

interpretation node: guarded_system "fresh_chain X" "chain_step X"
  "\<lambda>c. chain_ok X c \<and> tip_best X c" for X
proof
  show "fresh_chain X c \<Longrightarrow> chain_ok X c \<and> tip_best X c" for c
    by (auto simp: fresh_chain_def chain_ok_genesis)
  fix c c'
  assume "chain_step X c c'" and inv: "chain_ok X c \<and> tip_best X c"
  then show "chain_ok X c' \<and> tip_best X c'"
  proof (elim chain_stepE)
    fix b now r
    assume "fresh_leaf X b c" "height b \<noteq> 0" "add_block X now b c = (r, c')" "r \<noteq> Inl MintOverflow"
    then show ?thesis using add_block_ok [of X c b now r c'] inv by simp
  next
    fix tx sr assume "submit_transaction X tx c = (sr, c')"
    from submit_core [OF this] inv show ?thesis by auto
  qed
qed

section \<open>Mining on the own chain\<close>

lemma mined_block_fields:
  assumes "mine_block X now a c = Some b"
  shows "next_bits c = Some (bits (header b))"
    "prev_hash (header b) = hash_hex X (tip c)" "height b = height (tip c) + 1"
    "transactions b = coinbase a (saturating_add (capped_block_reward c (height b))
       (foldl (\<lambda>acc tx. saturating_add acc (fee_for (chain_mempool c) (txid_hex X tx))) 0
          (pool_take X (chain_mempool c) 500))) (height b) # pool_take X (chain_mempool c) 500"
    "merkle_root X (transactions b) = hdr_merkle_root (header b)" "meets_target X (header b)"
  using assms by (auto simp: mine_block_def Let_def dest: mined_fields split: option.splits)

lemma mined_block_shape:
  assumes "mine_block X now a c = Some b" "chain_mempool c = mempool_new"
  shows "\<exists>nb. next_bits c = Some nb \<and> bits (header b) = nb"
    "prev_hash (header b) = hash_hex X (tip c)" "height b = height (tip c) + 1"
    "transactions b = [coinbase a (capped_block_reward c (height (tip c) + 1)) (height (tip c) + 1)]"
    "hdr_merkle_root (header b) = merkle_root X (transactions b)" "meets_target X (header b)"
proof -
  have "pool_take X mempool_new 500 = []" by (simp add: pool_take_def mempool_new_def sort_by_def)
  moreover have "saturating_add r 0 = r" for r :: u64
    using unsigned_less [of r, where ?'a = nat] by (simp add: saturating_add_def)
  ultimately show "\<exists>nb. next_bits c = Some nb \<and> bits (header b) = nb"
    "prev_hash (header b) = hash_hex X (tip c)" "height b = height (tip c) + 1"
    "transactions b = [coinbase a (capped_block_reward c (height (tip c) + 1)) (height (tip c) + 1)]"
    "hdr_merkle_root (header b) = merkle_root X (transactions b)" "meets_target X (header b)"
    using mined_block_fields [OF assms(1)] assms(2) by (auto simp: mempool_new_def)
qed

lemma coinbase_first_value:
  "transactions b = coinbase a r h # txs \<Longrightarrow> coinbase_value b = r"
  using unsigned_less [of r, where ?'a = nat]
  by (simp add: coinbase_value_def p2pkh_output_def checked_add_def)

lemma coinbase_only_value:
  "transactions b = [coinbase a r h] \<Longrightarrow> coinbase_value b = r"
  by (rule coinbase_first_value)

text \<open>
  A block on the tip that pays its miner at most the capped reward and the fees and carries transactions acceptable
  to the chain passes all checks.
\<close>

lemma tip_block_valid:
  assumes ok: "chain_ok X c"
    and place: "prev_hash (header b) = hash_hex X (tip c)" "height b = height (tip c) + 1"
      "next_bits c = Some (bits (header b))"
    and txs: "transactions b = coinbase a r (height b) # txs"
      "merkle_root X (transactions b) = hdr_merkle_root (header b)"
    and pow: "meets_target X (header b)"
    and size: "length txs < MAX_BLOCK_TRANSACTIONS" "block_bytes X b \<le> MAX_BLOCK_BYTES"
      "block_utxo_ops b \<le> MAX_BLOCK_UTXO_OPS"
    and ts: "validate_timestamp (timestamp (header b)) (median_past_time c) now"
    and sel: "list_all (\<lambda>tx. tx_acceptable X tx (chain_utxos c) (network_magic c) (height b)) txs"
      "fees_total (chain_utxos c) txs < 2 ^ 64"
      "validate_transactions X (network_magic c) (height b) txs (chain_utxos c) = Inr ()"
    and pay: "unat r \<le> unat (capped_block_reward c (height b)) + fees_total (chain_utxos c) txs"
  shows "block_validate X b (hash_hex X (tip c)) = Inr ()"
    and "validate_block_against_parent X now c b (hash_hex X (tip c)) = Inr ()"
proof -
  show "block_validate X b (hash_hex X (tip c)) = Inr ()"
    using place txs pow size by (simp add: block_validate_def not_less)
  have "unat (capped_block_reward c (height b)) \<le>
      min (unat (block_reward (height b))) (31415926 * 10 ^ 9 - unat (total_minted c))"
    by (simp only: capped_block_reward_def remaining_supply_def unat_min unat_saturating_sub max_supply)
  then have "validate_coinbase_subsidy_with_state X c b (total_minted c) (chain_utxos c) = Inr ()"
    unfolding subsidy_Inr using txs(1) sel coinbase_first_value [OF txs(1)] pay
    by (simp del: min.bounded_iff)
  moreover have "parent_context X c (hash_hex X (tip c)) = Inr (blocks c, chain_utxos c, total_minted c)"
    by (simp add: parent_context_def)
  ultimately show "validate_block_against_parent X now c b (hash_hex X (tip c)) = Inr ()"
    unfolding validate_block_Inr
    using chain_ok_tip(1) [OF ok] place ts txs(1) sel(3) by (auto simp: next_bits_def median_past_time_def)
qed

lemma mined_block_valid:
  assumes ok: "chain_ok X c" and mine: "mine_block X now a c = Some b"
    and pool: "chain_mempool c = mempool_new"
    and size: "block_bytes X b \<le> MAX_BLOCK_BYTES"
    and ts: "validate_timestamp (timestamp (header b)) (median_past_time c) now"
  shows "block_validate X b (hash_hex X (tip c)) = Inr ()"
    and "validate_block_against_parent X now c b (hash_hex X (tip c)) = Inr ()"
proof -
  note sh = mined_block_shape [OF mine pool]
  have txs: "transactions b = [coinbase a (capped_block_reward c (height b)) (height b)]"
    using sh(3,4) by simp
  have nb: "next_bits c = Some (bits (header b))" using sh(1) by auto
  have "block_utxo_ops b \<le> MAX_BLOCK_UTXO_OPS"
    unfolding block_utxo_ops_def txs by (simp add: MAX_BLOCK_UTXO_OPS_def) (simp add: coinbase_def)
  then show "block_validate X b (hash_hex X (tip c)) = Inr ()"
    "validate_block_against_parent X now c b (hash_hex X (tip c)) = Inr ()"
    using tip_block_valid [OF ok sh(2,3) nb txs _ sh(6) _ size _ ts] sh(5)
    by (simp_all add: MAX_BLOCK_TRANSACTIONS_def fees_total_def)
qed

end
