(* ===== verification/Chain_Properties.thy ===== *)
theory Chain_Properties
  imports Chain_Rules
begin

text \<open>
  The properties of the block chain (\<open>src/blockchain/chain.rs\<close>), each with a witness on a
  concrete chain: the regtest genesis block of the executable library and one block mined on
  it.
\<close>

section \<open>A concrete chain\<close>

text \<open>The regtest genesis block of the library of the witnesses, and one block mined on it.\<close>

lemma block_work_value:
  "unat (block_work b) = (let p = be_nat (bits_to_target b) div 2 ^ 128 in
     if p = 0 then 2 ^ 128 - 1 else (2 ^ 128 - 1) div p)"
proof -
  let ?t = "bits_to_target b"
  have "be_nat ?t = be_nat (take 16 ?t @ drop 16 ?t)" by simp
  also have "\<dots> = be_nat (take 16 ?t) * 256 ^ 16 + be_nat (drop 16 ?t)"
    by (subst be_nat_append) simp
  finally have eq: "be_nat ?t = be_nat (take 16 ?t) * 256 ^ 16 + be_nat (drop 16 ?t)" .
  have "be_nat (drop 16 ?t) < 256 ^ 16" using be_nat_bound [of "drop 16 ?t"] by simp
  then have "be_nat ?t div 256 ^ 16 = be_nat (take 16 ?t)" unfolding eq by simp
  moreover have "be_nat (take 16 ?t) < 256 ^ 16" using be_nat_bound [of "take 16 ?t"] by simp
  ultimately have p: "unat (u128_of_be (take 16 ?t)) = be_nat ?t div 2 ^ 128"
    by (simp add: u128_of_be_def unat_of_nat)
  have "u128_of_be (take 16 ?t) = 0 \<longleftrightarrow> be_nat ?t div 2 ^ 128 = 0"
    using p by (metis unat_0 unat_eq_zero)
  then show ?thesis
    unfolding block_work_def Let_def using p by (simp add: unat_div unat_max_word)
qed

lemma regtest_work: "unat (block_work 0x207fffff) = 2"
  by (simp add: block_work_value bits_to_target_value bits_exp_div bits_mantissa_mod)

definition demo_cb :: transaction where
  "demo_cb = coinbase (replicate 40 (CHR ''0'')) (block_reward 0) 0"

definition demo_gen :: block where
  "demo_gen = \<lparr>header = \<lparr>hdr_version = 1, prev_hash = zero_hash,
     hdr_merkle_root = merkle_root demo_block_lib [demo_cb], timestamp = 1700000000,
     bits = 0x207fffff, nonce = 0\<rparr>, transactions = [demo_cb], height = 0\<rparr>"

abbreviation demo_lib :: "(bytes \<Rightarrow> bytes option) store_lib" where
  "demo_lib \<equiv> demo_store_lib demo_gen"

definition demo_chain :: "(bytes \<Rightarrow> bytes option) blockchain" where
  "demo_chain = from_genesis demo_lib demo_gen None"

lemma demo_lib_sha: "lib_sha256 demo_lib = demo_sha"
  by (simp add: demo_store_lib_defs)

lemma demo_hash_nth:
  assumes "lib_sha256 X = demo_sha" "i < 30" "i < length d"
  shows "hash256 X d ! i = d ! i"
proof -
  have "demo_sha d ! i = d ! i" if "i < length d" for d
    using assms(2) that by (simp add: demo_sha_def nth_append)
  then show ?thesis using assms by (simp add: hash256_def)
qed

lemma demo_prev_bytes:
  "length h = 32 \<Longrightarrow> hex_32_or_bytes demo_lib (demo_hex_encode h) = h"
  by (simp add: hex_32_or_bytes_def Let_def demo_store_lib_defs demo_hex_roundtrip)

lemma demo_hash_bytes:
  assumes "hdr_version h = 1" "prev_hash h = demo_hex_encode p" "length p = 32"
  shows "header_hash demo_lib h ! 0 = 1" "header_hash demo_lib h ! 4 = p ! 0"
proof -
  have v: "u32_le 1 = [1, 0, 0, 0]" by (simp add: u32_le_def nat_le_numeral)
  have pw: "pow_bytes demo_lib h = [1, 0, 0, 0] @ p @ hex_32_or_bytes demo_lib (hdr_merkle_root h)
      @ u64_le (timestamp h) @ u32_le (bits h) @ u64_le (nonce h) @ [0]"
    using assms by (simp add: pow_bytes_def demo_prev_bytes v)
  have len: "4 < length (pow_bytes demo_lib h)" unfolding pw using assms(3) by simp
  have "pow_bytes demo_lib h ! 0 = 1" "pow_bytes demo_lib h ! 4 = p ! 0"
    unfolding pw using assms(3) by (simp_all add: nth_append)
  then show "header_hash demo_lib h ! 0 = 1" "header_hash demo_lib h ! 4 = p ! 0"
    using demo_hash_nth [OF demo_lib_sha, of 0 "pow_bytes demo_lib h"]
      demo_hash_nth [OF demo_lib_sha, of 4 "pow_bytes demo_lib h"] len less_trans [OF _ len, of 0]
    by (simp_all add: header_hash_def del: length_greater_0_conv)
qed

lemma demo_gen_hash:
  "hash_hex demo_lib demo_gen = demo_hex_encode (header_hash demo_lib (header demo_gen))"
  "length (header_hash demo_lib (header demo_gen)) = 32"
  "header_hash demo_lib (header demo_gen) ! 0 = 1" "header_hash demo_lib (header demo_gen) ! 4 = 0"
  using demo_hash_bytes [of "header demo_gen" "replicate 32 0"]
    length_hash256 [OF demo_store_lib_ok(1)]
  by (simp_all add: hash_hex_def header_hash_hex_def hash_to_hex_def demo_gen_def zero_hash_hex
      header_hash_def) (simp_all add: demo_store_lib_defs)

lemma demo_chain_ok: "chain_ok demo_lib demo_chain" "tip_best demo_lib demo_chain"
  "fresh_chain demo_lib demo_chain"
proof -
  have "height demo_gen = 0" by (simp add: demo_gen_def)
  then show "chain_ok demo_lib demo_chain" "tip_best demo_lib demo_chain" "fresh_chain demo_lib demo_chain"
    unfolding demo_chain_def from_genesis_def fresh_chain_def by (auto simp: chain_ok_genesis)
qed

lemma demo_chain_fields:
  "tip demo_chain = demo_gen" "blocks demo_chain = [demo_gen]" "chain_store demo_chain = None"
  "chain_mempool demo_chain = mempool_new" "total_minted demo_chain = block_reward 0"
  "hm_get (all_blocks demo_chain) h = (if h = hash_hex demo_lib demo_gen then Some demo_gen else None)"
  "hm_get (chain_work demo_chain) (hash_hex demo_lib demo_gen) = Some (block_work 0x207fffff)"
  "median_past_time demo_chain = 1700000000" "next_bits demo_chain = Some 0x207fffff"
  using coinbase_only_value [of demo_gen "replicate 40 (CHR ''0'')" "block_reward 0" 0]
  by (simp_all add: demo_chain_def from_genesis_def from_genesis_with_magic_def Let_def tip_def
      demo_gen_def demo_cb_def median_past_time_def median_past_time_for_blocks_def next_bits_def
      next_bits_for_blocks_def DIFFICULTY_ADJUSTMENT_INTERVAL_def)

definition demo_next :: block where
  "demo_next = (let txs = [coinbase ''ab'' (capped_block_reward demo_chain 1) 1] in
     \<lparr>header = \<lparr>hdr_version = 1, prev_hash = hash_hex demo_lib demo_gen,
       hdr_merkle_root = merkle_root demo_lib txs, timestamp = 1700000100, bits = 0x207fffff,
       nonce = 0\<rparr>, transactions = txs, height = 1\<rparr>)"

lemma demo_hash_eq: "hash_hex (demo_store_lib g) = hash_hex demo_block_lib"
  "merkle_root (demo_store_lib g) [tx] = merkle_root demo_block_lib [tx]"
proof -
  have sha: "lib_sha256 (demo_store_lib g) = lib_sha256 demo_block_lib"
    "lib_hex_encode (demo_store_lib g) = lib_hex_encode demo_block_lib"
    "lib_hex_decode (demo_store_lib g) = lib_hex_decode demo_block_lib"
    by (simp_all add: demo_store_lib_defs)
  show "hash_hex (demo_store_lib g) = hash_hex demo_block_lib"
    by (simp add: fun_eq_iff hash_hex_def header_hash_hex_def hash_to_hex_def header_hash_def hash256_def
        pow_bytes_def hex_32_or_bytes_def Let_def sha)
  show "merkle_root (demo_store_lib g) [tx] = merkle_root demo_block_lib [tx]"
    by (simp add: merkle_root_def hash_to_hex_def merkle_loop.simps txid_def hash256_def sha, simp add: demo_store_lib_defs)
qed

lemma demo_next_child: "demo_next = demo_child demo_gen"
proof -
  have "unat (block_reward 1) \<le> 31415926 * 10 ^ 9 - unat (block_reward 0)" by (simp add: unat_block_reward)
  then have "capped_block_reward demo_chain 1 = block_reward 1"
    by (simp add: capped_block_reward_def remaining_supply_def demo_chain_fields min_def word_le_nat_alt
        unat_saturating_sub max_supply)
  then show ?thesis by (simp add: demo_next_def demo_child_def demo_hash_eq)
qed

lemma demo_mined: "mine_block demo_lib 1700000100 ''ab'' demo_chain = Some demo_next"
proof -
  have "meets_target demo_lib (header demo_next)"
    by (rule sha_demo_meets) (simp_all add: demo_lib_sha demo_next_def Let_def)
  then have m: "mine_block_header demo_lib (header demo_next) = Some (header demo_next)"
    by (simp add: mine_block_header.simps)
  have "saturating_add r 0 = r" for r :: u64
    using unsigned_less [of r, where ?'a = nat] by (simp add: saturating_add_def)
  moreover have "height demo_gen = 0" by (simp add: demo_gen_def)
  ultimately show ?thesis
    using m by (simp add: mine_block_def demo_chain_fields pool_take_def mempool_new_def sort_by_def
        next_block_timestamp_def demo_next_def Let_def)
qed

lemma demo_next_hash: "hash_hex demo_lib demo_next \<noteq> hash_hex demo_lib demo_gen"
  "hash_hex demo_lib demo_next \<noteq> zero_hash"
proof -
  let ?h = "header_hash demo_lib (header demo_next)"
  have hx: "hash_hex demo_lib demo_next = demo_hex_encode ?h"
    by (simp add: hash_hex_def header_hash_hex_def hash_to_hex_def) (simp add: demo_store_lib_defs)
  have "?h ! 0 = 1" "?h ! 4 = 1"
    using demo_hash_bytes [of "header demo_next" "header_hash demo_lib (header demo_gen)"] demo_gen_hash
    by (simp_all add: demo_next_def Let_def)
  moreover have inj: "demo_hex_encode a = demo_hex_encode b \<Longrightarrow> a = b" for a b
    by (metis demo_hex_roundtrip option.inject)
  ultimately show "hash_hex demo_lib demo_next \<noteq> hash_hex demo_lib demo_gen"
    "hash_hex demo_lib demo_next \<noteq> zero_hash"
    using demo_gen_hash(1,4) unfolding hx zero_hash_hex by (auto dest!: inj)
qed

lemma demo_next_leaf: "fresh_leaf demo_lib demo_next demo_chain" "height demo_next \<noteq> 0"
  using demo_next_hash by (auto simp: fresh_leaf_def demo_chain_fields demo_next_def Let_def demo_gen_def
      split: if_splits)

lemma demo_next_fits:
  "block_bytes demo_lib demo_next \<le> MAX_BLOCK_BYTES"
  "validate_timestamp (timestamp (header demo_next)) (median_past_time demo_chain) 1700000100"
  "\<exists>w. checked_add (block_work 0x207fffff) (block_work (bits (header demo_next))) = Some w"
  "\<exists>m. checked_add (total_minted demo_chain) (coinbase_value demo_next) = Some m"
proof -
  show "block_bytes demo_lib demo_next \<le> MAX_BLOCK_BYTES"
    by (simp add: block_bytes_def MAX_BLOCK_BYTES_def demo_store_lib_defs)
  show "validate_timestamp (timestamp (header demo_next)) (median_past_time demo_chain) 1700000100"
    by (simp add: validate_timestamp_def demo_chain_fields demo_next_def Let_def)
  show "\<exists>w. checked_add (block_work 0x207fffff) (block_work (bits (header demo_next))) = Some w"
    by (simp add: checked_add_def regtest_work demo_next_def Let_def)
  have v: "coinbase_value demo_next = capped_block_reward demo_chain 1"
    by (rule coinbase_only_value) (simp add: demo_next_def Let_def)
  have "unat (capped_block_reward demo_chain 1) \<le> unat (block_reward 1)"
    by (simp add: capped_block_reward_def unat_min)
  then have "unat (block_reward 0) + unat (capped_block_reward demo_chain 1) < 2 ^ 64"
    by (simp add: unat_block_reward)
  then show "\<exists>m. checked_add (total_minted demo_chain) (coinbase_value demo_next) = Some m"
    by (simp add: checked_add_def v demo_chain_fields)
qed

section \<open>Properties\<close>

text \<open>C1: \<open>add_block\<close> keeps the invariant of the chain on every outcome, errors included: the active
  chain stays numbered from 0, linked by hashes, stored and indexed, the unspent outputs and the
  minted total are those of its replay, and every stored block has its accumulated work. (The
  block is not the missing parent of a stored one, and its height is not 0.)\<close>

theorem add_block_keeps_invariant:
  assumes "chain_ok X c" "fresh_leaf X b c" "height b \<noteq> 0"
  shows "chain_ok X (snd (add_block X now b c))"
  using add_block_ok [OF assms, of now "fst (add_block X now b c)" "snd (add_block X now b c)"] by simp

theorem add_block_keeps_invariant_witness:
  "chain_ok demo_lib demo_chain
   \<and> chain_ok demo_lib (snd (add_block demo_lib 1700000100 demo_next demo_chain))"
  using demo_chain_ok(1) add_block_keeps_invariant [OF demo_chain_ok(1) demo_next_leaf] by blast



text \<open>C25: in a reachable state the walk back from any hash ends within the bound of the model, and the
  walk from the tip returns the active chain.\<close>

theorem chain_walk_terminates:
  assumes "fresh_chain X c0" "(chain_step X)\<^sup>*\<^sup>* c0 c"
  shows "chain_to_hash c h \<noteq> Inl WalkDiverges \<and> chain_to_hash c (hash_hex X (tip c)) = Inr (blocks c)"
  using node.reachable_inv [OF assms] chain_to_hash_terminates [of X c] chain_to_hash_tip [of X c]
  by (simp add: chain_ok_def)

theorem chain_walk_terminates_witness:
  "chain_to_hash demo_chain ''ff'' \<noteq> Inl WalkDiverges
   \<and> chain_to_hash demo_chain (hash_hex demo_lib (tip demo_chain)) = Inr (blocks demo_chain)"
  by (rule chain_walk_terminates [OF demo_chain_ok(3) rtranclp.rtrancl_refl])

text \<open>The shortcut of \<open>parent_context\<close> for a block on the active tip is an optimisation only: for
  every parent the context equals the walk back to the genesis block and the replay of the
  blocks found, from the empty set.\<close>

theorem parent_context_shortcut_correct:
  assumes "chain_ok X c"
  shows "parent_context X c h =
    try_res (chain_to_hash c h) (\<lambda>bs.
      try_res (replay X bs utxo_default 0) (\<lambda>(us, minted). Inr (bs, us, minted)))"
  using assms by (rule parent_context_slow)

theorem parent_context_shortcut_correct_witness:
  "parent_context demo_lib demo_chain (hash_hex demo_lib demo_gen) =
     try_res (chain_to_hash demo_chain (hash_hex demo_lib demo_gen)) (\<lambda>bs.
       try_res (replay demo_lib bs utxo_default 0) (\<lambda>(us, minted). Inr (bs, us, minted)))"
  by (rule parent_context_shortcut_correct [OF demo_chain_ok(1)])

text \<open>A block passes the subsidy check exactly when it has a coinbase with at most 16 outputs, all
  its other transactions are acceptable on the outputs before the block, and its coinbase pays
  at most the scheduled reward, cut to what is left of the cap, plus the fees.\<close>

theorem coinbase_subsidy_bound:
  "validate_coinbase_subsidy_with_state X c b minted us = Inr () \<longleftrightarrow>
     transactions b \<noteq> [] \<and> length (outputs (hd (transactions b))) \<le> 16
     \<and> list_all (\<lambda>tx. tx_acceptable X tx us (network_magic c) (height b)) (tl (transactions b))
     \<and> fees_total us (tl (transactions b)) < 2 ^ 64
     \<and> unat (coinbase_value b) \<le> min (unat (block_reward (height b))) (31415926 * 10 ^ 9 - unat minted)
          + fees_total us (tl (transactions b))"
  by (rule subsidy_Inr)

text \<open>On a chain that satisfies the invariant the difficulty of the next block is always defined:
  the slices of timestamps it takes are in range.\<close>

theorem next_bits_never_panics:
  assumes "chain_ok X c"
  shows "next_bits c \<noteq> None"
  using assms unfolding next_bits_def chain_ok_def active_ok_def by (intro numbered_next_bits) simp_all

theorem next_bits_never_panics_witness: "next_bits demo_chain \<noteq> None"
  by (rule next_bits_never_panics [OF demo_chain_ok(1)])

text \<open>\<open>open_for_network\<close> ignores the network for a fresh store: when the store has no tip, the chain
  it returns carries the regtest magic, which every transaction signature commits to, also for
  the main network, whose chain from \<open>new_for_network\<close> carries another magic.\<close>

theorem fresh_open_uses_regtest_magic:
  assumes "load_tip X d = Inr None" "open_for_network X clock d network = Some (Inr c)"
  shows "network_magic c = REGTEST_MAGIC \<and> REGTEST_MAGIC \<noteq> magic_for_network ''mainnet''"
proof -
  have sb: "network_magic c' = network_magic c0" if "store_save_block X b c0 = (r, c')" for c0 c' b r
    using store_save_block_core [OF that] by auto
  have st: "network_magic c' = network_magic c0" if "store_save_tip X h c0 = (r, c')" for c0 c' h r
    using store_save_tip_core [OF that] by auto
  obtain g where g: "genesis_block_with_bits X (genesis_bits network) = Some g"
    using assms by (auto simp: open_for_network_def split: option.splits)
  obtain r1 c1 where c1: "store_save_block X (tip (from_genesis X g (Some d))) (from_genesis X g (Some d)) = (r1, c1)"
    by fastforce
  obtain r2 c2 where c2: "store_save_tip X (hash_hex X (tip c1)) c1 = (r2, c2)" by fastforce
  have "c = c2"
    using assms g c1 c2 by (cases r1; cases r2) (simp_all add: open_for_network_def Let_def)
  then have "network_magic c = network_magic (from_genesis X g (Some d))"
    using sb [OF c1] st [OF c2] by simp
  then show ?thesis
    by (simp add: from_genesis_def from_genesis_with_magic_def Let_def magic_for_network_def
        REGTEST_MAGIC_def MAINNET_MAGIC_def)
qed

text \<open>A library whose hashes are all zero meets every target: a fresh store for the main network.\<close>

definition zero_gen :: block where
  "zero_gen = \<lparr>header = \<lparr>hdr_version = 1, prev_hash = zero_hash, hdr_merkle_root = zero_hash,
     timestamp = 1700000000, bits = MAINNET_GENESIS_BITS, nonce = 0\<rparr>, transactions = [demo_cb], height = 0\<rparr>"

definition zero_lib :: "(bytes \<Rightarrow> bytes option) store_lib" where
  "zero_lib = (demo_store_lib zero_gen)\<lparr>lib_sha256 := (\<lambda>_. replicate 32 0)\<rparr>"

lemma zero_lib_open:
  "\<exists>c. open_for_network zero_lib (\<lambda>_. 0) Map.empty ''mainnet'' = Some (Inr c)"
proof -
  have f: "lib_sha256 zero_lib = (\<lambda>_. replicate 32 0)" "lib_hex_encode zero_lib = demo_hex_encode"
    "lib_block_ser zero_lib zero_gen = Some [1]" "\<And>d k. db_get zero_lib d k = Inr (d k)"
    "\<And>d k v. db_put zero_lib k v d = (Inr (), d(k \<mapsto> v))"
    by (simp_all add: zero_lib_def demo_store_lib_defs)
  have le: "hash_le_target (replicate n 0) ts" for n ts
  proof (induction n arbitrary: ts)
    case (Suc n)
    then show ?case by (cases ts) (auto simp: word_gt_0)
  qed simp
  have mr: "merkle_root zero_lib [demo_cb] = zero_hash"
    by (simp add: merkle_root_def merkle_loop.simps [of _ "[x]" for x] txid_def hash256_def f
        hash_to_hex_def zero_hash_hex)
  have "meets_target zero_lib h" for h
    by (simp add: meets_target_def header_hash_def hash256_def f le)
  then have "mine_block_header zero_lib h = Some h" for h by (simp add: mine_block_header.simps)
  then have g: "genesis_block_with_bits zero_lib (genesis_bits ''mainnet'') = Some zero_gen"
    using mr by (simp add: genesis_block_with_bits_def Let_def genesis_bits_def zero_gen_def demo_cb_def)
  have "load_tip zero_lib Map.empty = Inr None" by (simp add: load_tip_def get_or_def f)
  then show ?thesis
    using g f by (simp add: open_for_network_def Let_def from_genesis_def from_genesis_with_magic_def
        tip_def store_save_block_def store_save_tip_def save_block_def save_tip_def put_or_def)
qed

theorem fresh_open_uses_regtest_magic_witness:
  "\<exists>c. open_for_network zero_lib (\<lambda>_. 0) Map.empty ''mainnet'' = Some (Inr c)
     \<and> network_magic c = REGTEST_MAGIC \<and> REGTEST_MAGIC \<noteq> magic_for_network ''mainnet''"
proof -
  have t: "load_tip zero_lib Map.empty = Inr None"
    by (simp add: load_tip_def get_or_def zero_lib_def demo_store_lib_defs)
  from zero_lib_open fresh_open_uses_regtest_magic [OF t] show ?thesis by blast
qed

end
