(* ===== verification/Rate_Limit.thy ===== *)
theory Rate_Limit
  imports Hash_Map
begin

text \<open>
  The per-peer rate limiter of \<open>src/security/rate_limit.rs\<close>. An \<open>Instant\<close> is a number of
  nanoseconds on the monotonic clock, read once per call and passed in as \<open>now\<close>; durations
  are numbers of nanoseconds, and \<open>duration_since\<close> is the truncated difference, as in Rust.
  The lemmas show that the key log names exactly the tracked peers, that the table holds at
  most \<open>MAX_TRACKED_PEERS\<close> peers besides the banned ones, and that a peer that is never
  evicted is allowed at most \<open>max_per_window\<close> events in every window of time.
\<close>

section \<open>State and operations\<close>

definition MAX_TRACKED_PEERS :: nat where
  "MAX_TRACKED_PEERS = 4096"

record rate_limiter =
  windows :: "(string, nat list) hmap"
  insertion_order :: "string list"
  max_per_window :: nat
  window_duration :: nat

definition from_secs :: "u64 \<Rightarrow> nat" where
  "from_secs s = unat s * 1000000000"

definition rate_limiter_new :: "nat \<Rightarrow> u64 \<Rightarrow> rate_limiter" where
  "rate_limiter_new n window_secs =
     \<lparr>windows = [], insertion_order = [], max_per_window = n,
      window_duration = from_secs window_secs\<rparr>"

text \<open>\<open>evict\<close>: a new peer at the cap removes the first-inserted one.\<close>

definition rl_evict :: "string \<Rightarrow> rate_limiter \<Rightarrow> rate_limiter" where
  "rl_evict peer_id rl =
     (if \<not> hm_contains (windows rl) peer_id \<and> MAX_TRACKED_PEERS \<le> length (windows rl) then
        (case insertion_order rl of
           [] \<Rightarrow> rl
         | oldest # _ \<Rightarrow>
             rl\<lparr>windows := hm_remove oldest (windows rl),
                insertion_order := filter (\<lambda>k. k \<noteq> oldest) (insertion_order rl)\<rparr>)
      else rl)"

text \<open>\<open>entry\<close>: the key log gets a new key, and \<open>or_default\<close> an empty list of instants.\<close>

definition rl_log :: "string \<Rightarrow> rate_limiter \<Rightarrow> rate_limiter" where
  "rl_log peer_id rl =
     (if \<not> hm_contains (windows rl) peer_id
      then rl\<lparr>insertion_order := insertion_order rl @ [peer_id]\<rparr> else rl)"

definition rl_entry :: "string \<Rightarrow> rate_limiter \<Rightarrow> nat list" where
  "rl_entry peer_id rl = (case hm_get (windows rl) peer_id of None \<Rightarrow> [] | Some ts \<Rightarrow> ts)"

definition rl_set :: "string \<Rightarrow> nat list \<Rightarrow> rate_limiter \<Rightarrow> rate_limiter" where
  "rl_set peer_id ts rl = rl\<lparr>windows := hm_insert peer_id ts (windows rl)\<rparr>"

definition rl_check :: "nat \<Rightarrow> string \<Rightarrow> rate_limiter \<Rightarrow> bool \<times> rate_limiter" where
  "rl_check now peer_id rl =
     (let rl1 = rl_log peer_id (rl_evict peer_id rl);
          entries = filter (\<lambda>t. now - t < window_duration rl1) (rl_entry peer_id rl1)
      in if max_per_window rl1 \<le> length entries then (False, rl_set peer_id entries rl1)
         else (True, rl_set peer_id (entries @ [now]) rl1))"

definition rl_ban :: "nat \<Rightarrow> string \<Rightarrow> rate_limiter \<Rightarrow> rate_limiter" where
  "rl_ban now peer_id rl =
     rl_set peer_id (replicate (max_per_window rl * 10) now) (rl_log peer_id rl)"

record node_rate_limiter =
  rl_messages :: rate_limiter
  rl_blocks :: rate_limiter
  rl_transactions :: rate_limiter
  rl_connections :: rate_limiter
  rl_getblocks :: rate_limiter

definition node_rate_limiter_new :: node_rate_limiter where
  "node_rate_limiter_new =
     \<lparr>rl_messages = rate_limiter_new 100 60, rl_blocks = rate_limiter_new 10 60,
      rl_transactions = rate_limiter_new 50 60, rl_connections = rate_limiter_new 5 60,
      rl_getblocks = rate_limiter_new 10 60\<rparr>"

section \<open>The tracked peers\<close>

text \<open>The key log has every tracked peer once.\<close>

definition rl_ok :: "rate_limiter \<Rightarrow> bool" where
  "rl_ok rl \<longleftrightarrow> hm_ok (windows rl) \<and> distinct (insertion_order rl)
     \<and> set (insertion_order rl) = fst ` set (windows rl)"

lemmas rl_defs = rl_check_def rl_evict_def rl_log_def rl_set_def rl_entry_def rl_ban_def Let_def

lemma hm_contains_keys: "hm_contains m k \<longleftrightarrow> k \<in> fst ` set m"
  unfolding hm_contains_def hm_get_def by (simp only: map_of_eq_None_iff not_not)

lemma keys_insert: "fst ` set (hm_insert k v m) = insert k (fst ` set m)"
  by (simp add: hm_insert_def dom_update [unfolded dom_map_of_conv_image_fst])

lemma keys_remove: "fst ` set (hm_remove k m) = fst ` set m - {k}"
  by (force simp: hm_remove_def)

lemma length_hm_keys: "hm_ok m \<Longrightarrow> length m = card (fst ` set m)"
  by (metis hm_ok_def distinct_card length_map list.set_map)

lemma length_insert: "hm_ok m \<Longrightarrow>
    length (hm_insert k v m) = length m + (if k \<in> fst ` set m then 0 else 1)"
  by (simp add: length_hm_keys keys_insert card_insert_if)

lemma rl_ok_evict: "rl_ok rl \<Longrightarrow> rl_ok (rl_evict p rl)"
  by (auto simp: rl_ok_def rl_evict_def keys_remove split: list.splits) (metis fst_conv image_eqI insertE)

lemma rl_ok_set_log: "rl_ok rl \<Longrightarrow> rl_ok (rl_set p ts (rl_log p rl))"
  by (auto simp: rl_ok_def rl_set_def rl_log_def keys_insert hm_contains_keys
      simp del: hm_contains_iff)

lemma rl_ok_check: "rl_ok rl \<Longrightarrow> rl_ok (snd (rl_check now p rl))"
  by (simp add: rl_check_def Let_def rl_ok_set_log rl_ok_evict)

lemma rl_ok_ban: "rl_ok rl \<Longrightarrow> rl_ok (rl_ban now p rl)"
  by (simp add: rl_ban_def rl_ok_set_log)

lemma windows_rl_log [simp]: "windows (rl_log p rl) = windows rl"
  by (simp add: rl_log_def)

lemma length_set_log:
  "hm_ok (windows rl) \<Longrightarrow> length (windows (rl_set p ts rl))
     = length (windows rl) + (if hm_contains (windows rl) p then 0 else 1)"
  by (simp add: rl_set_def length_insert hm_contains_keys del: hm_contains_iff)

lemma length_evict:
  assumes "rl_ok rl" "\<not> hm_contains (windows rl) p" "MAX_TRACKED_PEERS \<le> length (windows rl)"
  shows "length (windows (rl_evict p rl)) = length (windows rl) - 1"
proof (cases "insertion_order rl")
  case Nil
  with assms show ?thesis by (auto simp: rl_ok_def MAX_TRACKED_PEERS_def)
next
  case (Cons k ks)
  then have "k \<in> fst ` set (windows rl)" using assms(1) by (auto simp: rl_ok_def)
  then show ?thesis
    using assms Cons
    by (simp add: rl_evict_def length_hm_keys rl_ok_def keys_remove)
qed

lemma evict_contains: "hm_contains (windows (rl_evict p rl)) p \<longleftrightarrow> hm_contains (windows rl) p"
  by (auto simp: rl_evict_def split: list.splits)

lemma length_check:
  assumes "rl_ok rl"
  shows "length (windows (snd (rl_check now p rl))) \<le> max (length (windows rl)) MAX_TRACKED_PEERS"
proof -
  let ?e = "rl_evict p rl"
  have ok: "hm_ok (windows (rl_log p ?e))"
    using rl_ok_evict [OF assms, of p] by (simp add: rl_ok_def)
  have "length (windows (snd (rl_check now p rl)))
      = length (windows ?e) + (if hm_contains (windows rl) p then 0 else 1)"
    using length_set_log [OF ok] evict_contains [of p rl]
    by (simp add: rl_check_def Let_def del: hm_contains_iff)
  moreover have "length (windows ?e) + (if hm_contains (windows rl) p then 0 else 1)
      \<le> max (length (windows rl)) MAX_TRACKED_PEERS"
  proof (cases "\<not> hm_contains (windows rl) p \<and> MAX_TRACKED_PEERS \<le> length (windows rl)")
    case True
    then show ?thesis
      using length_evict [OF assms, of p] by (auto simp: MAX_TRACKED_PEERS_def simp del: hm_contains_iff)
  next
    case False
    then have "?e = rl" by (auto simp: rl_evict_def simp del: hm_contains_iff)
    with False show ?thesis by (auto simp del: hm_contains_iff)
  qed
  ultimately show ?thesis by simp
qed


section \<open>The window bound\<close>

text \<open>A run of checks, each at its instant; \<open>allowed\<close> are the instants a peer was let through.\<close>

fun rl_run :: "rate_limiter \<Rightarrow> (nat \<times> string) list \<Rightarrow> bool list \<times> rate_limiter" where
  "rl_run rl [] = ([], rl)"
| "rl_run rl ((now, p) # evs) =
     (case rl_check now p rl of (a, rl') \<Rightarrow>
       (case rl_run rl' evs of (as, rl'') \<Rightarrow> (a # as, rl'')))"

definition allowed :: "string \<Rightarrow> (nat \<times> string) list \<Rightarrow> bool list \<Rightarrow> nat list" where
  "allowed p evs as = map (fst \<circ> fst) (filter (\<lambda>(e, a). a \<and> snd e = p) (zip evs as))"

definition in_window :: "nat \<Rightarrow> nat \<Rightarrow> nat list \<Rightarrow> nat list" where
  "in_window w t ts = filter (\<lambda>s. s \<le> t \<and> t - s < w) ts"

text \<open>
  The invariant of a run: \<open>A\<close> are the instants peer \<open>p\<close> was let through so far, none after
  \<open>now0\<close>; its list of instants agrees with \<open>A\<close> on everything still inside a window, and no
  window holds more than \<open>m\<close> of them.
\<close>

definition window_inv :: "nat \<Rightarrow> nat \<Rightarrow> nat \<Rightarrow> nat list \<Rightarrow> nat list \<Rightarrow> bool" where
  "window_inv w m now0 ts A \<longleftrightarrow> (\<forall>s\<in>set A. s \<le> now0) \<and> set ts \<subseteq> set A
     \<and> (\<forall>t\<ge>now0. filter (\<lambda>s. t - s < w) ts = filter (\<lambda>s. t - s < w) A)
     \<and> (\<forall>t. length (in_window w t A) \<le> m)"

lemma window_inv_later: "window_inv w m now0 ts A \<Longrightarrow> now0 \<le> now \<Longrightarrow> window_inv w m now ts A"
  unfolding window_inv_def by (meson order_trans)

lemma window_inv_retain:
  assumes "window_inv w m now ts A"
  shows "window_inv w m now (filter (\<lambda>s. now - s < w) ts) A"
proof -
  have "filter (\<lambda>s. t - s < w) (filter (\<lambda>s. now - s < w) ts) = filter (\<lambda>s. t - s < w) ts"
    if "now \<le> t" for t
    using that by (auto intro: filter_cong)
  then show ?thesis using assms unfolding window_inv_def by auto
qed

lemma window_inv_push:
  assumes inv: "window_inv w m now ts A" and few: "length (filter (\<lambda>s. now - s < w) ts) < m"
  shows "window_inv w m now (ts @ [now]) (A @ [now])"
proof -
  have "length (in_window w t (A @ [now])) \<le> m" for t
  proof (cases "now \<le> t")
    case False
    then show ?thesis using inv by (simp add: window_inv_def in_window_def)
  next
    case True
    have "length (in_window w t A) \<le> length (filter (\<lambda>s. now - s < w) A)"
      unfolding in_window_def length_filter_conv_card
      using True by (intro card_mono) auto
    also have "filter (\<lambda>s. now - s < w) A = filter (\<lambda>s. now - s < w) ts"
      using inv by (simp add: window_inv_def)
    finally show ?thesis using few by (simp add: in_window_def)
  qed
  then show ?thesis using inv unfolding window_inv_def by auto
qed


lemma allowed_Cons [simp]:
  "allowed p ((now, q) # evs) (a # as) = (if a \<and> q = p then [now] else []) @ allowed p evs as"
  by (simp add: allowed_def)

lemma no_eviction:
  assumes "rl_ok rl" "fst ` set (windows rl) \<subseteq> P" "p \<in> P" "finite P" "card P \<le> MAX_TRACKED_PEERS"
  shows "rl_evict p rl = rl"
proof (rule ccontr)
  assume "rl_evict p rl \<noteq> rl"
  then have "p \<notin> fst ` set (windows rl)" "MAX_TRACKED_PEERS \<le> length (windows rl)"
    by (auto simp: rl_evict_def hm_contains_keys simp del: hm_contains_iff split: if_splits)
  moreover have "length (windows rl) = card (fst ` set (windows rl))"
    using assms(1) by (simp add: rl_ok_def length_hm_keys)
  moreover have "card (fst ` set (windows rl)) < card P"
    using assms \<open>p \<notin> _\<close> by (intro psubset_card_mono) auto
  ultimately show False using assms(5) by simp
qed

text \<open>One check of a peer that does not evict, seen by any peer \<open>q\<close>.\<close>

lemma check_no_eviction:
  assumes "rl_evict p rl = rl" "rl_check now p rl = (a, rl')"
    "ts = filter (\<lambda>s. now - s < window_duration rl) (rl_entry p rl)"
  shows "a \<longleftrightarrow> length ts < max_per_window rl"
    "rl' = rl_set p (ts @ (if a then [now] else [])) (rl_log p rl)"
  using assms by (auto simp: rl_check_def Let_def rl_entry_def rl_log_def split: if_splits)

lemma check_entry:
  assumes "rl_evict p rl = rl" "rl_check now p rl = (a, rl')"
    "ts = filter (\<lambda>s. now - s < window_duration rl) (rl_entry p rl)"
  shows "max_per_window rl' = max_per_window rl" "window_duration rl' = window_duration rl"
    "fst ` set (windows rl') = insert p (fst ` set (windows rl))"
    "rl_entry q rl' = (if q = p then ts @ (if a then [now] else []) else rl_entry q rl)"
  using check_no_eviction(2) [OF assms]
  by (simp_all add: rl_set_def rl_log_def rl_entry_def keys_insert del: hm_contains_iff)

lemma window_inv_check:
  assumes "rl_evict p rl = rl" "rl_check now p rl = (a, rl')" "now0 \<le> now"
    "window_inv (window_duration rl) (max_per_window rl) now0 (rl_entry q rl) A"
  shows "window_inv (window_duration rl) (max_per_window rl) now (rl_entry q rl')
    (A @ (if a \<and> p = q then [now] else []))"
proof -
  note inv = window_inv_later [OF assms(4,3)]
  note ret = window_inv_retain [OF inv]
  show ?thesis
  proof (cases "p = q")
    case False
    then show ?thesis using inv check_entry(4) [OF assms(1,2) refl] by simp
  next
    case True
    have filt: "filter P (filter P xs) = filter P xs" for P and xs :: "nat list"
      by (simp add: conj_absorb)
    show ?thesis
      using True check_no_eviction(1) [OF assms(1,2) refl] check_entry(4) [OF assms(1,2) refl, of q]
        ret window_inv_push [OF ret]
      by (simp add: filt)
  qed
qed

lemma rl_run_window:
  assumes "rl_ok rl" "fst ` set (windows rl) \<subseteq> P" "snd ` set evs \<subseteq> P" "finite P"
    "card P \<le> MAX_TRACKED_PEERS" "sorted (now0 # map fst evs)"
    "window_inv (window_duration rl) (max_per_window rl) now0 (rl_entry q rl) A"
    "rl_run rl evs = (as, rl')"
  shows "length (in_window (window_duration rl) t (A @ allowed q evs as)) \<le> max_per_window rl"
  using assms
proof (induction evs arbitrary: rl now0 A as)
  case Nil
  then show ?case by (simp add: allowed_def window_inv_def)
next
  case (Cons e evs)
  obtain now p where e: "e = (now, p)" by (cases e)
  obtain a rl1 where c: "rl_check now p rl = (a, rl1)" by (cases "rl_check now p rl")
  obtain as1 where r: "rl_run rl1 evs = (as1, rl')" and as: "as = a # as1"
    using Cons.prems(8) by (auto simp: e c split: prod.splits)
  have ev: "rl_evict p rl = rl"
    using Cons.prems by (intro no_eviction [where P = P]) (auto simp: e)
  note ce = check_entry [OF ev c refl]
  have "length (in_window (window_duration rl1) t
      ((A @ (if a \<and> p = q then [now] else [])) @ allowed q evs as1)) \<le> max_per_window rl1"
  proof (rule Cons.IH [OF _ _ _ Cons.prems(4,5) _ _ r])
    show "rl_ok rl1" using rl_ok_check [OF Cons.prems(1), of now p] c by simp
    show "fst ` set (windows rl1) \<subseteq> P" "snd ` set evs \<subseteq> P"
      using Cons.prems(2,3) ce(3) by (auto simp: e)
    show "sorted (now # map fst evs)" using Cons.prems(6) by (auto simp: e)
    show "window_inv (window_duration rl1) (max_per_window rl1) now (rl_entry q rl1)
        (A @ (if a \<and> p = q then [now] else []))"
      using window_inv_check [OF ev c _ Cons.prems(7)] Cons.prems(6) ce(1,2) by (simp add: e)
  qed
  then show ?case using ce(1,2) by (simp add: e as)
qed



text \<open>
  Any sequence of checks and bans: the key log stays exact, and the table holds at most
  \<open>MAX_TRACKED_PEERS\<close> peers and one more for each ban (\<open>rl_ban\<close> does not evict).
\<close>

inductive rl_reach :: "nat \<Rightarrow> u64 \<Rightarrow> nat \<Rightarrow> rate_limiter \<Rightarrow> bool" where
  rl_new: "rl_reach m secs 0 (rate_limiter_new m secs)"
| rl_checked: "rl_reach m secs n rl \<Longrightarrow> rl_reach m secs n (snd (rl_check now p rl))"
| rl_banned: "rl_reach m secs n rl \<Longrightarrow> rl_reach m secs (Suc n) (rl_ban now p rl)"

lemma rl_reach_tracked:
  "rl_reach m secs n rl \<Longrightarrow> rl_ok rl \<and> length (windows rl) \<le> MAX_TRACKED_PEERS + n"
proof (induction rule: rl_reach.induct)
  case (rl_new m secs)
  then show ?case by (simp add: rate_limiter_new_def rl_ok_def)
next
  case (rl_checked m secs n rl now p)
  then show ?case using rl_ok_check length_check [of rl now p] by fastforce
next
  case (rl_banned m secs n rl now p)
  then have "length (windows (rl_ban now p rl)) \<le> Suc (length (windows rl))"
    by (simp add: rl_ban_def length_set_log rl_ok_def rl_set_def length_insert)
  with rl_banned show ?case using rl_ok_ban by fastforce
qed

lemma banned_peer_refused:
  assumes "0 < max_per_window rl" "now' - now < window_duration rl"
  shows "\<not> fst (rl_check now' p (rl_ban now p rl))"
proof -
  have "rl_evict p (rl_ban now p rl) = rl_ban now p rl"
    by (auto simp: rl_evict_def rl_ban_def rl_set_def)
  then show ?thesis
    using assms by (simp add: rl_check_def rl_ban_def Let_def rl_entry_def rl_set_def rl_log_def)
qed

end
