(* ===== verification/Peers.thy ===== *)
theory Peers
  imports Hash_Map
begin

text \<open>
  The peer address store: \<open>src/network/peers.rs\<close>, with the parts of Rust's standard library
  it relies on: the parser of socket addresses, \<open>HashSet\<close> (a list without repetitions),
  \<open>str::lines\<close> and \<open>str::trim\<close>. A file is its contents, \<open>None\<close> when it cannot be read; the
  choice of \<open>random_unconnected\<close> is an argument. The lemmas show that after any sequence of
  operations no more than \<open>BUCKET_LIMIT\<close> known addresses share a subnet, that the known
  addresses are counted and listed without repetition, that the dial candidates are exactly
  the known unconnected addresses, and that saved anchors are read back.
\<close>

section \<open>Socket addresses\<close>

datatype ip_addr = V4 u8 u8 u8 u8 | V6 "u16 list"

text \<open>The parsers consume a prefix and return the rest, \<open>None\<close> is failure without consumption.
  \<open>read_number\<close>: digits of a radix, at most \<open>md\<close> of them, with or without leading zeros, up to
  the largest value of the integer type.\<close>

definition to_digit :: "nat \<Rightarrow> char \<Rightarrow> nat option" where
  "to_digit radix c =
     (let n = of_char c;
          d = (if 48 \<le> n \<and> n \<le> 57 then n - 48
               else if 97 \<le> n \<and> n \<le> 122 then n - 87
               else if 65 \<le> n \<and> n \<le> 90 then n - 55 else radix)
      in if d < radix then Some d else None)"

fun digits_loop :: "nat \<Rightarrow> nat \<Rightarrow> nat \<Rightarrow> string \<Rightarrow> nat \<times> nat \<times> string" where
  "digits_loop radix acc n [] = (acc, n, [])"
| "digits_loop radix acc n (c # s) =
     (case to_digit radix c of
        None \<Rightarrow> (acc, n, c # s)
      | Some d \<Rightarrow> digits_loop radix (acc * radix + d) (n + 1) s)"

definition read_number :: "nat \<Rightarrow> nat option \<Rightarrow> bool \<Rightarrow> nat \<Rightarrow> string \<Rightarrow> (nat \<times> string) option" where
  "read_number radix md allow_zero_prefix max_value s =
     (case digits_loop radix 0 0 s of (v, n, rest) \<Rightarrow>
        if n = 0 \<or> (\<not> allow_zero_prefix \<and> hd s = CHR ''0'' \<and> 1 < n) \<or> max_value < v
          \<or> (case md of Some k \<Rightarrow> k < n | None \<Rightarrow> False)
        then None else Some (v, rest))"

definition read_given_char :: "char \<Rightarrow> string \<Rightarrow> string option" where
  "read_given_char c s = (case s of [] \<Rightarrow> None | x # t \<Rightarrow> if x = c then Some t else None)"

definition read_separator ::
  "char \<Rightarrow> bool \<Rightarrow> (string \<Rightarrow> ('a \<times> string) option) \<Rightarrow> string \<Rightarrow> ('a \<times> string) option" where
  "read_separator c first inner s =
     (if first then inner s
      else case read_given_char c s of None \<Rightarrow> None | Some t \<Rightarrow> inner t)"

definition read_octet :: "bool \<Rightarrow> string \<Rightarrow> (nat \<times> string) option" where
  "read_octet first s = read_separator CHR ''.'' first (read_number 10 (Some 3) False 255) s"

definition read_ipv4_addr :: "string \<Rightarrow> ((u8 \<times> u8 \<times> u8 \<times> u8) \<times> string) option" where
  "read_ipv4_addr s =
     Option.bind (read_octet True s) (\<lambda>(a, s).
     Option.bind (read_octet False s) (\<lambda>(b, s).
     Option.bind (read_octet False s) (\<lambda>(c, s).
     Option.bind (read_octet False s) (\<lambda>(d, s).
     Some ((word_of_nat a, word_of_nat b, word_of_nat c, word_of_nat d), s)))))"

text \<open>\<open>read_groups\<close> with \<open>n\<close> free slots: colon-separated groups, the last two possibly as an
  IPv4 address.\<close>

fun read_groups :: "bool \<Rightarrow> nat \<Rightarrow> string \<Rightarrow> u16 list \<times> bool \<times> string" where
  "read_groups first 0 s = ([], False, s)"
| "read_groups first (Suc m) s =
     (case (if 0 < m then read_separator CHR '':'' first read_ipv4_addr s else None) of
        Some ((a, b, c, d), t) \<Rightarrow> ([u16_of_be [a, b], u16_of_be [c, d]], True, t)
      | None \<Rightarrow>
          (case read_separator CHR '':'' first (read_number 16 (Some 4) True 65535) s of
             None \<Rightarrow> ([], False, s)
           | Some (g, t) \<Rightarrow>
               (case read_groups False m t of (gs, v4, r) \<Rightarrow> (word_of_nat g # gs, v4, r))))"

definition read_ipv6_addr :: "string \<Rightarrow> (u16 list \<times> string) option" where
  "read_ipv6_addr s =
     (case read_groups True 8 s of (head, head_ipv4, t) \<Rightarrow>
        if length head = 8 then Some (head, t)
        else if head_ipv4 then None
        else
          Option.bind (read_given_char CHR '':'' t) (\<lambda>t.
          Option.bind (read_given_char CHR '':'' t) (\<lambda>t.
          case read_groups True (8 - (length head + 1)) t of (tail, _, r) \<Rightarrow>
            Some (head @ replicate (8 - length head - length tail) 0 @ tail, r))))"

definition read_port :: "string \<Rightarrow> (nat \<times> string) option" where
  "read_port s = Option.bind (read_given_char CHR '':'' s) (read_number 10 None True 65535)"

text \<open>\<open>read_scope_id().unwrap_or(0)\<close>: the rest after an optional scope.\<close>

definition skip_scope_id :: "string \<Rightarrow> string" where
  "skip_scope_id s =
     (case Option.bind (read_given_char CHR ''%'' s) (read_number 10 None True 4294967295) of
        None \<Rightarrow> s
      | Some (_, t) \<Rightarrow> t)"

definition read_socket_addr_v4 :: "string \<Rightarrow> ((ip_addr \<times> u16) \<times> string) option" where
  "read_socket_addr_v4 s =
     Option.bind (read_ipv4_addr s) (\<lambda>((a, b, c, d), s).
     Option.bind (read_port s) (\<lambda>(p, s). Some ((V4 a b c d, word_of_nat p), s)))"

definition read_socket_addr_v6 :: "string \<Rightarrow> ((ip_addr \<times> u16) \<times> string) option" where
  "read_socket_addr_v6 s =
     Option.bind (read_given_char CHR ''['' s) (\<lambda>s.
     Option.bind (read_ipv6_addr s) (\<lambda>(ip, s).
     Option.bind (read_given_char CHR '']'' (skip_scope_id s)) (\<lambda>s.
     Option.bind (read_port s) (\<lambda>(p, s). Some ((V6 ip, word_of_nat p), s)))))"

definition parse_socket_addr :: "string \<Rightarrow> (ip_addr \<times> u16) option" where
  "parse_socket_addr s =
     (case (case read_socket_addr_v4 s of None \<Rightarrow> read_socket_addr_v6 s | r \<Rightarrow> r) of
        Some (sa, []) \<Rightarrow> Some sa
      | _ \<Rightarrow> None)"

section \<open>Sets of strings\<close>

definition hs_insert :: "'a \<Rightarrow> 'a list \<Rightarrow> bool \<times> 'a list" where
  "hs_insert x xs = (if x \<in> set xs then (False, xs) else (True, xs @ [x]))"

definition hs_remove :: "'a \<Rightarrow> 'a list \<Rightarrow> 'a list" where
  "hs_remove x xs = filter (\<lambda>y. y \<noteq> x) xs"

section \<open>The store\<close>

definition BUCKET_LIMIT :: nat where "BUCKET_LIMIT = 8"
definition MIN_OUTBOUND :: nat where "MIN_OUTBOUND = 8"
definition ANCHOR_COUNT :: nat where "ANCHOR_COUNT = 4"

record peer_store =
  buckets :: "(u8 \<times> u8, string list) hmap"
  outbound :: "string list"
  inbound :: "string list"

definition peer_store_new :: peer_store where
  "peer_store_new = \<lparr>buckets = [], outbound = [], inbound = []\<rparr>"

definition subnet :: "string \<Rightarrow> u8 \<times> u8" where
  "subnet addr =
     (case parse_socket_addr addr of
        Some (V4 a b _ _, _) \<Rightarrow> (a, b)
      | Some (V6 segments, _) \<Rightarrow>
          (let bs = u16_be (segments ! 0) in (bs ! 0, bs ! 1))
      | None \<Rightarrow> (0, 0))"

definition bucket_of :: "peer_store \<Rightarrow> u8 \<times> u8 \<Rightarrow> string list" where
  "bucket_of ps key = (case hm_get (buckets ps) key of None \<Rightarrow> [] | Some b \<Rightarrow> b)"

text \<open>\<open>entry(key).or_default()\<close> leaves an empty bucket behind also when nothing is added.\<close>

definition add_known :: "string \<Rightarrow> peer_store \<Rightarrow> bool \<times> peer_store" where
  "add_known addr ps =
     (let key = subnet addr; bucket = bucket_of ps key in
      if BUCKET_LIMIT \<le> length bucket
      then (False, ps\<lparr>buckets := hm_insert key bucket (buckets ps)\<rparr>)
      else case hs_insert addr bucket of
        (added, bucket') \<Rightarrow> (added, ps\<lparr>buckets := hm_insert key bucket' (buckets ps)\<rparr>))"

definition remove_known :: "string \<Rightarrow> peer_store \<Rightarrow> peer_store" where
  "remove_known addr ps =
     (let key = subnet addr in
      case hm_get (buckets ps) key of
        None \<Rightarrow> ps
      | Some bucket \<Rightarrow> ps\<lparr>buckets := hm_insert key (hs_remove addr bucket) (buckets ps)\<rparr>)"

definition contains_known :: "string \<Rightarrow> peer_store \<Rightarrow> bool" where
  "contains_known addr ps =
     (case hm_get (buckets ps) (subnet addr) of None \<Rightarrow> False | Some b \<Rightarrow> addr \<in> set b)"

definition known_count :: "peer_store \<Rightarrow> nat" where
  "known_count ps = sum_list (map (length \<circ> snd) (buckets ps))"

definition all_known :: "peer_store \<Rightarrow> string list" where
  "all_known ps = concat (map snd (buckets ps))"

definition outbound_candidates :: "peer_store \<Rightarrow> string list" where
  "outbound_candidates ps =
     filter (\<lambda>a. a \<notin> set (outbound ps @ inbound ps)) (all_known ps)"

definition random_unconnected :: "nat \<Rightarrow> peer_store \<Rightarrow> string option" where
  "random_unconnected r ps =
     (let candidates = filter (\<lambda>a. a \<notin> set (outbound ps @ inbound ps)) (all_known ps) in
      if candidates = [] then None else Some (candidates ! (r mod length candidates)))"

definition mark_outbound :: "string \<Rightarrow> peer_store \<Rightarrow> peer_store" where
  "mark_outbound addr ps = ps\<lparr>outbound := snd (hs_insert addr (outbound ps))\<rparr>"

definition unmark_outbound :: "string \<Rightarrow> peer_store \<Rightarrow> peer_store" where
  "unmark_outbound addr ps = ps\<lparr>outbound := hs_remove addr (outbound ps)\<rparr>"

definition mark_inbound :: "string \<Rightarrow> peer_store \<Rightarrow> peer_store" where
  "mark_inbound addr ps = ps\<lparr>inbound := snd (hs_insert addr (inbound ps))\<rparr>"

definition unmark_inbound :: "string \<Rightarrow> peer_store \<Rightarrow> peer_store" where
  "unmark_inbound addr ps = ps\<lparr>inbound := hs_remove addr (inbound ps)\<rparr>"

definition outbound_count :: "peer_store \<Rightarrow> nat" where
  "outbound_count ps = length (outbound ps)"

definition needs_outbound :: "peer_store \<Rightarrow> bool" where
  "needs_outbound ps \<longleftrightarrow> length (outbound ps) < MIN_OUTBOUND"

section \<open>Anchors\<close>

fun join :: "string \<Rightarrow> string list \<Rightarrow> string" where
  "join sep [] = []"
| "join sep [x] = x"
| "join sep (x # y # xs) = x @ sep @ join sep (y # xs)"

text \<open>\<open>save_anchors\<close>: the contents written to the file.\<close>

definition save_anchors :: "peer_store \<Rightarrow> string" where
  "save_anchors ps = join [CHR 0x0a] (take ANCHOR_COUNT (outbound ps))"

text \<open>\<open>str::lines\<close>: the last line may lack its line feed; a carriage return before one goes.\<close>

definition strip_cr :: "string \<Rightarrow> string" where
  "strip_cr s = (if s \<noteq> [] \<and> last s = CHR 0x0d then butlast s else s)"

fun lines_acc :: "string \<Rightarrow> string \<Rightarrow> string list" where
  "lines_acc acc [] = (if acc = [] then [] else [acc])"
| "lines_acc acc (c # s) =
     (if c = CHR 0x0a then strip_cr acc # lines_acc [] s else lines_acc (acc @ [c]) s)"

text \<open>\<open>str::trim\<close> removes the characters with the Unicode property \<open>White_Space\<close>, here by their
  UTF-8 encodings.\<close>

definition white_space :: "string list" where
  "white_space = map (map char_of)
     ([[9], [10], [11], [12], [13], [32], [194, 133], [194, 160], [225, 154, 128]]
      @ map (\<lambda>n. [226, 128, n]) [128..<139]
      @ [[226, 128, 168], [226, 128, 169], [226, 128, 175], [226, 129, 159], [227, 128, 128 :: nat]])"

definition strips :: "string list \<Rightarrow> string \<Rightarrow> string option" where
  "strips ws s =
     map_option (\<lambda>w. drop (length w) s) (find (\<lambda>w. w \<noteq> [] \<and> take (length w) s = w) ws)"

lemma strips_shorter: "strips ws s = Some t \<Longrightarrow> length t < length s"
proof -
  assume "strips ws s = Some t"
  then obtain w where "w \<noteq> []" "take (length w) s = w" "t = drop (length w) s"
    by (auto simp: strips_def find_Some_iff)
  then have "0 < length w" "0 < length s" by auto
  with \<open>t = _\<close> show ?thesis by simp
qed

function trim_start :: "string list \<Rightarrow> string \<Rightarrow> string" where
  "trim_start ws s = (case strips ws s of None \<Rightarrow> s | Some t \<Rightarrow> trim_start ws t)"
  by pat_completeness auto
termination
  by (relation "measure (length \<circ> snd)") (auto dest: strips_shorter)

declare trim_start.simps [simp del]

definition trim :: "string \<Rightarrow> string" where
  "trim s = rev (trim_start (map rev white_space) (rev (trim_start white_space s)))"

definition load_anchors :: "string option \<Rightarrow> string list" where
  "load_anchors file =
     filter (\<lambda>l. l \<noteq> []) (map trim (lines_acc [] (case file of None \<Rightarrow> [] | Some s \<Rightarrow> s)))"

section \<open>Buckets\<close>

lemmas addr_defs = subnet_def parse_socket_addr_def read_socket_addr_v4_def read_socket_addr_v6_def
  read_port_def skip_scope_id_def read_ipv6_addr_def read_ipv4_addr_def read_octet_def
  read_separator_def read_given_char_def read_number_def to_digit_def Let_def

text \<open>The invariant: buckets and sets without repetitions, no bucket over its limit, every
  address in the bucket of its subnet.\<close>

definition bucket_ok :: "u8 \<times> u8 \<Rightarrow> string list \<Rightarrow> bool" where
  "bucket_ok key b \<longleftrightarrow> distinct b \<and> length b \<le> BUCKET_LIMIT \<and> (\<forall>a\<in>set b. subnet a = key)"

definition peers_ok :: "peer_store \<Rightarrow> bool" where
  "peers_ok ps \<longleftrightarrow> hm_ok (buckets ps) \<and> distinct (outbound ps) \<and> distinct (inbound ps)
     \<and> (\<forall>key b. hm_get (buckets ps) key = Some b \<longrightarrow> bucket_ok key b)"

lemma peers_ok_new: "peers_ok peer_store_new"
  by (simp add: peers_ok_def peer_store_new_def)

lemma bucket_of_ok: "peers_ok ps \<Longrightarrow> bucket_ok key (bucket_of ps key)"
proof -
  assume "peers_ok ps"
  then have "hm_get (buckets ps) key = Some b \<Longrightarrow> bucket_ok key b" for b
    unfolding peers_ok_def by blast
  then show ?thesis by (cases "hm_get (buckets ps) key") (simp_all add: bucket_of_def bucket_ok_def)
qed

lemma peers_ok_update:
  "peers_ok ps \<Longrightarrow> bucket_ok key b \<Longrightarrow> peers_ok (ps\<lparr>buckets := hm_insert key b (buckets ps)\<rparr>)"
  by (auto simp: peers_ok_def)

lemma distinct_hs_insert [simp]: "distinct xs \<Longrightarrow> distinct (snd (hs_insert x xs))"
  by (simp add: hs_insert_def)

lemma distinct_hs_remove [simp]: "distinct xs \<Longrightarrow> distinct (hs_remove x xs)"
  by (simp add: hs_remove_def)

lemma bucket_ok_insert:
  "bucket_ok key b \<Longrightarrow> subnet a = key \<Longrightarrow> length b < BUCKET_LIMIT \<Longrightarrow>
     bucket_ok key (snd (hs_insert a b))"
  by (auto simp: bucket_ok_def hs_insert_def)

lemma bucket_ok_remove: "bucket_ok k b \<Longrightarrow> bucket_ok k (hs_remove a b)"
  unfolding bucket_ok_def hs_remove_def
  by (auto intro: order_trans [OF length_filter_le])

lemma peers_ok_add: "peers_ok ps \<Longrightarrow> peers_ok (snd (add_known a ps))"
  using bucket_of_ok [of ps "subnet a"] bucket_ok_insert [OF _ refl, of a "bucket_of ps (subnet a)"]
  by (auto simp: add_known_def Let_def split: prod.splits intro: peers_ok_update)

lemma peers_ok_remove: "peers_ok ps \<Longrightarrow> peers_ok (remove_known a ps)"
  using bucket_of_ok [of ps "subnet a"]
  by (auto simp: remove_known_def bucket_of_def Let_def split: option.splits
      intro!: peers_ok_update bucket_ok_remove)

lemma peers_ok_marks:
  "peers_ok ps \<Longrightarrow> peers_ok (mark_outbound a ps)" "peers_ok ps \<Longrightarrow> peers_ok (unmark_outbound a ps)"
  "peers_ok ps \<Longrightarrow> peers_ok (mark_inbound a ps)" "peers_ok ps \<Longrightarrow> peers_ok (unmark_inbound a ps)"
  by (simp_all add: peers_ok_def mark_outbound_def unmark_outbound_def mark_inbound_def
      unmark_inbound_def)

inductive peer_step :: "peer_store \<Rightarrow> peer_store \<Rightarrow> bool" where
  "peer_step ps (snd (add_known a ps))"
| "peer_step ps (remove_known a ps)"
| "peer_step ps (mark_outbound a ps)"
| "peer_step ps (unmark_outbound a ps)"
| "peer_step ps (mark_inbound a ps)"
| "peer_step ps (unmark_inbound a ps)"

inductive_cases peer_stepE: "peer_step ps ps'"

interpretation peer_sys: guarded_system "\<lambda>ps. ps = peer_store_new" peer_step peers_ok
  by unfold_locales (auto elim!: peer_stepE intro: peers_ok_new peers_ok_add peers_ok_remove peers_ok_marks)

lemma in_all_known:
  "peers_ok ps \<Longrightarrow> a \<in> set (all_known ps) \<longleftrightarrow> contains_known a ps"
proof -
  assume ok: "peers_ok ps"
  then have mem: "(k, b) \<in> set (buckets ps) \<longleftrightarrow> hm_get (buckets ps) k = Some b" for k b
    by (simp add: peers_ok_def in_set_hm_get)
  have "a \<in> set (all_known ps) \<longleftrightarrow> (\<exists>k b. hm_get (buckets ps) k = Some b \<and> a \<in> set b)"
    unfolding all_known_def by (simp add: Bex_def split_paired_Ex mem)
  also have "\<dots> \<longleftrightarrow> (\<exists>b. hm_get (buckets ps) (subnet a) = Some b \<and> a \<in> set b)"
    using ok unfolding peers_ok_def bucket_ok_def by metis
  also have "\<dots> \<longleftrightarrow> contains_known a ps"
    by (simp add: contains_known_def split: option.splits)
  finally show ?thesis .
qed

lemma length_all_known: "length (all_known ps) = known_count ps"
  by (simp add: all_known_def known_count_def length_concat comp_def)

text \<open>The known addresses of one subnet are those of its bucket.\<close>

lemma buckets_by_subnet:
  assumes "hm_ok m" "\<And>k b. (k, b) \<in> set m \<Longrightarrow> bucket_ok k b"
  shows "filter (\<lambda>a. subnet a = k) (concat (map snd m)) =
    (case hm_get m k of None \<Rightarrow> [] | Some b \<Rightarrow> b)"
  using assms
proof (induction m)
  case Nil
  then show ?case by simp
next
  case (Cons p m)
  obtain k' b where p: "p = (k', b)" by (cases p)
  have "filter (\<lambda>a. subnet a = k) b = (if k = k' then b else [])"
    using Cons.prems(2) [of k' b] by (auto simp: p bucket_ok_def filter_empty_conv)
  with Cons show ?case
    by (auto simp: p hm_ok_Cons hm_get_Cons split: option.splits)
qed

lemma known_in_subnet:
  assumes "peers_ok ps"
  shows "filter (\<lambda>a. subnet a = k) (all_known ps) = bucket_of ps k"
  unfolding all_known_def bucket_of_def
  using assms by (intro buckets_by_subnet) (auto simp: peers_ok_def in_set_hm_get)

text \<open>C30: eclipse resistance of the address store: whatever sequence of additions, removals and
  connection marks is applied to a fresh store, at most \<open>BUCKET_LIMIT\<close> of the known addresses
  lie in any one subnet, and none is listed twice.\<close>

theorem subnet_capacity:
  assumes "peer_step\<^sup>*\<^sup>* peer_store_new ps"
  shows "length (filter (\<lambda>a. subnet a = k) (all_known ps)) \<le> BUCKET_LIMIT
    \<and> distinct (filter (\<lambda>a. subnet a = k) (all_known ps))"
proof -
  have "peers_ok ps" using peer_sys.reachable_inv [OF refl assms] .
  then show ?thesis
    using bucket_of_ok [of ps k] by (simp add: known_in_subnet bucket_ok_def)
qed

theorem subnet_capacity_witness:
  "peer_step\<^sup>*\<^sup>* peer_store_new (snd (add_known ''10.1.2.3:8333'' peer_store_new))
   \<and> subnet ''10.1.2.3:8333'' = (10, 1)
   \<and> length (filter (\<lambda>a. subnet a = (10, 1))
       (all_known (snd (add_known ''10.1.2.3:8333'' peer_store_new)))) \<le> BUCKET_LIMIT"
proof -
  have r: "peer_step\<^sup>*\<^sup>* peer_store_new (snd (add_known ''10.1.2.3:8333'' peer_store_new))"
    using peer_step.intros(1) [of peer_store_new "''10.1.2.3:8333''"] by (rule r_into_rtranclp)
  moreover have "subnet ''10.1.2.3:8333'' = (10, 1)" by (simp add: addr_defs)
  ultimately show ?thesis using subnet_capacity [OF r] by blast
qed

lemma candidates_spec:
  "peers_ok ps \<Longrightarrow> a \<in> set (outbound_candidates ps) \<longleftrightarrow>
     contains_known a ps \<and> a \<notin> set (outbound ps) \<and> a \<notin> set (inbound ps)"
  by (auto simp: outbound_candidates_def in_all_known)

lemma random_unconnected_candidate:
  "random_unconnected r ps = Some a \<Longrightarrow> a \<in> set (outbound_candidates ps)"
  unfolding random_unconnected_def outbound_candidates_def Let_def
  by (metis length_greater_0_conv mod_less_divisor nth_mem option.discI option.inject)

lemma add_known_spec:
  assumes "peers_ok ps"
  shows "fst (add_known a ps) \<longleftrightarrow>
      \<not> contains_known a ps \<and> length (bucket_of ps (subnet a)) < BUCKET_LIMIT"
    "contains_known b (snd (add_known a ps)) \<longleftrightarrow> contains_known b ps \<or> (b = a \<and> fst (add_known a ps))"
  by (auto simp: add_known_def contains_known_def bucket_of_def hs_insert_def Let_def
      split: option.splits if_splits)

section \<open>Reading anchors back\<close>

text \<open>An address as the store keeps it: not empty, every character printable ASCII.\<close>

definition plain :: "string \<Rightarrow> bool" where
  "plain s \<longleftrightarrow> s \<noteq> [] \<and> (\<forall>c\<in>set s. 33 \<le> (of_char c :: nat) \<and> (of_char c :: nat) \<le> 126)"

definition is_plain_char :: "char \<Rightarrow> bool" where
  "is_plain_char c \<longleftrightarrow> 33 \<le> (of_char c :: nat) \<and> (of_char c :: nat) \<le> 126"

lemma white_space_not_plain:
  "w \<in> set white_space \<Longrightarrow> w \<noteq> [] \<and> \<not> is_plain_char (hd w) \<and> \<not> is_plain_char (last w)"
  by (auto simp: white_space_def is_plain_char_def upt_rec_numeral)

lemma trim_start_plain:
  assumes "\<And>w. w \<in> set ws \<Longrightarrow> w \<noteq> [] \<and> \<not> is_plain_char (hd w)" "s \<noteq> []" "is_plain_char (hd s)"
  shows "trim_start ws s = s"
proof -
  have "take (length w) s \<noteq> w" if "w \<in> set ws" for w
  proof
    assume "take (length w) s = w"
    then have "hd w = hd s" using assms(1) [OF that] assms(2) by (metis hd_take length_greater_0_conv)
    then show False using assms(1) [OF that] assms(3) by simp
  qed
  then have "strips ws s = None" by (auto simp: strips_def find_None_iff)
  then show ?thesis by (simp add: trim_start.simps)
qed

lemma plain_char: "plain s \<Longrightarrow> c \<in> set s \<Longrightarrow> is_plain_char c"
  by (simp add: plain_def is_plain_char_def)

lemma trim_plain:
  assumes "plain s"
  shows "trim s = s"
proof -
  have ne: "s \<noteq> []" using assms by (simp add: plain_def)
  have "trim_start white_space s = s"
    using ne plain_char [OF assms] white_space_not_plain by (intro trim_start_plain) auto
  moreover have "trim_start (map rev white_space) (rev s) = rev s"
    using ne plain_char [OF assms] white_space_not_plain
    by (intro trim_start_plain) (auto simp: hd_rev)
  ultimately show ?thesis by (simp add: trim_def)
qed

lemma lines_acc_plain:
  "list_all is_plain_char l \<Longrightarrow> lines_acc acc (l @ t) = lines_acc (acc @ l) t"
  by (induction l arbitrary: acc) (auto simp: is_plain_char_def)

lemma strip_cr_plain: "plain s \<Longrightarrow> strip_cr s = s"
proof -
  assume "plain s"
  moreover from this have "s \<noteq> []" by (simp add: plain_def)
  ultimately have "is_plain_char (last s)" by (simp add: plain_char)
  then show ?thesis by (auto simp: strip_cr_def is_plain_char_def)
qed

lemma lines_join_plain:
  "list_all plain ls \<Longrightarrow> lines_acc [] (join [CHR 0x0a] ls) = ls"
proof (induction "[CHR 0x0a]" ls rule: join.induct)
  case (2 x)
  then show ?case
    using lines_acc_plain [of x "[]" "[]"] by (auto simp: list_all_iff plain_char) (simp add: plain_def)
next
  case (3 x y xs)
  then show ?case
    using lines_acc_plain [of x "[]"] by (auto simp: list_all_iff plain_char strip_cr_plain)
qed simp

lemma anchors_roundtrip:
  assumes "list_all plain (outbound ps)"
  shows "load_anchors (Some (save_anchors ps)) = take ANCHOR_COUNT (outbound ps)"
proof -
  let ?ls = "take ANCHOR_COUNT (outbound ps)"
  have "list_all plain ?ls" using assms by (auto simp: list_all_iff dest: in_set_takeD)
  moreover from this have "map trim ?ls = ?ls" "filter (\<lambda>l. l \<noteq> []) ?ls = ?ls"
    by (auto simp: list_all_iff trim_plain plain_def intro!: map_idI filter_True)
  ultimately show ?thesis by (simp add: load_anchors_def save_anchors_def lines_join_plain)
qed

end
