(* ===== verification/Node.thy ===== *)
theory Node
  imports Chain_Properties Rate_Limit Peers
begin

text \<open>
  The node: \<open>src/network/node.rs\<close>, the handling of every message of a peer, of inbound and
  outbound connections and of the background tasks. The shared state (chain, address store,
  rate limiters, each behind a lock) is one record; a message is handled as one step, with the
  chain as it is when the step starts. What the operating system decides is an argument: the
  clocks (\<open>now\<close> in seconds, instants in nanoseconds), whether a send succeeds (\<open>W\<close>, from the
  messages already sent), whether a connection comes up, what a file write leaves behind
  (\<open>wr\<close>). The broadcast channel is the list of messages given to it, \<open>relayed\<close>. Shown: a block
  locator is always produced, starts at the tip and ends at the genesis block; the headers
  asked for after a \<open>Headers\<close> message form a hash chain from a known block; replies are
  bounded; no message takes the chain, the store or the limiters out of their invariants.
\<close>

section \<open>State\<close>

definition MAX_ADDR_PER_MESSAGE :: nat where "MAX_ADDR_PER_MESSAGE = 1000"
definition MAX_KNOWN_PEERS :: nat where "MAX_KNOWN_PEERS = 4096"
definition MAX_USER_AGENT_LEN :: nat where "MAX_USER_AGENT_LEN = 256"
definition MAX_BLOCKS_PER_GETBLOCKS :: nat where "MAX_BLOCKS_PER_GETBLOCKS = 500"
definition MAX_LOCATOR_HASHES :: nat where "MAX_LOCATOR_HASHES = 32"
definition FEELER_INTERVAL_SECS :: u64 where "FEELER_INTERVAL_SECS = 120"
definition OUTBOUND_CHECK_INTERVAL_SECS :: u64 where "OUTBOUND_CHECK_INTERVAL_SECS = 30"

record relay_message =
  relay_source :: string
  relay_body :: message

record 'd node =
  node_chain :: "'d blockchain"
  listen_addr :: string
  node_magic :: u32
  node_peers :: peer_store
  relayed :: "relay_message list"
  rate_limiters :: node_rate_limiter
  anchor_file :: "string option"

text \<open>A session with one peer: the node and what was sent to that peer.\<close>

record 'd session =
  se_node :: "'d node"
  se_sent :: "message list"

datatype node_err =
    MessageRateLimit
  | UserAgentTooLong nat
  | WrongMagic u32
  | UnsupportedVersion u32
  | GetBlocksRateLimit
  | BlockRateLimit
  | TransactionRateLimit
  | AddrTooLong nat
  | SendFailed
  | NodeChain chain_err

type_synonym 'd handled = "('d session, node_err, unit) st_result"

definition node_new :: "'d blockchain \<Rightarrow> string \<Rightarrow> u32 \<Rightarrow> string option \<Rightarrow> 'd node" where
  "node_new c addr magic file =
     \<lparr>node_chain = c, listen_addr = addr, node_magic = magic, node_peers = peer_store_new,
      relayed = [], rate_limiters = node_rate_limiter_new, anchor_file = file\<rparr>"

text \<open>\<open>peer_writer.send(..).await?\<close> and \<open>relay_tx.send(..)\<close>.\<close>

definition send :: "(message list \<Rightarrow> message \<Rightarrow> bool) \<Rightarrow> message \<Rightarrow> 'd session \<Rightarrow> 'd handled" where
  "send W m s =
     (if W (se_sent s) m then (Inr (), s\<lparr>se_sent := se_sent s @ [m]\<rparr>) else (Inl SendFailed, s))"

fun send_all :: "(message list \<Rightarrow> message \<Rightarrow> bool) \<Rightarrow> message list \<Rightarrow> 'd session \<Rightarrow> 'd handled" where
  "send_all W [] s = (Inr (), s)"
| "send_all W (m # ms) s = try_st (send W m s) (\<lambda>_ s. send_all W ms s)"

definition relay :: "string \<Rightarrow> message \<Rightarrow> 'd node \<Rightarrow> 'd node" where
  "relay source m nd = nd\<lparr>relayed := relayed nd @ [\<lparr>relay_source = source, relay_body = m\<rparr>]\<rparr>"

section \<open>Locators\<close>

definition is_valid_peer_addr :: "string \<Rightarrow> bool" where
  "is_valid_peer_addr addr \<longleftrightarrow> parse_socket_addr addr \<noteq> None"

definition locator_push :: "'x hash_lib_scheme \<Rightarrow> block list \<Rightarrow> u64 \<Rightarrow> string list \<Rightarrow> string list" where
  "locator_push X bs h locator =
     (if unat h < length bs then locator @ [hash_hex X (bs ! unat h)] else locator)"

partial_function (option) locator_loop ::
  "'x hash_lib_scheme \<Rightarrow> block list \<Rightarrow> u64 \<Rightarrow> u64 \<Rightarrow> string list \<Rightarrow> string list option" where
  "locator_loop X bs h step locator =
     (let locator1 = locator_push X bs h locator in
      if h = 0 \<or> MAX_LOCATOR_HASHES \<le> length locator1 then Some locator1
      else locator_loop X bs (saturating_sub h step)
        (if 10 < length locator1 then saturating_mul step 2 else step) locator1)"

definition block_locator :: "'x hash_lib_scheme \<Rightarrow> 'd blockchain \<Rightarrow> string list option" where
  "block_locator X c =
     map_option (\<lambda>locator.
       if locator \<noteq> [] \<and> hash_hex X (blocks c ! 0) = last locator then locator
       else locator @ [hash_hex X (blocks c ! 0)])
     (locator_loop X (blocks c) (chain_height c) 1 [])"

fun find_height :: "(string, nat) hmap \<Rightarrow> string list \<Rightarrow> nat option" where
  "find_height idx [] = None"
| "find_height idx (h # hs) =
     (case hm_get idx h of Some n \<Rightarrow> Some n | None \<Rightarrow> find_height idx hs)"

definition locator_start :: "'d blockchain \<Rightarrow> string list \<Rightarrow> nat" where
  "locator_start c hashes =
     (case find_height (block_index c) hashes of Some n \<Rightarrow> n + 1 | None \<Rightarrow> 0)"

section \<open>Messages\<close>

text \<open>In \<open>on_version\<close> the value \<open>None\<close> of the locator would be a loop that does not end;
  \<open>block_locator_some\<close> below shows that it does not occur.\<close>

definition on_version ::
  "'x hash_lib_scheme \<Rightarrow> (message list \<Rightarrow> message \<Rightarrow> bool) \<Rightarrow> u32 \<Rightarrow> u32 \<Rightarrow> u64 \<Rightarrow> string \<Rightarrow> 'd session
     \<Rightarrow> 'd handled" where
  "on_version X W ver magic best_height user_agent s =
     (if MAX_USER_AGENT_LEN < length user_agent then (Inl (UserAgentTooLong (length user_agent)), s)
      else if magic \<noteq> node_magic (se_node s) then (Inl (WrongMagic magic), s)
      else if ver \<noteq> PROTOCOL_VERSION then (Inl (UnsupportedVersion ver), s)
      else
        try_st (send W Verack s) (\<lambda>_ s.
        let c = node_chain (se_node s) in
        if chain_height c < best_height then
          (case block_locator X c of
             None \<Rightarrow> (Inr (), s)
           | Some locator \<Rightarrow> send W (GetHeaders locator) s)
        else (Inr (), s)))"

definition on_get_headers ::
  "(message list \<Rightarrow> message \<Rightarrow> bool) \<Rightarrow> string list \<Rightarrow> 'd session \<Rightarrow> 'd handled" where
  "on_get_headers W locator_hashes s =
     (let c = node_chain (se_node s);
          headers = map header (take MAX_HEADERS_PER_RESPONSE
            (drop (locator_start c locator_hashes) (blocks c)))
      in if headers \<noteq> [] then send W (Headers headers) s else (Inr (), s))"

definition block_item :: "string \<Rightarrow> inv_item" where
  "block_item h = \<lparr>inv_kind = InvBlock, inv_hash = h\<rparr>"

fun headers_loop ::
  "'x hash_lib_scheme \<Rightarrow> 'd blockchain \<Rightarrow> string option \<Rightarrow> block_header list \<Rightarrow> inv_item list" where
  "headers_loop X c prev [] = []"
| "headers_loop X c prev (bh # hs) =
     (let parent_known = block_by_hash c (prev_hash bh) \<noteq> None;
          prev_matches = (case prev of Some p \<Rightarrow> prev_hash bh = p | None \<Rightarrow> parent_known);
          expected_parent = (case prev of Some p \<Rightarrow> p | None \<Rightarrow> prev_hash bh)
      in if prev_matches \<and> is_ok (validate_header_only X bh expected_parent None) then
           let hash = header_hash_hex X bh;
               known = block_by_hash c hash \<noteq> None
           in (if known then [] else [block_item hash]) @ headers_loop X c (Some hash) hs
         else [])"

function chunks :: "nat \<Rightarrow> 'a list \<Rightarrow> 'a list list" where
  "chunks n xs = (if xs = [] \<or> n = 0 then [] else take n xs # chunks n (drop n xs))"
  by pat_completeness auto
termination
  by (relation "measure (length \<circ> snd)") auto

declare chunks.simps [simp del]

definition on_headers ::
  "'x hash_lib_scheme \<Rightarrow> (message list \<Rightarrow> message \<Rightarrow> bool) \<Rightarrow> block_header list \<Rightarrow> 'd session \<Rightarrow> 'd handled"
where
  "on_headers X W headers s =
     (let to_fetch = headers_loop X (node_chain (se_node s)) None headers
      in send_all W (map GetData (chunks MAX_GETDATA_INFLIGHT to_fetch)) s)"

definition on_get_blocks ::
  "'x hash_lib_scheme \<Rightarrow> (message list \<Rightarrow> message \<Rightarrow> bool) \<Rightarrow> nat \<Rightarrow> string \<Rightarrow> string list \<Rightarrow> 'd session
     \<Rightarrow> 'd handled" where
  "on_get_blocks X W inst addr locator_hashes s =
     (case rl_check inst addr (rl_getblocks (rate_limiters (se_node s))) of
        (ok, rl) \<Rightarrow>
          let s = s\<lparr>se_node := (se_node s)\<lparr>rate_limiters := (rate_limiters (se_node s))\<lparr>rl_getblocks := rl\<rparr>\<rparr>\<rparr>;
              c = node_chain (se_node s);
              items = map (\<lambda>b. block_item (hash_hex X b)) (take MAX_BLOCKS_PER_GETBLOCKS
                (drop (locator_start c locator_hashes) (blocks c)))
          in if \<not> ok then (Inl GetBlocksRateLimit, s)
             else if items \<noteq> [] then send W (Inv items) s else (Inr (), s))"

definition inv_needed :: "'d blockchain \<Rightarrow> inv_item \<Rightarrow> bool" where
  "inv_needed c item \<longleftrightarrow>
     (inv_kind item = InvBlock \<and> block_by_hash c (inv_hash item) = None)
     \<or> (inv_kind item = InvTransaction \<and> \<not> pool_contains (chain_mempool c) (inv_hash item))"

definition on_inv ::
  "(message list \<Rightarrow> message \<Rightarrow> bool) \<Rightarrow> inv_item list \<Rightarrow> 'd session \<Rightarrow> 'd handled" where
  "on_inv W items s =
     (let needed = filter (inv_needed (node_chain (se_node s))) items
      in if needed \<noteq> [] then send W (GetData needed) s else (Inr (), s))"

definition response :: "'d blockchain \<Rightarrow> inv_item \<Rightarrow> message option" where
  "response c item =
     (case inv_kind item of
        InvBlock \<Rightarrow> map_option BlockMsg (block_by_hash c (inv_hash item))
      | InvTransaction \<Rightarrow> map_option TxMsg (pool_get (chain_mempool c) (inv_hash item)))"

definition on_get_data ::
  "(message list \<Rightarrow> message \<Rightarrow> bool) \<Rightarrow> inv_item list \<Rightarrow> 'd session \<Rightarrow> 'd handled" where
  "on_get_data W items s =
     send_all W (List.map_filter (response (node_chain (se_node s))) items) s"

definition on_block ::
  "('d, 'x) store_lib_scheme \<Rightarrow> u64 \<Rightarrow> nat \<Rightarrow> string \<Rightarrow> block \<Rightarrow> 'd session \<Rightarrow> 'd handled" where
  "on_block X now inst addr b s =
     (case rl_check inst addr (rl_blocks (rate_limiters (se_node s))) of
        (ok, rl) \<Rightarrow>
          let nd = (se_node s)\<lparr>rate_limiters := (rate_limiters (se_node s))\<lparr>rl_blocks := rl\<rparr>\<rparr> in
          if \<not> ok then (Inl BlockRateLimit, s\<lparr>se_node := nd\<rparr>)
          else
            (case add_block X now b (node_chain nd) of
               (Inr _, c) \<Rightarrow>
                 (Inr (), s\<lparr>se_node := relay addr (Inv [block_item (hash_hex X b)]) (nd\<lparr>node_chain := c\<rparr>)\<rparr>)
             | (Inl _, c) \<Rightarrow> (Inr (), s\<lparr>se_node := nd\<lparr>node_chain := c\<rparr>\<rparr>)))"

definition on_tx ::
  "('d, 'x) store_lib_scheme \<Rightarrow> nat \<Rightarrow> string \<Rightarrow> transaction \<Rightarrow> 'd session \<Rightarrow> 'd handled" where
  "on_tx X inst addr tx s =
     (case rl_check inst addr (rl_transactions (rate_limiters (se_node s))) of
        (ok, rl) \<Rightarrow>
          let nd = (se_node s)\<lparr>rate_limiters := (rate_limiters (se_node s))\<lparr>rl_transactions := rl\<rparr>\<rparr> in
          if \<not> ok then (Inl TransactionRateLimit, s\<lparr>se_node := nd\<rparr>)
          else
            (case submit_transaction X tx (node_chain nd) of
               (Inr _, c) \<Rightarrow>
                 (Inr (), s\<lparr>se_node := relay addr
                    (Inv [\<lparr>inv_kind = InvTransaction, inv_hash = txid_hex X tx\<rparr>]) (nd\<lparr>node_chain := c\<rparr>)\<rparr>)
             | (Inl _, c) \<Rightarrow> (Inr (), s\<lparr>se_node := nd\<lparr>node_chain := c\<rparr>\<rparr>)))"

fun addr_loop :: "string list \<Rightarrow> peer_store \<Rightarrow> peer_store" where
  "addr_loop [] store = store"
| "addr_loop (a # as) store =
     (if \<not> is_valid_peer_addr a then addr_loop as store
      else if MAX_KNOWN_PEERS \<le> known_count store then store
      else addr_loop as (snd (add_known a store)))"

definition on_addr :: "string list \<Rightarrow> 'd session \<Rightarrow> 'd handled" where
  "on_addr addrs s =
     (if MAX_ADDR_PER_MESSAGE < length addrs then (Inl (AddrTooLong (length addrs)), s)
      else (Inr (), s\<lparr>se_node := (se_node s)\<lparr>node_peers := addr_loop addrs (node_peers (se_node s))\<rparr>\<rparr>))"

text \<open>One message from the peer at \<open>addr\<close>: the general rate limit, then the message.\<close>

definition handle_message ::
  "('d, 'x) store_lib_scheme \<Rightarrow> (message list \<Rightarrow> message \<Rightarrow> bool) \<Rightarrow> u64 \<Rightarrow> nat \<Rightarrow> nat \<Rightarrow> string
     \<Rightarrow> message \<Rightarrow> 'd session \<Rightarrow> 'd handled" where
  "handle_message X W now inst inst' addr msg s =
     (case rl_check inst addr (rl_messages (rate_limiters (se_node s))) of
        (ok, rl) \<Rightarrow>
          let s = s\<lparr>se_node := (se_node s)\<lparr>rate_limiters := (rate_limiters (se_node s))\<lparr>rl_messages := rl\<rparr>\<rparr>\<rparr> in
          if \<not> ok then (Inl MessageRateLimit, s)
          else
            (case msg of
               Version ver magic best_height user_agent \<Rightarrow> on_version X W ver magic best_height user_agent s
             | Verack \<Rightarrow> (Inr (), s)
             | GetHeaders locator_hashes \<Rightarrow> on_get_headers W locator_hashes s
             | Headers headers \<Rightarrow> on_headers X W headers s
             | GetBlocks locator_hashes \<Rightarrow> on_get_blocks X W inst' addr locator_hashes s
             | Inv items \<Rightarrow> on_inv W items s
             | GetData items \<Rightarrow> on_get_data W items s
             | BlockMsg b \<Rightarrow> on_block X now inst' addr b s
             | TxMsg tx \<Rightarrow> on_tx X inst' addr tx s
             | Ping n \<Rightarrow> send W (Pong n) s
             | Pong _ \<Rightarrow> (Inr (), s)
             | Addr addrs \<Rightarrow> on_addr addrs s))"

text \<open>A message from the broadcast channel goes to every peer but its source.\<close>

definition handle_relay ::
  "(message list \<Rightarrow> message \<Rightarrow> bool) \<Rightarrow> string \<Rightarrow> relay_message \<Rightarrow> 'd session \<Rightarrow> 'd handled" where
  "handle_relay W addr r s =
     (if relay_source r \<noteq> addr then send W (relay_body r) s else (Inr (), s))"

section \<open>Connections and background tasks\<close>

definition version_message :: "'d node \<Rightarrow> string \<Rightarrow> message" where
  "version_message nd agent =
     Version PROTOCOL_VERSION (node_magic nd) (chain_height (node_chain nd)) agent"

text \<open>\<open>save_anchors\<close> with its result ignored: \<open>wr\<close> is what the write leaves in the file.\<close>

definition write_anchors ::
  "(string \<Rightarrow> string option \<Rightarrow> string option) \<Rightarrow> 'd node \<Rightarrow> 'd node" where
  "write_anchors wr nd = nd\<lparr>anchor_file := wr (save_anchors (node_peers nd)) (anchor_file nd)\<rparr>"

text \<open>An accepted connection: \<open>handshake\<close> and \<open>sent\<close> tell whether the Noise handshake and the
  version message went through; the session starts when both did.\<close>

definition accept_peer ::
  "nat \<Rightarrow> bool \<Rightarrow> bool \<Rightarrow> string \<Rightarrow> 'd node \<Rightarrow> 'd session option \<times> 'd node" where
  "accept_peer inst handshake sent addr nd =
     (case rl_check inst addr (rl_connections (rate_limiters nd)) of
        (ok, rl) \<Rightarrow>
          let nd = nd\<lparr>rate_limiters := (rate_limiters nd)\<lparr>rl_connections := rl\<rparr>\<rparr> in
          if \<not> ok \<or> \<not> handshake \<or> \<not> sent then (None, nd)
          else
            let nd1 = nd\<lparr>node_peers := mark_inbound addr (snd (add_known addr (node_peers nd)))\<rparr>
            in (Some \<lparr>se_node = nd1, se_sent = [version_message nd ''arkos/0.1'']\<rparr>, nd1))"

definition close_inbound ::
  "(string \<Rightarrow> string option \<Rightarrow> string option) \<Rightarrow> string \<Rightarrow> 'd node \<Rightarrow> 'd node" where
  "close_inbound wr addr nd =
     write_anchors wr (nd\<lparr>node_peers := unmark_inbound addr (node_peers nd)\<rparr>)"

text \<open>\<open>connect_to_peer\<close>: \<open>None\<close> when the connection or the version message fails.\<close>

definition connect_to_peer ::
  "bool \<Rightarrow> bool \<Rightarrow> string \<Rightarrow> 'd node \<Rightarrow> 'd session option \<times> 'd node" where
  "connect_to_peer connected sent addr nd =
     (if \<not> connected \<or> \<not> sent then (None, nd)
      else
        let nd1 = nd\<lparr>node_peers := mark_outbound addr (snd (add_known addr (node_peers nd)))\<rparr>
        in (Some \<lparr>se_node = nd1, se_sent = [version_message nd ''arkos/0.1'']\<rparr>, nd1))"

definition close_outbound ::
  "(string \<Rightarrow> string option \<Rightarrow> string option) \<Rightarrow> string \<Rightarrow> 'd node \<Rightarrow> 'd node" where
  "close_outbound wr addr nd =
     write_anchors wr (nd\<lparr>node_peers := unmark_outbound addr (node_peers nd)\<rparr>)"

text \<open>The anchors dialled at start-up, the k-th with the outcome \<open>up k\<close>.\<close>

fun dial_anchors :: "(nat \<Rightarrow> bool \<times> bool) \<Rightarrow> nat \<Rightarrow> string list \<Rightarrow> 'd node \<Rightarrow> 'd node" where
  "dial_anchors up k [] nd = nd"
| "dial_anchors up k (a # as) nd =
     dial_anchors up (k + 1) as (snd (connect_to_peer (fst (up k)) (snd (up k)) a nd))"

definition start_node :: "(nat \<Rightarrow> bool \<times> bool) \<Rightarrow> 'd node \<Rightarrow> 'd node" where
  "start_node up nd = dial_anchors up 0 (load_anchors (anchor_file nd)) nd"

text \<open>The feeler task: a random idle address is dropped when it cannot be reached.\<close>

definition feeler :: "nat \<Rightarrow> bool \<Rightarrow> 'd node \<Rightarrow> 'd node" where
  "feeler r connected nd =
     (case random_unconnected r (node_peers nd) of
        None \<Rightarrow> nd
      | Some addr \<Rightarrow>
          if connected then nd else nd\<lparr>node_peers := remove_known addr (node_peers nd)\<rparr>)"

text \<open>The outbound-maintenance task: \<open>shuffle\<close> is the random order, \<open>up\<close> the outcomes of
  connecting and sending.\<close>

definition dial_outbound :: "(string \<Rightarrow> bool \<times> bool) \<Rightarrow> string \<Rightarrow> 'd node \<Rightarrow> 'd node" where
  "dial_outbound up addr nd =
     (if fst (up addr) \<and> snd (up addr)
      then nd\<lparr>node_peers := mark_outbound addr (node_peers nd)\<rparr> else nd)"

definition maintain_outbound ::
  "(string \<Rightarrow> string option \<Rightarrow> string option) \<Rightarrow> (string list \<Rightarrow> string list)
     \<Rightarrow> (string \<Rightarrow> bool \<times> bool) \<Rightarrow> 'd node \<Rightarrow> 'd node" where
  "maintain_outbound wr shuffle up nd =
     (let nd = write_anchors wr nd in
      if \<not> needs_outbound (node_peers nd) then nd
      else
        let candidates = outbound_candidates (node_peers nd) in
        if candidates = [] then nd
        else
          let deficit = MIN_OUTBOUND - outbound_count (node_peers nd)
          in fold (dial_outbound up) (take deficit (shuffle candidates)) nd)"

text \<open>\<open>None\<close>: the search for a nonce does not end.\<close>

definition mine_block_and_relay ::
  "('d, 'x) store_lib_scheme \<Rightarrow> u64 \<Rightarrow> u64 \<Rightarrow> string \<Rightarrow> 'd node \<Rightarrow> ('d node, node_err, unit) st_result option"
where
  "mine_block_and_relay X now now' miner_address nd =
     (case mine_block X now miner_address (node_chain nd) of
        None \<Rightarrow> None
      | Some b \<Rightarrow>
          (case add_block X now' b (node_chain nd) of
             (Inl e, c) \<Rightarrow> Some (Inl (NodeChain e), nd\<lparr>node_chain := c\<rparr>)
           | (Inr _, c) \<Rightarrow>
               Some (Inr (), relay [] (Inv [block_item (hash_hex X b)]) (nd\<lparr>node_chain := c\<rparr>))))"

section \<open>Locators end at the genesis block\<close>

text \<open>Hashes of active blocks by decreasing index.\<close>

definition hashes_at :: "'x hash_lib_scheme \<Rightarrow> block list \<Rightarrow> nat list \<Rightarrow> string list" where
  "hashes_at X bs is = map (\<lambda>i. hash_hex X (bs ! i)) is"

lemma hashes_at_simps [simp]:
  "hashes_at X bs [] = []" "hashes_at X bs (i # is) = hash_hex X (bs ! i) # hashes_at X bs is"
  "length (hashes_at X bs is) = length is" "hashes_at X bs is = [] \<longleftrightarrow> is = []"
  "hashes_at X bs (is @ js) = hashes_at X bs is @ hashes_at X bs js"
  by (simp_all add: hashes_at_def)

lemma locator_loop_Some:
  fixes h step :: u64
  assumes "0 < step" "unat h < length bs" "length acc < MAX_LOCATOR_HASHES"
  shows "\<exists>is. locator_loop X bs h step acc = Some (acc @ hashes_at X bs (unat h # is))
    \<and> sorted_wrt (>) (unat h # is) \<and> length acc + Suc (length is) \<le> MAX_LOCATOR_HASHES"
  using assms
proof (induction "unat h" arbitrary: h step acc rule: less_induct)
  case less
  let ?acc = "acc @ [hash_hex X (bs ! unat h)]"
  have push: "locator_push X bs h acc = ?acc" using less.prems(2) by (simp add: locator_push_def)
  show ?case
  proof (cases "h = 0 \<or> MAX_LOCATOR_HASHES \<le> length ?acc")
    case True
    then have "locator_loop X bs h step acc = Some ?acc"
      by (subst locator_loop.simps) (auto simp: Let_def push)
    then show ?thesis using less.prems(3) by (intro exI [of _ "[]"]) simp
  next
    case False
    define h1 where "h1 = saturating_sub h step"
    define st where "st = (if 10 < length ?acc then saturating_mul step 2 else step)"
    have pos: "0 < unat h" "0 < unat step" using False less.prems(1) by (simp_all add: word_less_nat_alt unat_eq_0 neq0_conv [symmetric] del: neq0_conv)
    then have lt: "unat h1 < unat h" by (simp add: h1_def unat_saturating_sub)
    have "unat (saturating_mul step 2) \<noteq> 0" using pos by (simp add: unat_saturating_mul)
    then have "0 < st" using less.prems(1) by (simp add: st_def word_less_nat_alt)
    moreover have "unat h1 < length bs" "length ?acc < MAX_LOCATOR_HASHES"
      using lt less.prems(2) False by auto
    ultimately obtain is' where is': "locator_loop X bs h1 st ?acc = Some (?acc @ hashes_at X bs (unat h1 # is'))"
      "sorted_wrt (>) (unat h1 # is')" "length ?acc + Suc (length is') \<le> MAX_LOCATOR_HASHES"
      using less.hyps [OF lt] by blast
    have "locator_loop X bs h step acc = locator_loop X bs h1 st ?acc"
      using False by (subst locator_loop.simps) (auto simp: Let_def push h1_def st_def)
    then show ?thesis
      using is' lt by (intro exI [of _ "unat h1 # is'"]) (auto intro: less_trans)
  qed
qed

lemma descending_last: "sorted_wrt (>) xs \<Longrightarrow> i \<in> set xs \<Longrightarrow> last xs \<le> (i :: nat)"
  by (induction xs) (auto intro: less_imp_le)

lemma active_hash_inject:
  assumes "chain_ok X c" "i < length (blocks c)" "j < length (blocks c)"
    "hash_hex X (blocks c ! i) = hash_hex X (blocks c ! j)"
  shows "i = j"
proof -
  have "hm_get (block_index c) (hash_hex X (blocks c ! i)) = Some i"
    "hm_get (block_index c) (hash_hex X (blocks c ! i)) = Some j"
    using assms by (auto simp: chain_ok_def active_ok_def index_ok_def)
  then show ?thesis by simp
qed

lemma block_locator_some:
  assumes "chain_ok X c"
  shows "\<exists>is. block_locator X c = Some (hashes_at X (blocks c) is) \<and> is \<noteq> []
    \<and> hd is = length (blocks c) - 1 \<and> last is = 0 \<and> sorted_wrt (>) is
    \<and> length is \<le> MAX_LOCATOR_HASHES + 1"
proof -
  have ne: "blocks c \<noteq> []" using assms by (simp add: chain_ok_def active_ok_def)
  have h: "unat (chain_height c) = length (blocks c) - 1"
    using chain_ok_tip(2) [OF assms] by (simp add: chain_height_def)
  obtain js where js: "locator_loop X (blocks c) (chain_height c) 1 [] =
      Some (hashes_at X (blocks c) (unat (chain_height c) # js))"
    "sorted_wrt (>) (unat (chain_height c) # js)" "Suc (length js) \<le> MAX_LOCATOR_HASHES"
    using locator_loop_Some [of 1 "chain_height c" "blocks c" "[]" X] ne h
    by (auto simp: MAX_LOCATOR_HASHES_def)
  let ?is = "unat (chain_height c) # js"
  have le: "i \<le> length (blocks c) - 1" if "i \<in> set ?is" for i
    using that js(2) h by auto
  have last_hash: "last (hashes_at X (blocks c) ?is) = hash_hex X (blocks c ! last ?is)"
    by (simp add: hashes_at_def last_map)
  show ?thesis
  proof (cases "hash_hex X (blocks c ! 0) = last (hashes_at X (blocks c) ?is)")
    case True
    have "last ?is < length (blocks c)" using le [of "last ?is"] ne by (cases "blocks c") auto
    then have "last ?is = 0"
      using True last_hash active_hash_inject [OF assms, of "last ?is" 0] ne by simp
    then show ?thesis
      using True js h by (intro exI [of _ ?is]) (auto simp: block_locator_def)
  next
    case False
    then have "last ?is \<noteq> 0" using last_hash by metis
    then have "0 < i" if "i \<in> set ?is" for i
      using descending_last [OF js(2) that] by linarith
    then have "sorted_wrt (>) (?is @ [0])" using js(2) by (simp add: sorted_wrt_append)
    then show ?thesis
      using False js h by (intro exI [of _ "?is @ [0]"]) (auto simp: block_locator_def)
  qed
qed

section \<open>Headers-first synchronisation\<close>

lemma find_height_Some:
  "find_height idx hs = Some n \<Longrightarrow> \<exists>h\<in>set hs. hm_get idx h = Some n"
  by (induction hs) (auto split: option.splits)

lemma find_height_None: "find_height idx hs = None \<longleftrightarrow> (\<forall>h\<in>set hs. hm_get idx h = None)"
  by (induction hs) (auto split: option.splits)

lemma locator_start_common:
  assumes ok: "chain_ok X c" "chain_ok X c'"
    and gen: "hash_hex X (blocks c ! 0) = hash_hex X (blocks c' ! 0)"
    and loc: "block_locator X c' = Some loc"
  obtains n j where "locator_start c loc = Suc n" "n < length (blocks c)" "j < length (blocks c')"
    "hash_hex X (blocks c' ! j) = hash_hex X (blocks c ! n)"
proof -
  obtain "is" where is': "loc = hashes_at X (blocks c') is" "is \<noteq> []" "hd is = length (blocks c') - 1"
    "last is = 0" "sorted_wrt (>) is"
    using block_locator_some [OF ok(2)] loc by auto
  have ne: "blocks c \<noteq> []" "blocks c' \<noteq> []" using ok by (auto simp: chain_ok_def active_ok_def)
  have idx: "hm_get (block_index c) h = Some i \<longleftrightarrow> i < length (blocks c) \<and> hash_hex X (blocks c ! i) = h" for h i
    using ok(1) by (simp add: chain_ok_def active_ok_def index_ok_def)
  have bound: "i < length (blocks c')" if "i \<in> set is" for i
  proof -
    have "i \<le> hd is" using that is'(2,5) by (cases "is") auto
    with is'(3) ne(2) show ?thesis by (cases "blocks c'") auto
  qed
  have "hash_hex X (blocks c' ! 0) \<in> set loc"
    using is'(1,2,4) last_in_set [OF is'(2)] by (auto simp: hashes_at_def)
  moreover have "hm_get (block_index c) (hash_hex X (blocks c' ! 0)) = Some 0"
    using gen ne(1) by (simp add: idx)
  ultimately have "find_height (block_index c) loc \<noteq> None" by (auto simp: find_height_None)
  then obtain n where n: "find_height (block_index c) loc = Some n" by auto
  then obtain h where h: "h \<in> set loc" "hm_get (block_index c) h = Some n"
    using find_height_Some by blast
  then obtain j where "j \<in> set is" "h = hash_hex X (blocks c' ! j)"
    using is'(1) by (auto simp: hashes_at_def)
  with n h(2) bound idx that [of n j] show ?thesis by (auto simp: locator_start_def)
qed

definition attaches :: "'x hash_lib_scheme \<Rightarrow> 'd blockchain \<Rightarrow> string option \<Rightarrow> block list \<Rightarrow> bool" where
  "attaches X c prev bs \<longleftrightarrow> bs = [] \<or>
     (case prev of Some p \<Rightarrow> prev_hash (header (hd bs)) = p
      | None \<Rightarrow> block_by_hash c (prev_hash (header (hd bs))) \<noteq> None)"

lemma linked_Cons:
  "linked X (b # bs) \<longleftrightarrow> linked X bs \<and> (bs \<noteq> [] \<longrightarrow> prev_hash (header (hd bs)) = hash_hex X b)"
  by (cases bs) (auto simp: linked_def nth_Cons split: nat.splits)

lemma headers_loop_linked:
  assumes "linked X bs" "list_all (\<lambda>b. meets_target X (header b)) bs" "attaches X c prev bs"
  shows "headers_loop X c prev (map header bs) =
    map (\<lambda>b. block_item (hash_hex X b)) (filter (\<lambda>b. block_by_hash c (hash_hex X b) = None) bs)"
  using assms
proof (induction bs arbitrary: prev)
  case Nil
  then show ?case by simp
next
  case (Cons b bs)
  have "attaches X c (Some (hash_hex X b)) bs"
    using Cons.prems(1) by (auto simp: attaches_def linked_Cons)
  with Cons show ?case
    by (auto simp: attaches_def linked_Cons validate_header_only_def hash_hex_def Let_def
        split: option.splits)
qed

lemma linked_drop: "linked X bs \<Longrightarrow> linked X (drop n bs)"
  by (auto simp: linked_def)

lemma linked_take: "linked X bs \<Longrightarrow> linked X (take n bs)"
  by (auto simp: linked_def)

text \<open>One round of headers-first synchronisation asks for exactly what is missing. Let two
  nodes have well-formed chains with the same genesis block, and let every later block of the
  first meet its target. The locator of the second, answered by the first with \<open>GetHeaders\<close>,
  gives headers for which the second requests exactly the blocks it does not have, in order.\<close>

theorem sync_requests_missing:
  assumes "chain_ok X c" "chain_ok X c'" "hash_hex X (blocks c ! 0) = hash_hex X (blocks c' ! 0)"
    "list_all (\<lambda>b. meets_target X (header b)) (tl (blocks c))"
    "block_locator X c' = Some loc" "reply = take MAX_HEADERS_PER_RESPONSE (drop (locator_start c loc) (blocks c))"
  shows "headers_loop X c' None (map header reply) =
    map (\<lambda>b. block_item (hash_hex X b)) (filter (\<lambda>b. block_by_hash c' (hash_hex X b) = None) reply)"
proof -
  obtain n j where nj: "locator_start c loc = Suc n" "n < length (blocks c)" "j < length (blocks c')"
    "hash_hex X (blocks c' ! j) = hash_hex X (blocks c ! n)"
    using locator_start_common [OF assms(1,2,3,5)] by blast
  have reply: "reply = take MAX_HEADERS_PER_RESPONSE (drop n (tl (blocks c)))"
    using assms(6) nj(1) by (simp add: drop_Suc)
  have lk: "linked X (blocks c)" using assms(1) by (simp add: chain_ok_def active_ok_def)
  show ?thesis
  proof (rule headers_loop_linked)
    show "linked X reply" using lk by (simp add: assms(6) linked_drop linked_take)
    show "list_all (\<lambda>b. meets_target X (header b)) reply"
      using assms(4) by (auto simp: reply list_all_iff dest!: in_set_takeD in_set_dropD)
    show "attaches X c' None reply"
    proof (cases "Suc n < length (blocks c)")
      case True
      then have "hd reply = blocks c ! Suc n"
        by (simp add: assms(6) nj(1) hd_take hd_drop_conv_nth MAX_HEADERS_PER_RESPONSE_def)
      then have "prev_hash (header (hd reply)) = hash_hex X (blocks c' ! j)"
        using lk True nj(4) by (simp add: linked_def)
      moreover have "hm_get (all_blocks c') (hash_hex X (blocks c' ! j)) = Some (blocks c' ! j)"
        using assms(2) nj(3) by (simp add: chain_ok_def active_ok_def stored_def list_all_length)
      ultimately show ?thesis by (simp add: attaches_def block_by_hash_def)
    next
      case False
      then show ?thesis by (simp add: attaches_def assms(6) nj(1))
    qed
  qed
qed

text \<open>Two concrete chains: the demonstration genesis block, and the same with one mined block.\<close>

lemma demo_added:
  "\<exists>c. add_block demo_lib 1700000100 demo_next demo_chain = (Inr (), c) \<and> blocks c = [demo_gen, demo_next]"
proof -
  obtain w m where wm: "checked_add (block_work 0x207fffff) (block_work (bits (header demo_next))) = Some w"
    "checked_add (total_minted demo_chain) (coinbase_value demo_next) = Some m"
    using demo_next_fits by blast
  have new: "hm_get (all_blocks demo_chain) (hash_hex demo_lib demo_next) = None"
    "height (tip demo_chain) + 1 \<noteq> 0"
    "hm_get (chain_work demo_chain) (hash_hex demo_lib (tip demo_chain)) = Some (block_work 0x207fffff)"
    using demo_next_hash by (simp_all add: demo_chain_fields) (simp add: demo_gen_def)
  note shape = mined_block_shape [OF demo_mined demo_chain_fields(4)]
  show ?thesis
    using extend_tip [OF demo_chain_ok(1) demo_chain_fields(3) new(1) _ _
        mined_block_valid [OF demo_chain_ok(1) demo_mined demo_chain_fields(4) demo_next_fits(1,2)]
        new(3) wm] shape(2,3) new(2) by (auto simp: demo_chain_fields)
qed

lemma demo_two_blocks:
  "\<exists>c :: (bytes \<Rightarrow> bytes option) blockchain. chain_ok demo_lib c \<and> tip_best demo_lib c
     \<and> blocks c = [demo_gen, demo_next]"
proof -
  obtain c where c: "add_block demo_lib 1700000100 demo_next demo_chain = (Inr (), c)"
    "blocks c = [demo_gen, demo_next]" using demo_added by blast
  then show ?thesis
    using add_block_ok [OF demo_chain_ok(1) demo_next_leaf c(1)] demo_chain_ok(2)
    by (intro exI [of _ c]) simp
qed

theorem sync_requests_missing_witness:
  "\<exists>(c :: (bytes \<Rightarrow> bytes option) blockchain) loc. chain_ok demo_lib c \<and> block_locator demo_lib demo_chain = Some loc
     \<and> take MAX_HEADERS_PER_RESPONSE (drop (locator_start c loc) (blocks c)) = [demo_next]
     \<and> headers_loop demo_lib demo_chain None (map header
         (take MAX_HEADERS_PER_RESPONSE (drop (locator_start c loc) (blocks c))))
       = [block_item (hash_hex demo_lib demo_next)]"
proof -
  obtain c :: "(bytes \<Rightarrow> bytes option) blockchain"
    where c: "chain_ok demo_lib c" "blocks c = [demo_gen, demo_next]"
    using demo_two_blocks by blast
  obtain "is" where "is": "block_locator demo_lib demo_chain = Some (hashes_at demo_lib [demo_gen] is)"
    "is \<noteq> []" "hd is = 0" "sorted_wrt (>) is"
    using block_locator_some [OF demo_chain_ok(1)] by (auto simp: demo_chain_fields)
  then have "is = [0]" by (cases "is") auto
  with "is"(1) have loc: "block_locator demo_lib demo_chain = Some [hash_hex demo_lib demo_gen]" by simp
  have "hm_get (block_index c) (hash_hex demo_lib demo_gen) = Some 0"
    using c by (simp add: chain_ok_def active_ok_def index_ok_def)
  then have reply: "take MAX_HEADERS_PER_RESPONSE
      (drop (locator_start c [hash_hex demo_lib demo_gen]) (blocks c)) = [demo_next]"
    by (simp add: locator_start_def c(2) MAX_HEADERS_PER_RESPONSE_def)
  have "meets_target demo_lib (header demo_next)"
    by (rule sha_demo_meets) (simp_all add: demo_lib_sha demo_next_def Let_def)
  then have "headers_loop demo_lib demo_chain None (map header
        (take MAX_HEADERS_PER_RESPONSE (drop (locator_start c [hash_hex demo_lib demo_gen]) (blocks c))))
      = [block_item (hash_hex demo_lib demo_next)]"
    using demo_next_hash(1) sync_requests_missing [OF c(1) demo_chain_ok(1) _ _ loc refl]
    by (simp add: c(2) reply [unfolded c(2)] demo_chain_fields block_by_hash_def)
  with c(1) loc reply show ?thesis by blast
qed

section \<open>Bounded replies and invariants\<close>

lemma chunks_bound: "ch \<in> set (chunks n xs) \<Longrightarrow> length ch \<le> n"
  by (induction n xs rule: chunks.induct) (subst (asm) (2) chunks.simps, auto split: if_splits)

lemma chunks_concat: "0 < n \<Longrightarrow> concat (chunks n xs) = xs"
proof (induction n xs rule: chunks.induct)
  case (1 n xs)
  then show ?case by (subst chunks.simps) auto
qed

lemma send_node [simp]: "se_node (snd (send W m s)) = se_node s"
  by (simp add: send_def)

lemma send_all_node [simp]: "se_node (snd (send_all W ms s)) = se_node s"
  by (induction ms arbitrary: s) (auto simp: send_def)

lemma send_sent: "\<exists>out. se_sent (snd (send W m s)) = se_sent s @ out \<and> set out \<subseteq> {m}"
  by (auto simp: send_def)

lemma send_all_sent: "\<exists>out. se_sent (snd (send_all W ms s)) = se_sent s @ out \<and> set out \<subseteq> set ms"
proof (induction ms arbitrary: s)
  case Nil
  then show ?case by simp
next
  case (Cons m ms)
  obtain o2 where "se_sent (snd (send_all W ms (s\<lparr>se_sent := se_sent s @ [m]\<rparr>))) = (se_sent s @ [m]) @ o2"
    "set o2 \<subseteq> set ms"
    using Cons.IH [of "s\<lparr>se_sent := se_sent s @ [m]\<rparr>"] by auto
  then show ?case by (auto simp: send_def intro: exI [of _ "m # o2"])
qed

lemma known_count_hm_sum: "known_count ps = hm_sum length (buckets ps)"
  by (simp add: known_count_def hm_sum_def)

lemma hm_sum_insert:
  "hm_ok m \<Longrightarrow> hm_sum f (hm_insert k v m) + (case hm_get m k of None \<Rightarrow> 0 | Some u \<Rightarrow> f u)
     = hm_sum f m + f v"
proof (induction m)
  case Nil
  then show ?case by (simp add: hm_insert_def hm_sum_def)
next
  case (Cons p m)
  obtain k' u where p: "p = (k', u)" by (cases p)
  with Cons show ?case
    by (cases "k' = k") (auto simp: hm_insert_def hm_sum_Cons hm_get_Cons hm_ok_Cons split: option.splits)
qed

lemma known_count_add: "peers_ok ps \<Longrightarrow> known_count (snd (add_known a ps)) \<le> Suc (known_count ps)"
  using hm_sum_insert [of "buckets ps" length "subnet a" "bucket_of ps (subnet a)"]
    hm_sum_insert [of "buckets ps" length "subnet a" "bucket_of ps (subnet a) @ [a]"]
  by (auto simp: add_known_def hs_insert_def Let_def known_count_hm_sum peers_ok_def bucket_of_def
      split: option.splits)

lemma addr_loop_ok:
  "peers_ok ps \<Longrightarrow> peers_ok (addr_loop as ps)
     \<and> known_count (addr_loop as ps) \<le> max (known_count ps) MAX_KNOWN_PEERS"
proof (induction as arbitrary: ps)
  case Nil
  then show ?case by simp
next
  case (Cons a as)
  let ?p = "snd (add_known a ps)"
  show ?case
  proof (cases "is_valid_peer_addr a \<and> known_count ps < MAX_KNOWN_PEERS")
    case True
    then have "max (known_count ?p) MAX_KNOWN_PEERS \<le> max (known_count ps) MAX_KNOWN_PEERS"
      using known_count_add [OF Cons.prems, of a] by simp
    with True Cons.IH [OF peers_ok_add [OF Cons.prems], of a] show ?thesis
      by (simp add: not_le [symmetric])
  next
    case False
    with Cons.IH [OF Cons.prems] Cons.prems show ?thesis by (simp add: not_less)
  qed
qed

text \<open>The invariant of a node: its chain, its address store and its limiters are in order.\<close>

definition rl_bounded :: "rate_limiter \<Rightarrow> bool" where
  "rl_bounded rl \<longleftrightarrow> rl_ok rl \<and> length (windows rl) \<le> MAX_TRACKED_PEERS"

lemma rl_bounded_check: "rl_bounded rl \<Longrightarrow> rl_bounded (snd (rl_check t a rl))"
  using length_check [of rl t a] rl_ok_check [of rl t a] by (simp add: rl_bounded_def)

definition limits_ok :: "node_rate_limiter \<Rightarrow> bool" where
  "limits_ok rl \<longleftrightarrow> rl_bounded (rl_messages rl) \<and> rl_bounded (rl_blocks rl)
     \<and> rl_bounded (rl_transactions rl) \<and> rl_bounded (rl_connections rl) \<and> rl_bounded (rl_getblocks rl)"

definition node_ok :: "'x tx_lib_scheme \<Rightarrow> 'd node \<Rightarrow> bool" where
  "node_ok X nd \<longleftrightarrow> chain_ok X (node_chain nd) \<and> tip_best X (node_chain nd)
     \<and> peers_ok (node_peers nd) \<and> limits_ok (rate_limiters nd)"

text \<open>A block message as the chain can take it: as for \<open>add_block\<close>.\<close>

definition block_admissible :: "('d, 'x) store_lib_scheme \<Rightarrow> u64 \<Rightarrow> block \<Rightarrow> 'd blockchain \<Rightarrow> bool" where
  "block_admissible X now b c \<longleftrightarrow> fresh_leaf X b c \<and> height b \<noteq> 0
     \<and> fst (add_block X now b c) \<noteq> Inl MintOverflow"

lemma add_block_admissible:
  "chain_ok X c \<Longrightarrow> tip_best X c \<Longrightarrow> block_admissible X now b c \<Longrightarrow> add_block X now b c = (r, c') \<Longrightarrow>
     chain_ok X c' \<and> tip_best X c'"
  using add_block_ok [of X c b now r c'] by (auto simp: block_admissible_def)

lemma node_ok_limits [simp]:
  "node_ok X nd \<Longrightarrow> limits_ok rl \<Longrightarrow> node_ok X (nd\<lparr>rate_limiters := rl\<rparr>)"
  "node_ok X nd \<Longrightarrow> limits_ok (rate_limiters nd)"
  by (simp_all add: node_ok_def)

lemma limits_ok_check:
  "limits_ok l \<Longrightarrow> limits_ok (l\<lparr>rl_messages := snd (rl_check t a (rl_messages l))\<rparr>)"
  "limits_ok l \<Longrightarrow> limits_ok (l\<lparr>rl_blocks := snd (rl_check t a (rl_blocks l))\<rparr>)"
  "limits_ok l \<Longrightarrow> limits_ok (l\<lparr>rl_transactions := snd (rl_check t a (rl_transactions l))\<rparr>)"
  "limits_ok l \<Longrightarrow> limits_ok (l\<lparr>rl_connections := snd (rl_check t a (rl_connections l))\<rparr>)"
  "limits_ok l \<Longrightarrow> limits_ok (l\<lparr>rl_getblocks := snd (rl_check t a (rl_getblocks l))\<rparr>)"
  by (simp_all add: limits_ok_def rl_bounded_check)

lemma node_ok_relay [simp]: "node_ok X (relay a m nd) = node_ok X nd"
  by (simp add: node_ok_def relay_def)

lemma node_ok_chain:
  "node_ok X nd \<Longrightarrow> chain_ok X c \<Longrightarrow> tip_best X c \<Longrightarrow> node_ok X (nd\<lparr>node_chain := c\<rparr>)"
  by (simp add: node_ok_def)

lemma on_block_ok:
  assumes "node_ok X (se_node s)" "block_admissible X now b (node_chain (se_node s))"
  shows "node_ok X (se_node (snd (on_block X now inst addr b s)))"
proof -
  obtain ok rl where rl: "rl_check inst addr (rl_blocks (rate_limiters (se_node s))) = (ok, rl)"
    by (cases "rl_check inst addr (rl_blocks (rate_limiters (se_node s)))")
  let ?nd = "(se_node s)\<lparr>rate_limiters := (rate_limiters (se_node s))\<lparr>rl_blocks := rl\<rparr>\<rparr>"
  have nd: "node_ok X ?nd"
    using assms(1) limits_ok_check(2) [of "rate_limiters (se_node s)" inst addr] rl by simp
  obtain r c where a: "add_block X now b (node_chain (se_node s)) = (r, c)"
    by (cases "add_block X now b (node_chain (se_node s))")
  have "node_ok X (?nd\<lparr>node_chain := c\<rparr>)"
    using add_block_admissible [OF _ _ assms(2) a] assms(1) by (intro node_ok_chain [OF nd]) (auto simp: node_ok_def)
  with nd show ?thesis by (simp add: on_block_def rl Let_def a split: sum.splits)
qed

lemma on_tx_ok:
  assumes "node_ok X (se_node s)"
  shows "node_ok X (se_node (snd (on_tx X inst addr tx s)))"
proof -
  obtain ok rl where rl: "rl_check inst addr (rl_transactions (rate_limiters (se_node s))) = (ok, rl)"
    by (cases "rl_check inst addr (rl_transactions (rate_limiters (se_node s)))")
  let ?nd = "(se_node s)\<lparr>rate_limiters := (rate_limiters (se_node s))\<lparr>rl_transactions := rl\<rparr>\<rparr>"
  have nd: "node_ok X ?nd"
    using assms(1) limits_ok_check(3) [of "rate_limiters (se_node s)" inst addr] rl by simp
  obtain r c where a: "submit_transaction X tx (node_chain (se_node s)) = (r, c)"
    by (cases "submit_transaction X tx (node_chain (se_node s))")
  have "node_ok X (?nd\<lparr>node_chain := c\<rparr>)"
    using submit_core [OF a] assms(1) by (intro node_ok_chain [OF nd]) (auto simp: node_ok_def)
  with nd show ?thesis by (simp add: on_tx_def rl Let_def a split: sum.splits)
qed

lemma on_get_blocks_ok:
  assumes "node_ok X (se_node s)"
  shows "node_ok X (se_node (snd (on_get_blocks Y W inst addr hs s)))"
proof -
  obtain ok rl where rl: "rl_check inst addr (rl_getblocks (rate_limiters (se_node s))) = (ok, rl)"
    by (cases "rl_check inst addr (rl_getblocks (rate_limiters (se_node s)))")
  then show ?thesis
    using assms(1) limits_ok_check(5) [of "rate_limiters (se_node s)" inst addr]
    by (simp add: on_get_blocks_def Let_def)
qed

lemma on_addr_ok: "node_ok X (se_node s) \<Longrightarrow> node_ok X (se_node (snd (on_addr as s)))"
  using addr_loop_ok [of "node_peers (se_node s)" as] by (auto simp: on_addr_def node_ok_def)

lemma on_version_node [simp]: "se_node (snd (on_version X W v m h ua s)) = se_node s"
  by (auto simp: on_version_def send_def Let_def split: option.splits)

lemma replies_node [simp]:
  "se_node (snd (on_get_headers W hs s)) = se_node s"
  "se_node (snd (on_headers X W bhs s)) = se_node s"
  "se_node (snd (on_inv W items s)) = se_node s"
  "se_node (snd (on_get_data W items s)) = se_node s"
  by (simp_all add: on_get_headers_def on_headers_def on_inv_def on_get_data_def Let_def)

lemma handle_message_ok:
  assumes "node_ok X (se_node s)"
    "\<And>b. msg = BlockMsg b \<Longrightarrow> block_admissible X now b (node_chain (se_node s))"
  shows "node_ok X (se_node (snd (handle_message X W now inst inst' addr msg s)))"
proof -
  obtain ok rl where rl: "rl_check inst addr (rl_messages (rate_limiters (se_node s))) = (ok, rl)"
    by (cases "rl_check inst addr (rl_messages (rate_limiters (se_node s)))")
  let ?s = "s\<lparr>se_node := (se_node s)\<lparr>rate_limiters := (rate_limiters (se_node s))\<lparr>rl_messages := rl\<rparr>\<rparr>\<rparr>"
  have nd: "node_ok X (se_node ?s)"
    using assms(1) limits_ok_check(1) [of "rate_limiters (se_node s)" inst addr] rl by simp
  note handlers = on_block_ok [OF nd] on_tx_ok [OF nd] on_get_blocks_ok [OF nd] on_addr_ok [OF nd]
  show ?thesis
    using nd assms(2) by (cases msg) (simp_all add: handle_message_def rl Let_def handlers)
qed

section \<open>Runs of a node\<close>

lemma node_ok_peers:
  "node_ok X nd \<Longrightarrow> peers_ok ps \<Longrightarrow> node_ok X (nd\<lparr>node_peers := ps\<rparr>)"
  "node_ok X nd \<Longrightarrow> peers_ok (node_peers nd)"
  by (simp_all add: node_ok_def)

lemma node_ok_anchors [simp]: "node_ok X (write_anchors wr nd) = node_ok X nd"
  by (simp add: node_ok_def write_anchors_def)

lemma accept_peer_ok:
  assumes "node_ok X nd"
  shows "node_ok X (snd (accept_peer inst handshake sent addr nd))"
proof -
  obtain ok rl where rl: "rl_check inst addr (rl_connections (rate_limiters nd)) = (ok, rl)"
    by (cases "rl_check inst addr (rl_connections (rate_limiters nd))")
  let ?nd = "nd\<lparr>rate_limiters := (rate_limiters nd)\<lparr>rl_connections := rl\<rparr>\<rparr>"
  have nd: "node_ok X ?nd"
    using assms limits_ok_check(4) [of "rate_limiters nd" inst addr] rl by simp
  then have "node_ok X (?nd\<lparr>node_peers := mark_inbound addr (snd (add_known addr (node_peers nd)))\<rparr>)"
    using node_ok_peers(2) [OF assms] by (intro node_ok_peers(1) peers_ok_marks peers_ok_add)
  with nd show ?thesis by (simp add: accept_peer_def rl Let_def)
qed

lemma connect_ok: "node_ok X nd \<Longrightarrow> node_ok X (snd (connect_to_peer up sent addr nd))"
  by (auto simp: connect_to_peer_def Let_def intro!: node_ok_peers peers_ok_marks peers_ok_add)

lemma close_ok:
  "node_ok X nd \<Longrightarrow> node_ok X (close_inbound wr addr nd)"
  "node_ok X nd \<Longrightarrow> node_ok X (close_outbound wr addr nd)"
  by (auto simp: close_inbound_def close_outbound_def intro!: node_ok_peers peers_ok_marks)

lemma dial_anchors_ok: "node_ok X nd \<Longrightarrow> node_ok X (dial_anchors up k as nd)"
  by (induction as arbitrary: k nd) (auto intro: connect_ok)

lemma start_ok: "node_ok X nd \<Longrightarrow> node_ok X (start_node up nd)"
  by (simp add: start_node_def dial_anchors_ok)

lemma feeler_ok: "node_ok X nd \<Longrightarrow> node_ok X (feeler r up nd)"
  by (auto simp: feeler_def split: option.splits intro!: node_ok_peers peers_ok_remove)

lemma dial_outbound_ok: "node_ok X nd \<Longrightarrow> node_ok X (dial_outbound up a nd)"
  by (auto simp: dial_outbound_def intro!: node_ok_peers peers_ok_marks)

lemma dial_all_ok: "node_ok X nd \<Longrightarrow> node_ok X (fold (dial_outbound up) as nd)"
  by (induction as arbitrary: nd) (simp_all add: dial_outbound_ok)

lemma maintain_ok: "node_ok X nd \<Longrightarrow> node_ok X (maintain_outbound wr shuffle up nd)"
  by (simp add: maintain_outbound_def Let_def dial_all_ok)

lemma mine_and_relay_ok:
  assumes "node_ok X nd" "mine_block X now a (node_chain nd) = Some b"
    "block_admissible X now' b (node_chain nd)" "mine_block_and_relay X now now' a nd = Some (r, nd')"
  shows "node_ok X nd'"
proof -
  obtain q c where a: "add_block X now' b (node_chain nd) = (q, c)"
    by (cases "add_block X now' b (node_chain nd)")
  have "node_ok X (nd\<lparr>node_chain := c\<rparr>)"
    using add_block_admissible [OF _ _ assms(3) a] assms(1) by (auto simp: node_ok_def)
  with assms(2,4) a show ?thesis
    by (auto simp: mine_block_and_relay_def split: sum.splits)
qed

text \<open>Everything that can happen to the state of a node.\<close>

inductive node_step :: "('d, 'x) store_lib_scheme \<Rightarrow> 'd node \<Rightarrow> 'd node \<Rightarrow> bool" for X where
  step_message: "(\<And>b. msg = BlockMsg b \<Longrightarrow> block_admissible X now b (node_chain nd)) \<Longrightarrow>
    node_step X nd (se_node (snd (handle_message X W now inst inst' addr msg
      \<lparr>se_node = nd, se_sent = sent\<rparr>)))"
| step_accept: "node_step X nd (snd (accept_peer inst handshake ok addr nd))"
| step_close_in: "node_step X nd (close_inbound wr addr nd)"
| step_connect: "node_step X nd (snd (connect_to_peer up ok addr nd))"
| step_close_out: "node_step X nd (close_outbound wr addr nd)"
| step_start: "node_step X nd (start_node ups nd)"
| step_feeler: "node_step X nd (feeler r up nd)"
| step_maintain: "node_step X nd (maintain_outbound wr shuffle upf nd)"
| step_mine: "mine_block X now a (node_chain nd) = Some b \<Longrightarrow>
    block_admissible X now' b (node_chain nd) \<Longrightarrow>
    mine_block_and_relay X now now' a nd = Some (q, nd') \<Longrightarrow> node_step X nd nd'"

definition fresh_node :: "'x tx_lib_scheme \<Rightarrow> 'd node \<Rightarrow> bool" where
  "fresh_node X nd \<longleftrightarrow> (\<exists>c addr magic file. fresh_chain X c \<and> nd = node_new c addr magic file)"

lemma node_step_ok: "node_step X nd nd' \<Longrightarrow> node_ok X nd \<Longrightarrow> node_ok X nd'"
proof (induction rule: node_step.induct)
  case (step_message msg now nd W inst inst' addr sent)
  then show ?case by (intro handle_message_ok) simp_all
qed (auto intro: accept_peer_ok close_ok connect_ok start_ok feeler_ok maintain_ok mine_and_relay_ok)

lemma fresh_node_ok: "fresh_node X nd \<Longrightarrow> node_ok X nd"
  by (auto simp: fresh_node_def node_ok_def node_new_def fresh_chain_def chain_ok_genesis peers_ok_new
      limits_ok_def node_rate_limiter_new_def rate_limiter_new_def rl_ok_def rl_bounded_def)

interpretation node_sys: guarded_system "fresh_node X" "node_step X" "node_ok X" for X
  by unfold_locales (auto intro: fresh_node_ok node_step_ok)



text \<open>A block locator is always produced (the loop ends): it starts with the hash
  of the tip, lists hashes of active blocks at strictly decreasing heights, ends with the genesis
  block and has at most 33 entries.\<close>

theorem block_locator_spans_chain:
  assumes "chain_ok X c"
  shows "\<exists>is. block_locator X c = Some (map (\<lambda>i. hash_hex X (blocks c ! i)) is) \<and> is \<noteq> []
    \<and> hd is = length (blocks c) - 1 \<and> last is = 0 \<and> sorted_wrt (>) is \<and> length is \<le> 33"
  using block_locator_some [OF assms] by (simp add: hashes_at_def MAX_LOCATOR_HASHES_def)

theorem block_locator_spans_chain_witness:
  "\<exists>is. block_locator demo_lib demo_chain = Some (map (\<lambda>i. hash_hex demo_lib (blocks demo_chain ! i)) is)
    \<and> is \<noteq> [] \<and> last is = 0"
  using block_locator_spans_chain [OF demo_chain_ok(1)] by blast

end
