(* ===== verification/Merkle.thy ===== *)
theory Merkle
  imports Blocks
begin

text \<open>
  What a Merkle root binds (\<open>merkle_root\<close> of \<open>src/blockchain/block.rs\<close>). The padding of an
  odd level by the hash of its length is meant to rule out two lists with the same root. Shown:
  as long as \<open>hash256\<close> has no collision among the inputs the two computations hash, and no
  transaction encodes to 8 or 64 bytes (the lengths of a padding input and of an inner node),
  equal roots come from equal lists, of whatever lengths.
\<close>

section \<open>The hashed inputs\<close>

fun pair_concat :: "bytes list \<Rightarrow> bytes list" where
  "pair_concat (a # b # hs) = (a @ b) # pair_concat hs"
| "pair_concat _ = []"

definition level_inputs :: "'x hash_lib_scheme \<Rightarrow> bytes list \<Rightarrow> bytes list" where
  "level_inputs X hashes =
     (if length hashes mod 2 \<noteq> 0 then [u64_le (word_of_nat (length hashes))] else [])
     @ pair_concat (pad_level X hashes)"

function merkle_inputs :: "'x hash_lib_scheme \<Rightarrow> bytes list \<Rightarrow> bytes list" where
  "merkle_inputs X hashes =
     (if 1 < length hashes
      then level_inputs X hashes @ merkle_inputs X (merkle_step X hashes) else [])"
  by pat_completeness auto
termination
  by (relation "measure (\<lambda>(X, hashes). length hashes)") (auto simp: length_merkle_step)

declare merkle_inputs.simps [simp del]

definition merkle_hashed :: "'x tx_lib_scheme \<Rightarrow> transaction list \<Rightarrow> bytes set" where
  "merkle_hashed X txs =
     set (map (lib_bincode_tx X) txs) \<union> set (merkle_inputs X (map (txid X) txs))"

section \<open>Levels\<close>

lemma pair_level_map: "pair_level X hs = map (hash256 X) (pair_concat hs)"
  by (induction X hs rule: pair_level.induct) auto

lemma pair_concat_inject:
  "list_all (\<lambda>h. length h = 32) hs \<Longrightarrow> list_all (\<lambda>h. length h = 32) ks \<Longrightarrow>
     even (length hs) \<Longrightarrow> even (length ks) \<Longrightarrow> pair_concat hs = pair_concat ks \<Longrightarrow> hs = ks"
proof (induction hs arbitrary: ks rule: pair_concat.induct)
  case (1 a b hs)
  obtain c d ks' where ks: "ks = c # d # ks'"
    using "1.prems"(5) by (cases ks rule: pair_concat.cases) simp_all
  have "a = c" "b = d" "pair_concat hs = pair_concat ks'"
    using "1.prems" unfolding ks by simp_all
  moreover have "hs = ks'"
    using "1.prems" unfolding ks by (intro "1.IH") simp_all
  ultimately show ?case by (simp add: ks)
next
  case "2_1"
  then show ?case by (cases ks rule: pair_concat.cases) auto
qed auto

lemma pair_concat_length:
  "list_all (\<lambda>h. length h = 32) hs \<Longrightarrow> p \<in> set (pair_concat hs) \<Longrightarrow> length p = 64"
  by (induction hs rule: pair_concat.induct) auto

lemma pad_level_32:
  "sha_ok X \<Longrightarrow> list_all (\<lambda>h. length h = 32) hs \<Longrightarrow> list_all (\<lambda>h. length h = 32) (pad_level X hs)"
  by (simp add: pad_level_def length_hash256)

lemma even_pad_level: "even (length (pad_level X hs))"
  by (auto simp: pad_level_def)

lemma merkle_step_32: "sha_ok X \<Longrightarrow> list_all (\<lambda>h. length h = 32) (merkle_step X hs)"
  by (simp add: merkle_step_def pair_level_map list_all_iff length_hash256)

lemma merkle_iterate_32:
  "sha_ok X \<Longrightarrow> list_all (\<lambda>h. length h = 32) hs \<Longrightarrow>
     list_all (\<lambda>h. length h = 32) ((merkle_step X ^^ i) hs)"
  by (cases i) (simp_all add: merkle_step_32)

text \<open>Every element of \<open>hs\<close> is the hash of an input in \<open>S\<close> whose length satisfies \<open>P\<close>.\<close>

definition hashed_from :: "'x hash_lib_scheme \<Rightarrow> bytes set \<Rightarrow> (nat \<Rightarrow> bool) \<Rightarrow> bytes list \<Rightarrow> bool" where
  "hashed_from X S P hs \<longleftrightarrow> (\<forall>h \<in> set hs. \<exists>p \<in> S. hash256 X p = h \<and> P (length p))"

lemma hashed_from_mono:
  "hashed_from X S P hs \<Longrightarrow> (\<And>n. P n \<Longrightarrow> Q n) \<Longrightarrow> hashed_from X S Q hs"
  by (fastforce simp: hashed_from_def)

lemma hashed_from_clash:
  assumes "inj_on (hash256 X) S" "hashed_from X S P hs" "hashed_from X S Q ks"
    "h \<in> set hs" "h \<in> set ks" "\<And>n. P n \<Longrightarrow> \<not> Q n"
  shows False
  using assms unfolding hashed_from_def by (metis inj_on_def)

lemma hashed_from_step:
  assumes "sha_ok X" "list_all (\<lambda>h. length h = 32) hs" "set (level_inputs X hs) \<subseteq> S"
  shows "hashed_from X S (\<lambda>n. n = 64) (merkle_step X hs)"
  using assms(3) pair_concat_length [OF pad_level_32 [OF assms(1,2)]]
  by (auto simp: hashed_from_def merkle_step_def pair_level_map level_inputs_def split: if_splits)

lemma pad_level_clash:
  assumes "inj_on (hash256 X) S" "set (level_inputs X hs) \<subseteq> S"
    "hashed_from X S (\<lambda>n. n \<noteq> 8) ks" "odd (length hs)" "even (length ks)"
    "pad_level X hs = pad_level X ks"
  shows False
proof -
  let ?p = "u64_le (word_of_nat (length hs))"
  have "ks = hs @ [hash256 X ?p]"
    using assms(4-6) by (simp add: pad_level_def odd_iff_mod_2_eq_one)
  then have "hash256 X ?p \<in> set ks" by simp
  moreover have "?p \<in> S"
    using assms(2,4) by (simp add: level_inputs_def odd_iff_mod_2_eq_one)
  then have "hashed_from X S (\<lambda>n. n = 8) [hash256 X ?p]"
    by (auto simp: hashed_from_def)
  ultimately show False
    using hashed_from_clash [OF assms(1) _ assms(3), of "\<lambda>n. n = 8" "[hash256 X ?p]"] by simp
qed

lemma merkle_step_inject:
  assumes "sha_ok X" "inj_on (hash256 X) S"
    and "list_all (\<lambda>h. length h = 32) hs" "list_all (\<lambda>h. length h = 32) ks"
    and sub: "set (level_inputs X hs) \<subseteq> S" "set (level_inputs X ks) \<subseteq> S"
    and src: "hashed_from X S (\<lambda>n. n \<noteq> 8) hs" "hashed_from X S (\<lambda>n. n \<noteq> 8) ks"
    and eq: "merkle_step X hs = merkle_step X ks"
  shows "hs = ks"
proof -
  let ?P = "pad_level X hs" and ?Q = "pad_level X ks"
  have "set (pair_concat ?P) \<union> set (pair_concat ?Q) \<subseteq> S"
    using sub by (auto simp: level_inputs_def)
  then have "inj_on (hash256 X) (set (pair_concat ?P) \<union> set (pair_concat ?Q))"
    by (rule inj_on_subset [OF assms(2)])
  then have "pair_concat ?P = pair_concat ?Q"
    using eq by (simp add: merkle_step_def pair_level_map inj_on_map_eq_map)
  then have pads: "?P = ?Q"
    by (rule pair_concat_inject [OF pad_level_32 [OF assms(1,3)] pad_level_32 [OF assms(1,4)]
          even_pad_level even_pad_level])
  show ?thesis
  proof (cases "odd (length hs) = odd (length ks)")
    case True
    with pads show ?thesis by (auto simp: pad_level_def odd_iff_mod_2_eq_one split: if_splits)
  next
    case False
    then show ?thesis
      using pad_level_clash [OF assms(2) sub(1) src(2)] pad_level_clash [OF assms(2) sub(2) src(1)]
        pads by metis
  qed
qed

section \<open>The whole computation\<close>

lemma merkle_loop_iterates:
  "hs \<noteq> [] \<Longrightarrow> \<exists>n. (merkle_step X ^^ n) hs = [merkle_loop X hs]
     \<and> (\<forall>i<n. set (level_inputs X ((merkle_step X ^^ i) hs)) \<subseteq> set (merkle_inputs X hs))"
proof (induction X hs rule: merkle_loop.induct)
  case (1 X hs)
  show ?case
  proof (cases "1 < length hs")
    case False
    with 1(2) have "hs = [hs ! 0]" by (cases hs) auto
    then have "(merkle_step X ^^ 0) hs = [merkle_loop X hs]"
      using False by (simp add: merkle_loop.simps [of X hs])
    then show ?thesis by blast
  next
    case True
    then have "merkle_step X hs \<noteq> []"
      using length_merkle_step [of X hs] by auto
    with 1(1) [OF True] obtain n where
      n: "(merkle_step X ^^ n) (merkle_step X hs) = [merkle_loop X (merkle_step X hs)]"
      "\<forall>i<n. set (level_inputs X ((merkle_step X ^^ i) (merkle_step X hs)))
         \<subseteq> set (merkle_inputs X (merkle_step X hs))" by blast
    have inp: "merkle_inputs X hs = level_inputs X hs @ merkle_inputs X (merkle_step X hs)"
      using True by (simp add: merkle_inputs.simps [of X hs])
    have "set (level_inputs X ((merkle_step X ^^ i) hs)) \<subseteq> set (merkle_inputs X hs)"
      if "i < Suc n" for i
      using that n(2) by (cases i) (auto simp: inp funpow_swap1)
    moreover have "(merkle_step X ^^ Suc n) hs = [merkle_loop X hs]"
      using n(1) True by (simp add: funpow_swap1 merkle_loop.simps [of X hs])
    ultimately show ?thesis by blast
  qed
qed

lemma merkle_levels_agree:
  assumes "sha_ok X" "inj_on (hash256 X) S" "n \<le> m"
    and l32: "list_all (\<lambda>h. length h = 32) hs" "list_all (\<lambda>h. length h = 32) ks"
    and sub: "\<forall>i<n. set (level_inputs X ((merkle_step X ^^ i) hs)) \<subseteq> S"
      "\<forall>i<m. set (level_inputs X ((merkle_step X ^^ i) ks)) \<subseteq> S"
    and src: "hashed_from X S (\<lambda>l. l \<noteq> 8) hs" "hashed_from X S (\<lambda>l. l \<noteq> 8) ks"
    and top: "(merkle_step X ^^ n) hs = (merkle_step X ^^ m) ks"
  shows "i \<le> n \<Longrightarrow> (merkle_step X ^^ (n - i)) hs = (merkle_step X ^^ (m - i)) ks"
proof (induction i)
  case 0
  with top show ?case by simp
next
  case (Suc i)
  have from8: "hashed_from X S (\<lambda>l. l \<noteq> 8) ((merkle_step X ^^ j) xs)"
    if "hashed_from X S (\<lambda>l. l \<noteq> 8) xs" "list_all (\<lambda>h. length h = 32) xs"
      "\<forall>i<k. set (level_inputs X ((merkle_step X ^^ i) xs)) \<subseteq> S" "j \<le> k" for xs j k
  proof (cases j)
    case (Suc j')
    then have "hashed_from X S (\<lambda>l. l = 64) (merkle_step X ((merkle_step X ^^ j') xs))"
      using that assms(1) by (intro hashed_from_step merkle_iterate_32) auto
    then show ?thesis using Suc by (auto elim: hashed_from_mono)
  qed (use that in simp)
  have idx: "n - i = Suc (n - Suc i)" "m - i = Suc (m - Suc i)" "n - Suc i < n" "m - Suc i < m"
    using Suc.prems assms(3) by auto
  have "merkle_step X ((merkle_step X ^^ (n - Suc i)) hs) =
      merkle_step X ((merkle_step X ^^ (m - Suc i)) ks)"
    using Suc.IH Suc.prems unfolding idx(1,2) by simp
  then show ?case
    using idx(3,4) sub
    by (intro merkle_step_inject [OF assms(1,2) merkle_iterate_32 [OF assms(1) l32(1)]
          merkle_iterate_32 [OF assms(1) l32(2)] _ _ from8 [OF src(1) l32(1) sub(1)]
          from8 [OF src(2) l32(2) sub(2)]]) simp_all
qed

lemma merkle_loop_inject_le:
  assumes "sha_ok X" "inj_on (hash256 X) S" "hs \<noteq> []" "n \<le> m"
    and l32: "list_all (\<lambda>h. length h = 32) hs" "list_all (\<lambda>h. length h = 32) ks"
    and sub: "\<forall>i<n. set (level_inputs X ((merkle_step X ^^ i) hs)) \<subseteq> S"
      "\<forall>i<m. set (level_inputs X ((merkle_step X ^^ i) ks)) \<subseteq> S"
    and src: "hashed_from X S (\<lambda>l. l \<noteq> 8 \<and> l \<noteq> 64) hs" "hashed_from X S (\<lambda>l. l \<noteq> 8 \<and> l \<noteq> 64) ks"
    and top: "(merkle_step X ^^ n) hs = (merkle_step X ^^ m) ks"
  shows "hs = ks"
proof -
  have src8: "hashed_from X S (\<lambda>l. l \<noteq> 8) hs" "hashed_from X S (\<lambda>l. l \<noteq> 8) ks"
    using src by (auto elim: hashed_from_mono)
  have bottom: "hs = (merkle_step X ^^ (m - n)) ks"
    using merkle_levels_agree [OF assms(1,2,4) l32 sub src8 top, of n] by simp
  show ?thesis
  proof (cases "m - n")
    case 0
    with bottom show ?thesis by simp
  next
    case (Suc j)
    then have "hashed_from X S (\<lambda>l. l = 64) hs"
      unfolding bottom Suc funpow.simps comp_apply
      using sub(2) Suc by (intro hashed_from_step merkle_iterate_32 assms(1) l32) simp_all
    then have False
      using hashed_from_clash [OF assms(2) _ src(1), of _ hs "hd hs"] assms(3) by auto
    then show ?thesis ..
  qed
qed

lemma txids_hashed_from:
  "merkle_hashed X txs \<subseteq> S \<Longrightarrow> \<forall>tx \<in> set txs. P (length (lib_bincode_tx X tx)) \<Longrightarrow>
     hashed_from X S P (map (txid X) txs)"
  by (fastforce simp: hashed_from_def merkle_hashed_def txid_def)

lemma merkle_root_inject:
  assumes "sha_ok X" "hex_ok X" "txs \<noteq> []" "txs' \<noteq> []"
    and inj: "inj_on (hash256 X) (merkle_hashed X txs \<union> merkle_hashed X txs')" (is "inj_on _ ?S")
    and len: "\<forall>tx \<in> set txs \<union> set txs'.
        length (lib_bincode_tx X tx) \<noteq> 8 \<and> length (lib_bincode_tx X tx) \<noteq> 64"
    and eq: "merkle_root X txs = merkle_root X txs'"
  shows "map (lib_bincode_tx X) txs = map (lib_bincode_tx X) txs'"
proof -
  let ?hs = "map (txid X) txs" and ?ks = "map (txid X) txs'"
  obtain n m where
    n: "(merkle_step X ^^ n) ?hs = [merkle_loop X ?hs]"
      "\<forall>i<n. set (level_inputs X ((merkle_step X ^^ i) ?hs)) \<subseteq> set (merkle_inputs X ?hs)" and
    m: "(merkle_step X ^^ m) ?ks = [merkle_loop X ?ks]"
      "\<forall>i<m. set (level_inputs X ((merkle_step X ^^ i) ?ks)) \<subseteq> set (merkle_inputs X ?ks)"
    using merkle_loop_iterates [of ?hs X] merkle_loop_iterates [of ?ks X] assms(3,4) by auto
  have "merkle_loop X ?hs = merkle_loop X ?ks"
    using eq assms(2-4) by (simp add: merkle_root_def hash_to_hex_inject)
  with n m have top: "(merkle_step X ^^ n) ?hs = (merkle_step X ^^ m) ?ks" by simp
  have sub: "\<forall>i<n. set (level_inputs X ((merkle_step X ^^ i) ?hs)) \<subseteq> ?S"
    "\<forall>i<m. set (level_inputs X ((merkle_step X ^^ i) ?ks)) \<subseteq> ?S"
    using n(2) m(2) by (auto simp: merkle_hashed_def)
  have l32: "list_all (\<lambda>h. length h = 32) ?hs" "list_all (\<lambda>h. length h = 32) ?ks"
    using assms(1) by (auto simp: list_all_iff txid_def length_hash256)
  have src: "hashed_from X ?S (\<lambda>l. l \<noteq> 8 \<and> l \<noteq> 64) ?hs" "hashed_from X ?S (\<lambda>l. l \<noteq> 8 \<and> l \<noteq> 64) ?ks"
    using len by (auto intro!: txids_hashed_from)
  have "?hs = ?ks"
  proof (cases "n \<le> m")
    case True
    then show ?thesis
      using merkle_loop_inject_le [OF assms(1) inj _ True l32 sub src top] assms(3) by simp
  next
    case False
    then have le: "m \<le> n" by simp
    show ?thesis
      using merkle_loop_inject_le [OF assms(1) inj _ le l32(2,1) sub(2,1) src(2,1) top [symmetric]]
        assms(4) by simp
  qed
  then have "map (hash256 X) (map (lib_bincode_tx X) txs) = map (hash256 X) (map (lib_bincode_tx X) txs')"
    by (simp add: txid_def [abs_def] comp_def)
  moreover have "inj_on (hash256 X) (set (map (lib_bincode_tx X) txs) \<union> set (map (lib_bincode_tx X) txs'))"
    by (rule inj_on_subset [OF inj]) (auto simp: merkle_hashed_def)
  ultimately show ?thesis by (simp only: inj_on_map_eq_map)
qed

section \<open>Properties\<close>

text \<open>C12: a Merkle root commits to the list of transactions: two non-empty lists, of any lengths,
  with equal roots have the same encodings one by one, provided \<open>hash256\<close> does not collide on
  the inputs hashed for the two roots and no transaction encodes to 8 or 64 bytes.\<close>

theorem merkle_root_binds:
  assumes "sha_ok X" "hex_ok X" "txs \<noteq> []" "txs' \<noteq> []"
    and "inj_on (hash256 X) (merkle_hashed X txs \<union> merkle_hashed X txs')"
    and "\<forall>tx \<in> set txs \<union> set txs'.
        length (lib_bincode_tx X tx) \<noteq> 8 \<and> length (lib_bincode_tx X tx) \<noteq> 64"
    and "merkle_root X txs = merkle_root X txs'"
  shows "map (lib_bincode_tx X) txs = map (lib_bincode_tx X) txs'"
  using assms by (rule merkle_root_inject)

text \<open>A library for the witness: inner nodes hash to a value of their own.\<close>

definition demo_merkle_lib :: tx_lib where
  "demo_merkle_lib = demo_tx_lib\<lparr>lib_sha256 :=
     (\<lambda>d. if length d = 64 then 9 # replicate 31 0 else take 32 (d @ replicate 32 0))\<rparr>"

definition demo_tx :: "u32 \<Rightarrow> transaction" where
  "demo_tx v = (tx_new [] [])\<lparr>tx_version := v\<rparr>"

lemma demo_merkle_ok: "sha_ok demo_merkle_lib" "hex_ok demo_merkle_lib"
  using demo_tx_lib_ok(2) by (auto simp: sha_ok_def hex_ok_def demo_merkle_lib_def)

lemma demo_tx_bytes: "lib_bincode_tx demo_merkle_lib (demo_tx v) = u32_le v @ replicate 8 0"
  by (simp add: demo_merkle_lib_def demo_tx_lib_defs demo_tx_def tx_new_def u64_le_def nat_le_zero)

lemma demo_tx_starts:
  "lib_bincode_tx demo_merkle_lib (demo_tx 1) = 1 # [0, 0, 0] @ replicate 8 0"
  "lib_bincode_tx demo_merkle_lib (demo_tx 2) = 2 # [0, 0, 0] @ replicate 8 0"
  by (simp_all add: demo_tx_bytes u32_le_def nat_le_numeral)

lemma demo_hash_short:
  "length d = 11 \<Longrightarrow> hash256 demo_merkle_lib (x # d) = x # d @ replicate 20 0"
  by (simp add: hash256_def demo_merkle_lib_def)

lemma demo_hash_pair: "length d = 64 \<Longrightarrow> hash256 demo_merkle_lib d = 9 # replicate 31 0"
  by (simp add: hash256_def demo_merkle_lib_def)

lemma demo_merkle_hashed:
  "\<exists>d e. length d = 11 \<and> length e = 64 \<and>
     merkle_hashed demo_merkle_lib [demo_tx 1, demo_tx 2] = {1 # d, 2 # d, e}"
proof -
  let ?d = "[0, 0, 0] @ replicate 8 0 :: bytes"
  have h: "txid demo_merkle_lib (demo_tx 1) = 1 # ?d @ replicate 20 0"
    "txid demo_merkle_lib (demo_tx 2) = 2 # ?d @ replicate 20 0"
    by (simp_all only: txid_def demo_tx_starts) (subst demo_hash_short; simp)+
  have "merkle_inputs demo_merkle_lib [a, b] = [a @ b]" for a b
    by (simp add: merkle_inputs.simps [of _ "[a, b]"] level_inputs_def pad_level_def merkle_step_def
        merkle_inputs.simps [of _ "[c]" for c])
  then have "merkle_hashed demo_merkle_lib [demo_tx 1, demo_tx 2] =
      {1 # ?d, 2 # ?d, (1 # ?d @ replicate 20 0) @ 2 # ?d @ replicate 20 0}"
    by (auto simp: merkle_hashed_def demo_tx_starts h)
  then show ?thesis
    by (intro exI [of _ ?d] exI [of _ "(1 # ?d @ replicate 20 0) @ 2 # ?d @ replicate 20 0"]) simp
qed

theorem merkle_root_binds_witness:
  "inj_on (hash256 demo_merkle_lib) (merkle_hashed demo_merkle_lib [demo_tx 1, demo_tx 2])
   \<and> map (lib_bincode_tx demo_merkle_lib) [demo_tx 1, demo_tx 2] =
       map (lib_bincode_tx demo_merkle_lib) [demo_tx 1, demo_tx 2]"
proof -
  have inj: "inj_on (hash256 demo_merkle_lib) (merkle_hashed demo_merkle_lib [demo_tx 1, demo_tx 2])"
    using demo_merkle_hashed by (auto simp: inj_on_def demo_hash_short demo_hash_pair)
  have len: "\<forall>tx \<in> set [demo_tx 1, demo_tx 2] \<union> set [demo_tx 1, demo_tx 2].
      length (lib_bincode_tx demo_merkle_lib tx) \<noteq> 8 \<and> length (lib_bincode_tx demo_merkle_lib tx) \<noteq> 64"
    by (simp add: demo_tx_bytes)
  show ?thesis
    using inj merkle_root_binds [OF demo_merkle_ok, of "[demo_tx 1, demo_tx 2]" "[demo_tx 1, demo_tx 2]",
        OF _ _ _ len refl]
    by auto
qed

end
