(* ===== verification/Device.thy ===== *)
theory Device
  imports Crypto
begin

text \<open>
  The registry of mining devices: \<open>src/mining/device.rs\<close>. The database has reads, writes and
  deletions that can fail (RocksDB), and the codec of a registration is \<open>bincode\<close>; both are
  third-party and enter through the library record. The registry promises a one-to-one
  binding of wallets and devices; the lemmas show that every operation keeps it as long as
  the database itself does not fail, what a registration stores, and that a transfer needs
  the signature of the old device and the cooldown.
\<close>

section \<open>Definitions\<close>

definition DEVICE_TRANSFER_COOLDOWN :: u64 where "DEVICE_TRANSFER_COOLDOWN = 100"
definition MOBILE_MINING_BONUS_BPS :: u64 where "MOBILE_MINING_BONUS_BPS = 2000"

datatype mobile_platform = Android | IOS

record device_registration =
  reg_device_id :: string
  reg_wallet_address :: string
  device_pubkey :: bytes
  platform :: mobile_platform
  attestation_blob :: bytes
  registered_at_height :: u64

record device_proof =
  proof_device_id :: string
  proof_wallet_address :: string
  proof_signature :: bytes

record 'd device_lib = sig_lib +
  dev_get :: "'d \<Rightarrow> bytes \<Rightarrow> string + bytes option"
  dev_put :: "bytes \<Rightarrow> bytes \<Rightarrow> 'd \<Rightarrow> ('d, string, unit) st_result"
  dev_delete :: "bytes \<Rightarrow> 'd \<Rightarrow> ('d, string, unit) st_result"
  lib_reg_ser :: "device_registration \<Rightarrow> bytes option"
  lib_reg_de :: "bytes \<Rightarrow> device_registration option"

datatype device_err =
    DeviceDb string
  | DeviceSerialize
  | DeviceDecode
  | DeviceUtf8
  | WalletHasDevice string
  | DeviceClaimed string
  | NoDeviceForWallet string
  | RegistrationNotFound
  | InvalidTransferSignature
  | TransferCooldown u64

definition device_registration_new ::
  "'x hash_lib_scheme \<Rightarrow> string \<Rightarrow> bytes \<Rightarrow> mobile_platform \<Rightarrow> bytes \<Rightarrow> u64 \<Rightarrow> device_registration"
where
  "device_registration_new X wallet pubkey plat blob h =
     \<lparr>reg_device_id = hash_to_hex X (hash256 X pubkey), reg_wallet_address = wallet,
      device_pubkey = pubkey, platform = plat, attestation_blob = blob, registered_at_height = h\<rparr>"

definition wallet_key :: "string \<Rightarrow> bytes" where "wallet_key a = as_bytes (''wallet:'' @ a)"
definition claim_key :: "string \<Rightarrow> bytes" where "claim_key i = as_bytes (''claim:'' @ i)"
definition device_key :: "string \<Rightarrow> bytes" where "device_key i = as_bytes (''device:'' @ i)"

text \<open>\<open>self.db.get(..)?\<close>, \<open>put(..)?\<close> and \<open>delete(..)?\<close>.\<close>

definition dget :: "('d, 'x) device_lib_scheme \<Rightarrow> 'd \<Rightarrow> bytes \<Rightarrow> device_err + bytes option" where
  "dget X d k = map_err DeviceDb (dev_get X d k)"

definition dput ::
  "('d, 'x) device_lib_scheme \<Rightarrow> bytes \<Rightarrow> bytes \<Rightarrow> 'd \<Rightarrow> ('d, device_err, unit) st_result" where
  "dput X k v d = (case dev_put X k v d of (r, d') \<Rightarrow> (map_err DeviceDb r, d'))"

definition ddelete ::
  "('d, 'x) device_lib_scheme \<Rightarrow> bytes \<Rightarrow> 'd \<Rightarrow> ('d, device_err, unit) st_result" where
  "ddelete X k d = (case dev_delete X k d of (r, d') \<Rightarrow> (map_err DeviceDb r, d'))"

definition device_register ::
  "('d, 'x) device_lib_scheme \<Rightarrow> device_registration \<Rightarrow> 'd \<Rightarrow> ('d, device_err, unit) st_result"
where
  "device_register X reg d =
     (let wk = wallet_key (reg_wallet_address reg); ck = claim_key (reg_device_id reg) in
      try_st (dget X d wk, d) (\<lambda>w d.
      if w \<noteq> None then (Inl (WalletHasDevice (reg_wallet_address reg)), d)
      else
      try_st (dget X d ck, d) (\<lambda>c d.
      if c \<noteq> None then (Inl (DeviceClaimed (reg_device_id reg)), d)
      else
      try_st (ok_or DeviceSerialize (lib_reg_ser X reg), d) (\<lambda>blob d.
      try_st (dput X (device_key (reg_device_id reg)) blob d) (\<lambda>_ d.
      try_st (dput X wk (as_bytes (reg_device_id reg)) d) (\<lambda>_ d.
      try_st (dput X ck (as_bytes (reg_wallet_address reg)) d) (\<lambda>_ d.
      (Inr (), d))))))))"

definition get_by_device_id ::
  "('d, 'x) device_lib_scheme \<Rightarrow> 'd \<Rightarrow> string \<Rightarrow> device_err + device_registration option" where
  "get_by_device_id X d i =
     try_res (dget X d (device_key i)) (\<lambda>r.
       case r of
         Some val \<Rightarrow> try_res (ok_or DeviceDecode (lib_reg_de X val)) (\<lambda>reg. Inr (Some reg))
       | None \<Rightarrow> Inr None)"

definition get_device_id_for_wallet ::
  "('d, 'x) device_lib_scheme \<Rightarrow> 'd \<Rightarrow> string \<Rightarrow> device_err + string option" where
  "get_device_id_for_wallet X d a =
     try_res (dget X d (wallet_key a)) (\<lambda>r.
       case r of
         Some val \<Rightarrow> try_res (ok_or DeviceUtf8 (string_from_utf8 val)) (\<lambda>s. Inr (Some s))
       | None \<Rightarrow> Inr None)"

definition transfer_valid ::
  "'x sig_lib_scheme \<Rightarrow> device_registration \<Rightarrow> bytes \<Rightarrow> device_registration \<Rightarrow> bool" where
  "transfer_valid X old_reg sg new_reg =
     (let transfer_hash = hash256 X (as_bytes (reg_device_id new_reg)); n = length (device_pubkey old_reg) in
      if n = 33 then verify_raw X (device_pubkey old_reg) transfer_hash sg
      else if n = 65 then verify_p256_der X (device_pubkey old_reg) transfer_hash sg
      else False)"

definition transfer_device ::
  "('d, 'x) device_lib_scheme \<Rightarrow> string \<Rightarrow> bytes \<Rightarrow> device_registration \<Rightarrow> u64 \<Rightarrow> 'd
     \<Rightarrow> ('d, device_err, unit) st_result" where
  "transfer_device X a old_sig new_reg current_height d =
     try_st (get_device_id_for_wallet X d a, d) (\<lambda>oid d.
     try_st (ok_or (NoDeviceForWallet a) oid, d) (\<lambda>old_id d.
     try_st (get_by_device_id X d old_id, d) (\<lambda>oreg d.
     try_st (ok_or RegistrationNotFound oreg, d) (\<lambda>old_reg d.
     if \<not> transfer_valid X old_reg old_sig new_reg then (Inl InvalidTransferSignature, d)
     else if current_height < registered_at_height old_reg + DEVICE_TRANSFER_COOLDOWN then
       (Inl (TransferCooldown
          (registered_at_height old_reg + DEVICE_TRANSFER_COOLDOWN - current_height)), d)
     else
       try_st (ddelete X (device_key old_id) d) (\<lambda>_ d.
       try_st (ddelete X (claim_key old_id) d) (\<lambda>_ d.
       try_st (ddelete X (wallet_key a) d) (\<lambda>_ d.
       try_st (device_register X new_reg d) (\<lambda>_ d. (Inr (), d)))))))))"

section \<open>What the code relies on\<close>

text \<open>A database that does not fail, seen through its contents \<open>kv\<close>.\<close>

definition dev_db_ok :: "('d, 'x) device_lib_scheme \<Rightarrow> ('d \<Rightarrow> bytes \<Rightarrow> bytes option) \<Rightarrow> bool" where
  "dev_db_ok X kv \<longleftrightarrow> (\<forall>d k. dev_get X d k = Inr (kv d k))
     \<and> (\<forall>d k v. \<exists>d'. dev_put X k v d = (Inr (), d') \<and> kv d' = (kv d)(k := Some v))
     \<and> (\<forall>d k. \<exists>d'. dev_delete X k d = (Inr (), d') \<and> kv d' = (kv d)(k := None))"

lemma dget_ok: "dev_db_ok X kv \<Longrightarrow> dget X d k = Inr (kv d k)"
  by (simp add: dev_db_ok_def dget_def)

lemma dput_ok:
  assumes "dev_db_ok X kv"
  obtains d' where "dput X k v d = (Inr (), d')" "kv d' = (kv d)(k := Some v)"
  using assms unfolding dev_db_ok_def dput_def by (metis map_err_simps(2) case_prod_conv)

lemma ddelete_ok:
  assumes "dev_db_ok X kv"
  obtains d' where "ddelete X k d = (Inr (), d')" "kv d' = (kv d)(k := None)"
  using assms unfolding dev_db_ok_def ddelete_def by (metis map_err_simps(2) case_prod_conv)

lemma device_keys [simp]:
  "wallet_key a = wallet_key b \<longleftrightarrow> a = b" "claim_key i = claim_key j \<longleftrightarrow> i = j"
  "device_key i = device_key j \<longleftrightarrow> i = j"
  "wallet_key a \<noteq> claim_key i" "claim_key i \<noteq> wallet_key a" "wallet_key a \<noteq> device_key i"
  "device_key i \<noteq> wallet_key a" "claim_key i \<noteq> device_key j" "device_key j \<noteq> claim_key i"
  by (simp_all add: wallet_key_def claim_key_def device_key_def)

section \<open>The binding\<close>

text \<open>Every wallet entry names the device that claims it and the other way round, and a
  registration is stored exactly for the claimed devices.\<close>

definition one_to_one :: "(bytes \<Rightarrow> bytes option) \<Rightarrow> bool" where
  "one_to_one m \<longleftrightarrow>
     (\<forall>a i. m (wallet_key a) = Some (as_bytes i) \<longleftrightarrow> m (claim_key i) = Some (as_bytes a))
     \<and> (\<forall>i. m (device_key i) = None \<longleftrightarrow> m (claim_key i) = None)"

definition registered :: "(bytes \<Rightarrow> bytes option) \<Rightarrow> string \<Rightarrow> string \<Rightarrow> bytes \<Rightarrow> bytes \<Rightarrow> bytes option" where
  "registered m a i v = m(device_key i := Some v, wallet_key a := Some (as_bytes i),
     claim_key i := Some (as_bytes a))"

definition unregistered :: "(bytes \<Rightarrow> bytes option) \<Rightarrow> string \<Rightarrow> string \<Rightarrow> bytes \<Rightarrow> bytes option" where
  "unregistered m a i = m(device_key i := None, claim_key i := None, wallet_key a := None)"

lemma one_to_one_registered:
  "one_to_one m \<Longrightarrow> m (wallet_key a) = None \<Longrightarrow> m (claim_key i) = None \<Longrightarrow>
     one_to_one (registered m a i v)"
  unfolding one_to_one_def registered_def
  by (auto simp: as_bytes_inject) (metis option.distinct(1))+

lemma one_to_one_unregistered:
  "one_to_one m \<Longrightarrow> m (wallet_key a) = Some (as_bytes i) \<Longrightarrow> one_to_one (unregistered m a i)"
  unfolding one_to_one_def unregistered_def
  by (auto simp: as_bytes_inject) (metis as_bytes_inject option.inject)+

text \<open>Registering: refused without a change, or exactly the three entries written.\<close>

lemma register_outcome:
  assumes db: "dev_db_ok X kv" and r: "device_register X reg d = (r, d')"
  shows "case r of
      Inl e \<Rightarrow> d' = d
        \<and> (e = WalletHasDevice (reg_wallet_address reg) \<and> kv d (wallet_key (reg_wallet_address reg)) \<noteq> None
           \<or> e = DeviceClaimed (reg_device_id reg) \<and> kv d (wallet_key (reg_wallet_address reg)) = None
             \<and> kv d (claim_key (reg_device_id reg)) \<noteq> None
           \<or> e = DeviceSerialize \<and> lib_reg_ser X reg = None)
    | Inr _ \<Rightarrow> kv d (wallet_key (reg_wallet_address reg)) = None
        \<and> kv d (claim_key (reg_device_id reg)) = None
        \<and> (\<exists>v. lib_reg_ser X reg = Some v
             \<and> kv d' = registered (kv d) (reg_wallet_address reg) (reg_device_id reg) v)"
proof (cases "kv d (wallet_key (reg_wallet_address reg)) = None
    \<and> kv d (claim_key (reg_device_id reg)) = None")
  case False
  then show ?thesis
    using r by (cases "kv d (wallet_key (reg_wallet_address reg))")
      (auto simp: device_register_def Let_def dget_ok [OF db])
next
  case True
  show ?thesis
  proof (cases "lib_reg_ser X reg")
    case None
    with True show ?thesis
      using r by (auto simp: device_register_def Let_def dget_ok [OF db])
  next
    case (Some v)
    obtain d1 where d1: "dput X (device_key (reg_device_id reg)) v d = (Inr (), d1)"
      "kv d1 = (kv d)(device_key (reg_device_id reg) := Some v)" by (rule dput_ok [OF db])
    obtain d2 where d2: "dput X (wallet_key (reg_wallet_address reg)) (as_bytes (reg_device_id reg)) d1 = (Inr (), d2)"
      "kv d2 = (kv d1)(wallet_key (reg_wallet_address reg) := Some (as_bytes (reg_device_id reg)))"
      by (rule dput_ok [OF db])
    obtain d3 where d3: "dput X (claim_key (reg_device_id reg)) (as_bytes (reg_wallet_address reg)) d2 = (Inr (), d3)"
      "kv d3 = (kv d2)(claim_key (reg_device_id reg) := Some (as_bytes (reg_wallet_address reg)))"
      by (rule dput_ok [OF db])
    have kv3: "kv d3 = registered (kv d) (reg_wallet_address reg) (reg_device_id reg) v"
      by (simp add: d3(2) d2(2) d1(2) registered_def)
    have "r = Inr ()" "d' = d3"
      using True Some r by (auto simp: device_register_def Let_def dget_ok [OF db] d1(1) d2(1) d3(1))
    with True Some kv3 show ?thesis by simp
  qed
qed

lemma register_one_to_one:
  assumes "dev_db_ok X kv" "one_to_one (kv d)"
  shows "one_to_one (kv (snd (device_register X reg d)))"
proof -
  obtain r d' where r: "device_register X reg d = (r, d')" by (cases "device_register X reg d")
  then show ?thesis
    using register_outcome [OF assms(1) r] one_to_one_registered [OF assms(2)] assms(2)
    by (auto split: sum.splits)
qed


text \<open>A transfer: refused without a change, or the old binding removed and then the outcome of
  registering the new device.\<close>

definition rebind ::
  "('d, 'x) device_lib_scheme \<Rightarrow> string \<Rightarrow> string \<Rightarrow> device_registration \<Rightarrow> 'd \<Rightarrow> ('d, device_err, unit) st_result"
where
  "rebind X a i new_reg d =
     try_st (ddelete X (device_key i) d) (\<lambda>_ d.
     try_st (ddelete X (claim_key i) d) (\<lambda>_ d.
     try_st (ddelete X (wallet_key a) d) (\<lambda>_ d.
     try_st (device_register X new_reg d) (\<lambda>_ d. (Inr (), d)))))"

lemma transfer_cases:
  assumes "transfer_device X a sg new_reg h d = (r, d')"
  obtains (refused) e where "r = Inl e" "d' = d"
    | (passed) i old_reg where "get_device_id_for_wallet X d a = Inr (Some i)"
      "get_by_device_id X d i = Inr (Some old_reg)" "transfer_valid X old_reg sg new_reg"
      "registered_at_height old_reg + DEVICE_TRANSFER_COOLDOWN \<le> h"
      "rebind X a i new_reg d = (r, d')"
proof (cases "\<exists>i old_reg. get_device_id_for_wallet X d a = Inr (Some i)
    \<and> get_by_device_id X d i = Inr (Some old_reg) \<and> transfer_valid X old_reg sg new_reg
    \<and> registered_at_height old_reg + DEVICE_TRANSFER_COOLDOWN \<le> h")
  case True
  then show ?thesis
    using assms passed by (auto simp: transfer_device_def rebind_def not_less [symmetric])
next
  case False
  then show ?thesis
    using assms refused
    by (cases "get_device_id_for_wallet X d a"; cases "projr (get_device_id_for_wallet X d a)";
        cases "get_by_device_id X d (the (projr (get_device_id_for_wallet X d a)))";
        cases "projr (get_by_device_id X d (the (projr (get_device_id_for_wallet X d a))))")
      (auto simp: transfer_device_def not_le split: if_splits)
qed

lemma rebind_outcome:
  assumes "dev_db_ok X kv"
  obtains d1 where "kv d1 = unregistered (kv d) a i"
    "rebind X a i new_reg d = device_register X new_reg d1"
proof -
  obtain d1 where d1: "ddelete X (device_key i) d = (Inr (), d1)"
    "kv d1 = (kv d)(device_key i := None)" by (rule ddelete_ok [OF assms])
  obtain d2 where d2: "ddelete X (claim_key i) d1 = (Inr (), d2)"
    "kv d2 = (kv d1)(claim_key i := None)" by (rule ddelete_ok [OF assms])
  obtain d3 where d3: "ddelete X (wallet_key a) d2 = (Inr (), d3)"
    "kv d3 = (kv d2)(wallet_key a := None)" by (rule ddelete_ok [OF assms])
  show ?thesis
    by (rule that [of d3])
      (simp_all add: rebind_def unregistered_def d1 d2 d3 try_st_def split: prod.splits sum.splits)
qed

lemma get_device_id_kv:
  "dev_db_ok X kv \<Longrightarrow> get_device_id_for_wallet X d a = Inr (Some i) \<Longrightarrow>
     kv d (wallet_key a) = Some (as_bytes i)"
  by (auto simp: get_device_id_for_wallet_def dget_ok try_res_Inr string_from_utf8_def
      as_bytes_from_utf8 split: option.splits if_splits)

lemma transfer_one_to_one:
  assumes "dev_db_ok X kv" "one_to_one (kv d)"
  shows "one_to_one (kv (snd (transfer_device X a sg new_reg h d)))"
proof -
  obtain r d' where r: "transfer_device X a sg new_reg h d = (r, d')"
    by (cases "transfer_device X a sg new_reg h d")
  show ?thesis
  proof (rule transfer_cases [OF r])
    show ?thesis if "d' = d" using that assms(2) r by simp
  next
    fix i
    assume i: "get_device_id_for_wallet X d a = Inr (Some i)" and re: "rebind X a i new_reg d = (r, d')"
    obtain d1 where d1: "kv d1 = unregistered (kv d) a i"
      "rebind X a i new_reg d = device_register X new_reg d1" by (rule rebind_outcome [OF assms(1)])
    then have "one_to_one (kv d1)"
      using one_to_one_unregistered [OF assms(2) get_device_id_kv [OF assms(1) i]] by simp
    with register_one_to_one [OF assms(1), of d1 new_reg] d1(2) re r show ?thesis by simp
  qed
qed

section \<open>Runs of the registry\<close>

inductive registry_step :: "('d, 'x) device_lib_scheme \<Rightarrow> 'd \<Rightarrow> 'd \<Rightarrow> bool" for X where
  step_register: "device_register X reg d = (r, d') \<Longrightarrow> registry_step X d d'"
| step_transfer: "transfer_device X a sg new_reg h d = (r, d') \<Longrightarrow> registry_step X d d'"

inductive_cases registry_stepE: "registry_step X d d'"

interpretation registry: guarded_system "\<lambda>d. kv d = Map.empty" "registry_step X"
  "\<lambda>d. dev_db_ok X kv \<longrightarrow> one_to_one (kv d)" for X kv
proof
  show "dev_db_ok X kv \<longrightarrow> one_to_one (kv d)" if "kv d = Map.empty" for d
    using that by (simp add: one_to_one_def)
  show "dev_db_ok X kv \<longrightarrow> one_to_one (kv d')"
    if "registry_step X d d'" "dev_db_ok X kv \<longrightarrow> one_to_one (kv d)" for d d'
    using that by (metis registry_stepE register_one_to_one transfer_one_to_one snd_conv)
qed

text \<open>C31: the device registry keeps a one-to-one binding: starting from an empty database that
  does not fail, after any sequence of registrations and transfers, accepted or refused, each
  wallet entry names exactly the device whose claim names that wallet, and a registration is
  stored exactly for the claimed devices.\<close>

theorem registry_one_to_one:
  assumes "dev_db_ok X kv" "kv d0 = Map.empty" "(registry_step X)\<^sup>*\<^sup>* d0 d"
  shows "one_to_one (kv d)"
  using registry.reachable_inv [of kv d0 X d] assms by simp

text \<open>A database kept as a function, and a codec for the witness.\<close>

definition demo_device_lib :: "(bytes \<Rightarrow> bytes option) device_lib" where
  "demo_device_lib = sig_lib.extend demo_sig_lib
     (device_lib.fields (\<lambda>d k. Inr (d k)) (\<lambda>k v d. (Inr (), d(k := Some v)))
        (\<lambda>k d. (Inr (), d(k := None))) (\<lambda>reg. Some (device_pubkey reg)) (\<lambda>_. None))"

lemma demo_device_lib_simps [simp]:
  "dev_get demo_device_lib = (\<lambda>d k. Inr (d k))"
  "dev_put demo_device_lib = (\<lambda>k v d. (Inr (), d(k := Some v)))"
  "dev_delete demo_device_lib = (\<lambda>k d. (Inr (), d(k := None)))"
  "lib_reg_ser demo_device_lib = (\<lambda>reg. Some (device_pubkey reg))"
  by (simp_all add: demo_device_lib_def sig_lib.extend_def device_lib.fields_def)

theorem registry_one_to_one_witness:
  "one_to_one (registered Map.empty ''w'' ''id'' [1])"
proof -
  let ?reg = "\<lparr>reg_device_id = ''id'', reg_wallet_address = ''w'', device_pubkey = [1 :: u8],
    platform = Android, attestation_blob = [], registered_at_height = 5\<rparr>"
  have "device_register demo_device_lib ?reg Map.empty = (Inr (), registered Map.empty ''w'' ''id'' [1])"
    by (simp add: device_register_def dget_def dput_def registered_def Let_def)
  then have "registry_step demo_device_lib Map.empty (registered Map.empty ''w'' ''id'' [1])"
    by (rule step_register)
  then show ?thesis
    using registry_one_to_one [of demo_device_lib "\<lambda>d. d" Map.empty "registered Map.empty ''w'' ''id'' [1]"]
    by (simp add: dev_db_ok_def r_into_rtranclp)
qed

end
