(* ===== verification/Files.thy ===== *)
theory Files
  imports Prelude
begin

text \<open>
  What the programs use of the file system (\<open>std::fs\<close>, \<open>std::path\<close>): a path leads to the text of
  a file and its mode. Whether a write succeeds is an argument; one that fails may leave anything
  at its path, and no other path changes. Directories are not kept.
\<close>

type_synonym files = "string \<Rightarrow> (string \<times> nat) option"

text \<open>\<open>None\<close>: the text was written; \<open>Some left\<close>: the write failed and left \<open>left\<close> at the path.\<close>

type_synonym write_outcome = "(string \<times> nat) option option"

definition fs_write :: "write_outcome \<Rightarrow> nat \<Rightarrow> string \<Rightarrow> string \<Rightarrow> files \<Rightarrow> bool \<times> files" where
  "fs_write wr umode path txt fs =
     (case wr of
        None \<Rightarrow> (True, fs(path \<mapsto> (txt, case fs path of Some (_, m) \<Rightarrow> m | None \<Rightarrow> umode)))
      | Some left \<Rightarrow> (False, fs(path := left)))"

definition fs_read :: "files \<Rightarrow> string \<Rightarrow> string option" where
  "fs_read fs path = map_option fst (fs path)"

text \<open>\<open>Path::join\<close>: an absolute second path replaces the first.\<close>

definition path_join :: "string \<Rightarrow> string \<Rightarrow> string" where
  "path_join base p =
     (if p \<noteq> [] \<and> hd p = CHR ''/'' then p
      else if base = [] \<or> last base = CHR ''/'' then base @ p
      else base @ CHR ''/'' # p)"

lemma fs_write_True:
  "fs_write wr um path txt fs = (True, fs') \<Longrightarrow> fs_read fs' path = Some txt"
  "fs_write wr um path txt fs = (ok, fs') \<Longrightarrow> p \<noteq> path \<Longrightarrow> fs' p = fs p"
  by (auto simp: fs_write_def fs_read_def split: option.splits)

lemma path_join_relative:
  assumes "p \<noteq> []" "hd p \<noteq> CHR ''/''" "q \<noteq> []" "hd q \<noteq> CHR ''/''"
  shows "path_join base p = path_join base q \<longleftrightarrow> p = q"
  using assms by (simp add: path_join_def)

end
