(* ===== verification/Access.thy ===== *)
theory Access
  imports Crypto Files
begin

text \<open>
  Access tokens: \<open>src/security/access.rs\<close>. Ed25519 is the crate \<open>ed25519_dalek\<close> and enters
  through the library record; a signing key is its 32 secret bytes, a verifying key and a
  signature are their encodings. The clock is an argument. The lemmas show that the signed
  bytes determine every field of a token but its signature, and that a token issued by a
  master key is accepted under its public key exactly until it expires or is revoked.
\<close>

section \<open>Definitions\<close>

record access_lib = hash_lib +
  lib_ed_pub :: "bytes \<Rightarrow> bytes"
  lib_ed_sign :: "bytes \<Rightarrow> bytes \<Rightarrow> bytes"
  lib_ed_vk :: "bytes \<Rightarrow> bytes option"
  lib_ed_verify :: "bytes \<Rightarrow> bytes \<Rightarrow> bytes \<Rightarrow> bool"

datatype permission = PermConnect | PermMine | PermTransact | PermReadChain | PermAdmin

record access_token =
  holder_name :: string
  holder_pubkey :: string
  permissions :: "permission list"
  issued_at :: u64
  expires_at :: u64
  token_id :: string
  token_signature :: string

record master_key =
  mk_signing_key :: bytes
  mk_verifying_key :: bytes

record revocation_list =
  revoked_ids :: "string list"

datatype access_err =
    AccessHex
  | MasterPubkeyLength
  | InvalidMasterPubkey
  | TokenSignatureLength
  | TokenSignatureInvalid
  | TokenExpired u64
  | TokenRevoked string

definition master_key_from_secret_bytes :: "'x access_lib_scheme \<Rightarrow> bytes \<Rightarrow> master_key" where
  "master_key_from_secret_bytes X bs =
     \<lparr>mk_signing_key = bs, mk_verifying_key = lib_ed_pub X bs\<rparr>"

text \<open>\<open>generate\<close>: the randomness is the secret.\<close>

definition master_key_generate :: "'x access_lib_scheme \<Rightarrow> bytes \<Rightarrow> master_key" where
  "master_key_generate X secret =
     \<lparr>mk_signing_key = secret, mk_verifying_key = lib_ed_pub X secret\<rparr>"

definition master_secret_hex :: "'x hash_lib_scheme \<Rightarrow> master_key \<Rightarrow> string" where
  "master_secret_hex X mk = lib_hex_encode X (mk_signing_key mk)"

definition master_public_hex :: "'x hash_lib_scheme \<Rightarrow> master_key \<Rightarrow> string" where
  "master_public_hex X mk = lib_hex_encode X (mk_verifying_key mk)"

text \<open>\<open>format!("{:?}", p)\<close>\<close>

fun permission_debug :: "permission \<Rightarrow> string" where
  "permission_debug PermConnect = ''Connect''"
| "permission_debug PermMine = ''Mine''"
| "permission_debug PermTransact = ''Transact''"
| "permission_debug PermReadChain = ''ReadChain''"
| "permission_debug PermAdmin = ''Admin''"

definition write_bytes :: "string \<Rightarrow> bytes" where
  "write_bytes field = u64_le (word_of_nat (length field)) @ as_bytes field"

definition signable_bytes :: "access_token \<Rightarrow> bytes" where
  "signable_bytes t =
     write_bytes (holder_name t) @ write_bytes (holder_pubkey t)
     @ u64_le (word_of_nat (length (permissions t)))
     @ concat (map (\<lambda>p. write_bytes (permission_debug p)) (permissions t))
     @ u64_le (issued_at t) @ u64_le (expires_at t) @ write_bytes (token_id t)"

definition issue_token ::
  "'x access_lib_scheme \<Rightarrow> u64 \<Rightarrow> master_key \<Rightarrow> string \<Rightarrow> string \<Rightarrow> permission list \<Rightarrow> u64 \<Rightarrow> access_token"
where
  "issue_token X now mk name pubkey perms expires_in_days =
     (let expires = (if expires_in_days = 0 then 0 else now + expires_in_days * 86400);
          id_hash = lib_sha256 X (as_bytes (pubkey @ show_nat (unat now)));
          token = \<lparr>holder_name = name, holder_pubkey = pubkey, permissions = perms,
                   issued_at = now, expires_at = expires,
                   token_id = lib_hex_encode X (take 8 id_hash), token_signature = []\<rparr>;
          sg = lib_ed_sign X (mk_signing_key mk) (signable_bytes token)
      in token\<lparr>token_signature := lib_hex_encode X sg\<rparr>)"

definition revoke :: "string \<Rightarrow> revocation_list \<Rightarrow> revocation_list" where
  "revoke i rl =
     (if i \<notin> set (revoked_ids rl) then rl\<lparr>revoked_ids := revoked_ids rl @ [i]\<rparr> else rl)"

definition is_revoked :: "string \<Rightarrow> revocation_list \<Rightarrow> bool" where
  "is_revoked i rl \<longleftrightarrow> i \<in> set (revoked_ids rl)"

definition verify_with_revocation ::
  "'x access_lib_scheme \<Rightarrow> u64 \<Rightarrow> access_token \<Rightarrow> string \<Rightarrow> revocation_list option \<Rightarrow> access_err + unit"
where
  "verify_with_revocation X now t master_pubkey_hex revocation =
     try_res (ok_or AccessHex (lib_hex_decode X master_pubkey_hex)) (\<lambda>pubkey_bytes.
     if length pubkey_bytes \<noteq> 32 then Inl MasterPubkeyLength
     else
     try_res (ok_or InvalidMasterPubkey (lib_ed_vk X pubkey_bytes)) (\<lambda>verifying_key.
     try_res (ok_or AccessHex (lib_hex_decode X (token_signature t))) (\<lambda>sig_bytes.
     if length sig_bytes \<noteq> 64 then Inl TokenSignatureLength
     else if \<not> lib_ed_verify X verifying_key (signable_bytes t) sig_bytes then Inl TokenSignatureInvalid
     else if 0 < expires_at t \<and> expires_at t < now then Inl (TokenExpired (expires_at t))
     else
     case revocation of
       Some rl \<Rightarrow> if is_revoked (token_id t) rl then Inl (TokenRevoked (token_id t)) else Inr ()
     | None \<Rightarrow> Inr ())))"

definition verify_token ::
  "'x access_lib_scheme \<Rightarrow> u64 \<Rightarrow> access_token \<Rightarrow> string \<Rightarrow> access_err + unit" where
  "verify_token X now t master_pubkey_hex = verify_with_revocation X now t master_pubkey_hex None"

text \<open>The files. \<open>serde_json\<close> is a record of codecs; a load of the revocation list succeeds with the
  empty list when the file does not exist.\<close>

record access_codec =
  token_to_json :: "access_token \<Rightarrow> string option"
  token_of_json :: "string \<Rightarrow> access_token option"
  revocation_to_json :: "revocation_list \<Rightarrow> string option"
  revocation_of_json :: "string \<Rightarrow> revocation_list option"

datatype file_err = FileIo | FileJson

definition save_text :: "write_outcome \<Rightarrow> nat \<Rightarrow> string \<Rightarrow> string option \<Rightarrow> files \<Rightarrow> (files, file_err, unit) st_result" where
  "save_text wr umode path json fs =
     (case json of
        None \<Rightarrow> (Inl FileJson, fs)
      | Some txt \<Rightarrow> (case fs_write wr umode path txt fs of
                      (ok, fs1) \<Rightarrow> (if ok then Inr () else Inl FileIo, fs1)))"

definition save_public_key ::
  "'x hash_lib_scheme \<Rightarrow> write_outcome \<Rightarrow> nat \<Rightarrow> string \<Rightarrow> master_key \<Rightarrow> files \<Rightarrow> (files, file_err, unit) st_result" where
  "save_public_key X wr umode path mk fs = save_text wr umode path (Some (master_public_hex X mk)) fs"

definition token_save ::
  "access_codec \<Rightarrow> write_outcome \<Rightarrow> nat \<Rightarrow> string \<Rightarrow> access_token \<Rightarrow> files \<Rightarrow> (files, file_err, unit) st_result" where
  "token_save J wr umode path t fs = save_text wr umode path (token_to_json J t) fs"

definition token_load :: "access_codec \<Rightarrow> string \<Rightarrow> files \<Rightarrow> file_err + access_token" where
  "token_load J path fs =
     try_res (ok_or FileIo (fs_read fs path)) (\<lambda>json. ok_or FileJson (token_of_json J json))"

definition revocation_save ::
  "access_codec \<Rightarrow> write_outcome \<Rightarrow> nat \<Rightarrow> string \<Rightarrow> revocation_list \<Rightarrow> files \<Rightarrow> (files, file_err, unit) st_result" where
  "revocation_save J wr umode path rl fs = save_text wr umode path (revocation_to_json J rl) fs"

definition revocation_load :: "access_codec \<Rightarrow> string \<Rightarrow> files \<Rightarrow> file_err + revocation_list" where
  "revocation_load J path fs =
     (if fs path = None then Inr \<lparr>revoked_ids = []\<rparr>
      else try_res (ok_or FileIo (fs_read fs path)) (\<lambda>json. ok_or FileJson (revocation_of_json J json)))"

definition has_permission :: "access_token \<Rightarrow> permission \<Rightarrow> bool" where
  "has_permission t p \<longleftrightarrow> PermAdmin \<in> set (permissions t) \<or> p \<in> set (permissions t)"

section \<open>The signed bytes\<close>

text \<open>A framed string is a prefix code for strings whose length fits 64 bits, and so is a framed
  permission name.\<close>

interpretation framed: prefix_code write_bytes "\<lambda>s. length s < 2 ^ 64"
proof
  fix x y r s
  assume len: "length x < 2 ^ 64" "length y < 2 ^ 64" and eq: "write_bytes x @ r = write_bytes y @ s"
  then have "word_of_nat (length x) = (word_of_nat (length y) :: u64)"
    and rest: "as_bytes x @ r = as_bytes y @ s"
    by (auto simp: write_bytes_def u64le.enc_eq_iff)
  then have "length x = length y" using len word_of_nat_inject [where ?'a = 64] by simp
  with rest show "x = y \<and> r = s" by simp
qed

lemma permission_debug_length: "length (permission_debug p) < 2 ^ 64"
  by (cases p) simp_all

lemma permission_debug_inject [simp]: "permission_debug p = permission_debug q \<longleftrightarrow> p = q"
  by (cases p; cases q) simp_all

interpretation framed_perm: prefix_code "\<lambda>p. write_bytes (permission_debug p)" "\<lambda>_. True"
proof
  show "write_bytes (permission_debug x) @ r = write_bytes (permission_debug y) @ s \<Longrightarrow> x = y \<and> r = s"
    for x y r s
    using framed.prefix_free [OF permission_debug_length permission_debug_length, of x r y s] by simp
qed

text \<open>Tokens whose fields fit in memory, and the fields the signature is to cover.\<close>

definition token_sized :: "access_token \<Rightarrow> bool" where
  "token_sized t \<longleftrightarrow> length (holder_name t) < 2 ^ 64 \<and> length (holder_pubkey t) < 2 ^ 64
     \<and> length (permissions t) < 2 ^ 64 \<and> length (token_id t) < 2 ^ 64"

lemma u64_append_inject: "u64_le a @ r = u64_le b @ s \<longleftrightarrow> a = b \<and> r = s"
  by (simp add: u64le.enc_eq_iff)

lemma signable_bytes_inject:
  assumes "token_sized t" "token_sized u"
  shows "signable_bytes t = signable_bytes u \<longleftrightarrow> t\<lparr>token_signature := []\<rparr> = u\<lparr>token_signature := []\<rparr>"
proof
  assume eq: "signable_bytes t = signable_bytes u"
  then have "holder_name t = holder_name u" "holder_pubkey t = holder_pubkey u"
    and len: "(word_of_nat (length (permissions t)) :: u64) = word_of_nat (length (permissions u))"
    and rest: "concat (map (\<lambda>p. write_bytes (permission_debug p)) (permissions t))
        @ u64_le (issued_at t) @ u64_le (expires_at t) @ write_bytes (token_id t) =
      concat (map (\<lambda>p. write_bytes (permission_debug p)) (permissions u))
        @ u64_le (issued_at u) @ u64_le (expires_at u) @ write_bytes (token_id u)"
    using assms by (simp_all add: signable_bytes_def token_sized_def framed.append_inject u64_append_inject)
  moreover have "length (permissions t) = length (permissions u)"
    using len assms word_of_nat_inject [where ?'a = 64] by (simp add: token_sized_def)
  with rest have "permissions t = permissions u"
    "u64_le (issued_at t) @ u64_le (expires_at t) @ write_bytes (token_id t) =
     u64_le (issued_at u) @ u64_le (expires_at u) @ write_bytes (token_id u)"
    using framed_perm.concat_inject by (simp_all add: list_all_iff)
  moreover from this(2) have "issued_at t = issued_at u" "expires_at t = expires_at u"
    "token_id t = token_id u"
    using assms by (simp_all add: u64_append_inject token_sized_def framed.enc_inject)
  ultimately show "t\<lparr>token_signature := []\<rparr> = u\<lparr>token_signature := []\<rparr>"
    by (cases t; cases u) simp
next
  assume "t\<lparr>token_signature := []\<rparr> = u\<lparr>token_signature := []\<rparr>"
  then show "signable_bytes t = signable_bytes u"
    by (cases t; cases u) (simp add: signable_bytes_def)
qed

section \<open>Issuing and verifying\<close>

text \<open>What the code relies on of Ed25519: key and signature sizes, a derived public key parses,
  and a signature verifies under it.\<close>

definition ed_ok :: "'x access_lib_scheme \<Rightarrow> bool" where
  "ed_ok X \<longleftrightarrow> (\<forall>sk. length sk = 32 \<longrightarrow> length (lib_ed_pub X sk) = 32
     \<and> (\<exists>vk. lib_ed_vk X (lib_ed_pub X sk) = Some vk
          \<and> (\<forall>m. length (lib_ed_sign X sk m) = 64 \<and> lib_ed_verify X vk m (lib_ed_sign X sk m))))"

lemma signable_bytes_signature [simp]: "signable_bytes (t\<lparr>token_signature := s\<rparr>) = signable_bytes t"
  by (simp add: signable_bytes_def)

lemma issue_token_fields:
  "expires_at (issue_token X now mk n pk ps d) = (if d = 0 then 0 else now + d * 86400)"
  "token_signature (issue_token X now mk n pk ps d) =
     lib_hex_encode X (lib_ed_sign X (mk_signing_key mk) (signable_bytes (issue_token X now mk n pk ps d)))"
  "permissions (issue_token X now mk n pk ps d) = ps"
  by (simp_all add: issue_token_def Let_def) (simp_all add: signable_bytes_def)

lemma issued_token_verifies:
  assumes "hex_ok X" "ed_ok X" "length secret = 32"
    "mk = master_key_from_secret_bytes X secret" "t = issue_token X issued mk name pubkey perms days"
  shows "verify_with_revocation X now t (master_public_hex X mk) revocation =
    (if days \<noteq> 0 \<and> 0 < issued + days * 86400 \<and> issued + days * 86400 < now
     then Inl (TokenExpired (issued + days * 86400))
     else if (\<exists>rl. revocation = Some rl \<and> token_id t \<in> set (revoked_ids rl))
     then Inl (TokenRevoked (token_id t)) else Inr ())"
proof -
  obtain vk where vk: "lib_ed_vk X (lib_ed_pub X secret) = Some vk" "length (lib_ed_pub X secret) = 32"
    "\<And>m. length (lib_ed_sign X secret m) = 64 \<and> lib_ed_verify X vk m (lib_ed_sign X secret m)"
    using assms(2,3) unfolding ed_ok_def by blast
  have hex: "lib_hex_decode X (lib_hex_encode X b) = Some b" for b
    using assms(1) by (simp add: hex_ok_def)
  have mk: "mk_signing_key mk = secret" "mk_verifying_key mk = lib_ed_pub X secret"
    by (simp_all add: assms(4) master_key_from_secret_bytes_def)
  have fields: "expires_at t = (if days = 0 then 0 else issued + days * 86400)"
    "token_signature t = lib_hex_encode X (lib_ed_sign X secret (signable_bytes t))"
    using issue_token_fields [of X issued mk name pubkey perms days] by (simp_all add: assms(5) mk)
  show ?thesis
    unfolding verify_with_revocation_def master_public_hex_def mk fields(2)
    by (simp add: hex vk fields(1) is_revoked_def split: option.splits)
qed

text \<open>A token issued by a master key is accepted under that key's public key until it
  expires or is revoked, and then refused for that reason: the exact outcome of
  \<open>verify_with_revocation\<close> on an issued token.\<close>

theorem issued_token_outcome:
  assumes "hex_ok X" "ed_ok X" "length secret = 32"
    "mk = master_key_from_secret_bytes X secret" "t = issue_token X issued mk name pubkey perms days"
  shows "verify_with_revocation X now t (master_public_hex X mk) revocation =
    (if days \<noteq> 0 \<and> 0 < issued + days * 86400 \<and> issued + days * 86400 < now
     then Inl (TokenExpired (issued + days * 86400))
     else if (\<exists>rl. revocation = Some rl \<and> token_id t \<in> set (revoked_ids rl))
     then Inl (TokenRevoked (token_id t)) else Inr ())"
  by (rule issued_token_verifies [OF assms])

definition demo_access_lib :: access_lib where
  "demo_access_lib = hash_lib.extend (hash_lib.truncate demo_sig_lib)
     (access_lib.fields (\<lambda>sk. sk) (\<lambda>sk m. replicate 64 1) Some (\<lambda>vk m s. s = replicate 64 1))"

lemma demo_access_lib_ok: "hex_ok demo_access_lib" "ed_ok demo_access_lib" "sha_ok demo_access_lib"
  using demo_sig_lib_ok
  by (simp_all add: demo_access_lib_def hash_lib.defs access_lib.defs hex_ok_def ed_ok_def sha_ok_def)

theorem issued_token_outcome_witness:
  "verify_with_revocation demo_access_lib 87401
     (issue_token demo_access_lib 1000 (master_key_from_secret_bytes demo_access_lib (replicate 32 7))
        ''Alice'' ''ab'' [PermMine] 1)
     (master_public_hex demo_access_lib (master_key_from_secret_bytes demo_access_lib (replicate 32 7))) None
   = Inl (TokenExpired 87400)"
  using issued_token_outcome [OF demo_access_lib_ok(1,2) _ refl refl,
      of "replicate 32 7" 87401 1000 "''Alice''" "''ab''" "[PermMine]" 1 None] by simp

lemma revoked_token_refused:
  "is_revoked i (revoke i rl)" "is_revoked j rl \<Longrightarrow> is_revoked j (revoke i rl)"
  "distinct (revoked_ids rl) \<Longrightarrow> distinct (revoked_ids (revoke i rl))"
  by (simp_all add: is_revoked_def revoke_def)

section \<open>Files\<close>

text \<open>\<open>serde_json\<close> reads back what it wrote.\<close>

definition codec_reads :: "access_codec \<Rightarrow> bool" where
  "codec_reads J \<longleftrightarrow> (\<forall>t s. token_to_json J t = Some s \<longrightarrow> token_of_json J s = Some t)
     \<and> (\<forall>rl s. revocation_to_json J rl = Some s \<longrightarrow> revocation_of_json J s = Some rl)"

lemma save_text_Inr:
  "save_text wr um path json fs = (Inr (), fs') \<Longrightarrow> \<exists>txt. json = Some txt \<and> fs_read fs' path = Some txt"
  "save_text wr um path json fs = (r, fs') \<Longrightarrow> p \<noteq> path \<Longrightarrow> fs' p = fs p"
  by (auto simp: save_text_def dest: fs_write_True split: option.splits prod.splits if_splits)

lemma saved_token_loads:
  assumes "codec_reads J" "token_save J wr um path t fs = (Inr (), fs')"
  shows "token_load J path fs' = Inr t"
  using assms save_text_Inr(1) [of wr um path "token_to_json J t" fs fs']
  by (auto simp: token_save_def token_load_def codec_reads_def)

lemma saved_revocations_load:
  assumes "codec_reads J" "revocation_save J wr um path rl fs = (Inr (), fs')"
  shows "revocation_load J path fs' = Inr rl"
  using assms save_text_Inr(1) [of wr um path "revocation_to_json J rl" fs fs']
  by (auto simp: revocation_save_def revocation_load_def codec_reads_def fs_read_def)

end
