(* ===== verification/ArkHash.thy ===== *)
theory ArkHash
  imports Crypto
begin

text \<open>
  The neural proof-of-work hash: \<open>src/crypto/arkhash.rs\<close>. Rust's \<open>i8\<close>, \<open>i16\<close> and \<open>i32\<close> are
  words read with \<open>sint\<close>; \<open>as i32\<close> is sign extension, \<open>as i8\<close> truncation, \<open>>>\<close> on \<open>i32\<close> the
  arithmetic shift, and \<open>+\<close>, \<open>*\<close> wrap as in the release build. The weight table, built once and
  cached, is a function of the protocol seed. The lemmas show that the table has the size every
  index needs, that its entries are in the documented ranges, and that the 32-bit accumulator of
  a layer never wraps: a layer computes exactly the clamped, scaled integer product.
\<close>

section \<open>Signed words\<close>

type_synonym i8 = "8 word"
type_synonym i16 = "16 word"
type_synonym i32 = "32 word"

definition signed_max :: "'a::len word \<Rightarrow> 'a word \<Rightarrow> 'a word" where
  "signed_max a b = (if sint a < sint b then b else a)"

definition signed_clamp :: "'a::len word \<Rightarrow> 'a word \<Rightarrow> 'a word \<Rightarrow> 'a word" where
  "signed_clamp lo hi a = (if sint a < sint lo then lo else if sint hi < sint a then hi else a)"

definition i16_from_le_bytes :: "u8 \<Rightarrow> u8 \<Rightarrow> i16" where
  "i16_from_le_bytes a b = word_of_nat (le_nat [a, b])"

section \<open>The network\<close>

definition D :: nat where "D = 256"
definition L :: nat where "L = 16"
definition Q_SHIFT :: nat where "Q_SHIFT = 12"
definition WEIGHT_SEED :: bytes where "WEIGHT_SEED = as_bytes ''ARKOS_NEUROPOW_V1''"

record net =
  net_w :: "i8 list"
  net_b :: "i16 list"

definition div_ceil :: "nat \<Rightarrow> nat \<Rightarrow> nat" where
  "div_ceil a b = (a + b - 1) div b"

text \<open>The entries one keystream block provides: weights without \<open>-128\<close>, biases in \<open>[-64, 64]\<close>.
  The last block is cut at the size of the table.\<close>

definition weight_chunk :: "'x hash_lib_scheme \<Rightarrow> bytes \<Rightarrow> nat \<Rightarrow> nat \<Rightarrow> i8 list" where
  "weight_chunk X master total_w chunk =
     (let block = lib_sha256 X (master @ as_bytes ''W'' @ u32_le (word_of_nat chunk));
          start = chunk * 32; stop = min (start + 32) total_w
      in map (\<lambda>byte. signed_max byte (- 127)) (take (stop - start) block))"

fun pairs :: "'a list \<Rightarrow> ('a \<times> 'a) list" where
  "pairs (x # y # xs) = (x, y) # pairs xs"
| "pairs xs = []"

definition bias_chunk :: "'x hash_lib_scheme \<Rightarrow> bytes \<Rightarrow> nat \<Rightarrow> nat \<Rightarrow> i16 list" where
  "bias_chunk X master total_b chunk =
     (let block = lib_sha256 X (master @ as_bytes ''B'' @ u32_le (word_of_nat chunk));
          start = chunk * 16; stop = min (start + 16) total_b
      in map (\<lambda>(a, b). signed_clamp (- 64) 64 (i16_from_le_bytes a b))
           (take (stop - start) (pairs block)))"

definition build_net :: "'x hash_lib_scheme \<Rightarrow> net" where
  "build_net X =
     (let master = lib_sha256 X WEIGHT_SEED; total_w = L * D * D; total_b = L * D in
      \<lparr>net_w = concat (map (weight_chunk X master total_w) [0..<div_ceil total_w 32]),
       net_b = concat (map (bias_chunk X master total_b) [0..<div_ceil total_b 16])\<rparr>)"

definition expand_seed :: "'x hash_lib_scheme \<Rightarrow> bytes \<Rightarrow> i8 list" where
  "expand_seed X seed =
     concat (map (\<lambda>c. take (min (c * 32 + 32) D - c * 32)
                        (lib_sha256 X (seed @ [word_of_nat c]))) [0..<div_ceil D 32])"

text \<open>The inner loop of a row: the accumulator starts at the bias.\<close>

definition row_acc :: "net \<Rightarrow> nat \<Rightarrow> nat \<Rightarrow> i8 list \<Rightarrow> i32" where
  "row_acc nt w_row b_ix x =
     fold (\<lambda>(col, x_val) acc. acc + signed (net_w nt ! (w_row + col)) * signed x_val)
       (enumerate 0 x) (signed (net_b nt ! b_ix))"

definition int8_fc_layer :: "net \<Rightarrow> nat \<Rightarrow> i8 list \<Rightarrow> i8 list" where
  "int8_fc_layer nt l x =
     (let w_base = l * D * D; b_base = l * D in
      map (\<lambda>row. ucast (signed_clamp (- 127) 127
             (signed_drop_bit Q_SHIFT (row_acc nt (w_base + row * D) (b_base + row) x)))) [0..<D])"

definition arkhash :: "'x hash_lib_scheme \<Rightarrow> bytes \<Rightarrow> bytes" where
  "arkhash X input =
     (let nt = build_net X; seed = lib_sha256 X input; x = expand_seed X seed
      in lib_sha256 X (fold (int8_fc_layer nt) [0..<L] x))"

section \<open>The weight table\<close>

lemma length_concat_const:
  "(\<And>x. x \<in> set xs \<Longrightarrow> length (f x) = n) \<Longrightarrow> length (concat (map f xs)) = n * length xs"
  by (induction xs) auto

lemma length_pairs: "length (pairs xs) = length xs div 2"
  by (induction xs rule: pairs.induct) auto

lemma sint_minus_numerals:
  "sint (- 127 :: i8) = - 127" "sint (- 64 :: i16) = - 64" "sint (64 :: i16) = 64"
  "sint (- 127 :: i32) = - 127" "sint (127 :: i32) = 127"
  by simp_all

lemma sint_i8_range: "- 128 \<le> sint (a :: i8)" "sint (a :: i8) \<le> 127"
  using sint_ge [of a] sint_lt [of a] by simp_all

lemma length_build_net:
  assumes "sha_ok X"
  shows "length (net_w (build_net X)) = L * D * D" "length (net_b (build_net X)) = L * D"
proof -
  let ?m = "lib_sha256 X WEIGHT_SEED"
  have "length (weight_chunk X ?m (L * D * D) c) = 32" if "c < 32768" for c
    using that assms by (simp add: weight_chunk_def Let_def sha_ok_def L_def D_def min_def)
  then have "length (concat (map (weight_chunk X ?m (L * D * D)) [0..<32768])) = 32 * length [0..<32768 :: nat]"
    by (intro length_concat_const) simp
  moreover have "div_ceil (L * D * D) 32 = 32768" by (simp add: div_ceil_def L_def D_def)
  ultimately show "length (net_w (build_net X)) = L * D * D"
    by (simp add: build_net_def Let_def) (simp add: L_def D_def)
  have "length (bias_chunk X ?m (L * D) c) = 16" if "c < 256" for c
    using that assms by (simp add: bias_chunk_def Let_def sha_ok_def L_def D_def min_def length_pairs)
  then have "length (concat (map (bias_chunk X ?m (L * D)) [0..<256])) = 16 * length [0..<256 :: nat]"
    by (intro length_concat_const) simp
  moreover have "div_ceil (L * D) 16 = 256" by (simp add: div_ceil_def L_def D_def)
  ultimately show "length (net_b (build_net X)) = L * D"
    by (simp add: build_net_def Let_def) (simp add: L_def D_def)
qed

lemma build_net_ranges:
  "w \<in> set (net_w (build_net X)) \<Longrightarrow> \<bar>sint w\<bar> \<le> 127"
  "b \<in> set (net_b (build_net X)) \<Longrightarrow> \<bar>sint b\<bar> \<le> 64"
proof -
  have "\<bar>sint (signed_max a (- 127 :: i8))\<bar> \<le> 127" for a
    using sint_i8_range [of a] by (auto simp: signed_max_def)
  then show "w \<in> set (net_w (build_net X)) \<Longrightarrow> \<bar>sint w\<bar> \<le> 127"
    by (auto simp: build_net_def Let_def weight_chunk_def)
  have "\<bar>sint (signed_clamp (- 64) 64 a :: i16)\<bar> \<le> 64" for a
    by (auto simp: signed_clamp_def)
  then show "b \<in> set (net_b (build_net X)) \<Longrightarrow> \<bar>sint b\<bar> \<le> 64"
    by (auto simp: build_net_def Let_def bias_chunk_def)
qed

section \<open>The accumulator does not wrap\<close>

lemma sint_add_exact:
  "\<bar>sint a + sint b\<bar> < 2 ^ 31 \<Longrightarrow> sint (a + b :: i32) = sint a + sint b"
  by (simp add: sint_word_add signed_take_bit_int_eq_self_iff abs_less_iff)

lemma sint_mult_exact:
  "\<bar>sint a * sint b\<bar> < 2 ^ 31 \<Longrightarrow> sint (a * b :: i32) = sint a * sint b"
  by (simp add: sint_word_mult signed_take_bit_int_eq_self_iff abs_less_iff)

lemma sint_i32_of_i8 [simp]: "sint (signed (a :: i8) :: i32) = sint a"
  by (rule sint_up_scast) (simp add: is_up)

lemma sint_i32_of_i16 [simp]: "sint (signed (a :: i16) :: i32) = sint a"
  by (rule sint_up_scast) (simp add: is_up)

lemma sint_product:
  assumes "\<bar>sint (w :: i8)\<bar> \<le> 127"
  shows "sint (signed w * signed (x :: i8) :: i32) = sint w * sint x" "\<bar>sint w * sint x\<bar> \<le> 16256"
proof -
  have "\<bar>sint x\<bar> \<le> 128" using sint_i8_range [of x] by simp
  with assms have "\<bar>sint w\<bar> * \<bar>sint x\<bar> \<le> 127 * 128" by (intro mult_mono) auto
  then show "\<bar>sint w * sint x\<bar> \<le> 16256" by (simp add: abs_mult)
  then show "sint (signed w * signed x :: i32) = sint w * sint x"
    by (subst sint_mult_exact) simp_all
qed

text \<open>The dot product over the integers, from column \<open>k\<close> on.\<close>

fun dot_from :: "i8 list \<Rightarrow> nat \<Rightarrow> nat \<Rightarrow> i8 list \<Rightarrow> int" where
  "dot_from w w_row k [] = 0"
| "dot_from w w_row k (x # xs) = sint (w ! (w_row + k)) * sint x + dot_from w w_row (Suc k) xs"

lemma fold_acc_exact:
  fixes acc :: i32
  assumes "\<And>i. i < length xs \<Longrightarrow> \<bar>sint (w ! (w_row + k + i))\<bar> \<le> 127"
    "\<bar>sint acc\<bar> + 16256 * int (length xs) < 2 ^ 31"
  shows "sint (fold (\<lambda>(col, x) a. a + signed (w ! (w_row + col)) * signed x) (enumerate k xs) acc)
    = sint acc + dot_from w w_row k xs"
  using assms
proof (induction xs arbitrary: k acc)
  case Nil
  then show ?case by simp
next
  case (Cons x xs)
  let ?p = "signed (w ! (w_row + k)) * signed x :: i32"
  have p: "sint ?p = sint (w ! (w_row + k)) * sint x" "\<bar>sint ?p\<bar> \<le> 16256"
    using sint_product [of "w ! (w_row + k)" x] Cons.prems(1) [of 0] by simp_all
  have a: "sint (acc + ?p) = sint acc + sint ?p"
    using p(2) Cons.prems(2) by (intro sint_add_exact) simp
  have "sint (fold (\<lambda>(col, x) a. a + signed (w ! (w_row + col)) * signed x) (enumerate (Suc k) xs) (acc + ?p))
      = sint (acc + ?p) + dot_from w w_row (Suc k) xs"
  proof (rule Cons.IH)
    show "\<bar>sint (w ! (w_row + Suc k + i))\<bar> \<le> 127" if "i < length xs" for i
      using Cons.prems(1) [of "Suc i"] that by simp
    show "\<bar>sint (acc + ?p)\<bar> + 16256 * int (length xs) < 2 ^ 31"
      using Cons.prems(2) p(2) by (simp add: a)
  qed
  then show ?case by (simp add: a p(1))
qed

lemma dot_from_sum:
  "dot_from w w_row k xs = (\<Sum>i < length xs. sint (w ! (w_row + k + i)) * sint (xs ! i))"
  by (induction xs arbitrary: k) (simp_all add: sum.lessThan_Suc_shift del: sum.lessThan_Suc)

text \<open>The reference: a layer over unbounded integers.\<close>

definition clamp_int :: "int \<Rightarrow> int" where
  "clamp_int v = max (- 127) (min 127 v)"

definition fc_reference :: "net \<Rightarrow> nat \<Rightarrow> i8 list \<Rightarrow> nat \<Rightarrow> int" where
  "fc_reference nt l x row = clamp_int
     ((sint (net_b nt ! (l * D + row))
       + (\<Sum>i < D. sint (net_w nt ! (l * D * D + row * D + i)) * sint (x ! i))) div 2 ^ Q_SHIFT)"

lemma sint_signed_clamp:
  "sint (signed_clamp (- 127) 127 a :: i32) = clamp_int (sint a)"
  by (auto simp: signed_clamp_def clamp_int_def)

lemma sint_narrow: "\<bar>sint (a :: i32)\<bar> \<le> 127 \<Longrightarrow> sint (ucast a :: i8) = sint a"
proof -
  assume a: "\<bar>sint a\<bar> \<le> 127"
  have "(ucast a :: i8) = word_of_int (sint a)"
    by transfer (simp add: take_bit_signed_take_bit)
  then have "sint (ucast a :: i8) = signed_take_bit 7 (sint a)"
    by (simp only: sint_sbintrunc') simp
  also have "\<dots> = sint a" using a by (simp add: signed_take_bit_int_eq_self_iff abs_le_iff)
  finally show ?thesis .
qed

lemma fc_layer_exact:
  assumes "sha_ok X" "l < L" "length x = D" "row < D"
  shows "sint (int8_fc_layer (build_net X) l x ! row) = fc_reference (build_net X) l x row"
proof -
  let ?nt = "build_net X"
  let ?w_row = "l * D * D + row * D"
  have "l * D + row < L * D"
    using assms(2,4) by (simp add: L_def D_def)
  then have b: "\<bar>sint (net_b ?nt ! (l * D + row))\<bar> \<le> 64"
    by (intro build_net_ranges(2) [of _ X] nth_mem) (simp add: length_build_net(2) [OF assms(1)])
  have w: "\<bar>sint (net_w ?nt ! (?w_row + 0 + i))\<bar> \<le> 127" if "i < length x" for i
  proof -
    have "?w_row + i < L * D * D" using assms(2-4) that by (simp add: L_def D_def)
    then show ?thesis
      by (intro build_net_ranges(1) [of _ X] nth_mem) (simp add: length_build_net(1) [OF assms(1)])
  qed
  have "sint (row_acc ?nt ?w_row (l * D + row) x)
      = sint (net_b ?nt ! (l * D + row)) + dot_from (net_w ?nt) ?w_row 0 x"
    unfolding row_acc_def using b assms(3)
    by (subst fold_acc_exact [OF w]) (simp_all add: D_def)
  then have "sint (signed_clamp (- 127) 127
        (signed_drop_bit Q_SHIFT (row_acc ?nt ?w_row (l * D + row) x))) = fc_reference ?nt l x row"
    by (simp add: sint_signed_clamp sint_signed_drop_bit_eq drop_bit_eq_div fc_reference_def
        dot_from_sum assms(3))
  then show ?thesis
    using assms(4) sint_narrow by (simp add: int8_fc_layer_def Let_def sint_signed_clamp clamp_int_def)
qed

text \<open>C33: a layer of the neural hash computes the integer function: with the protocol weight
  table, no 32-bit accumulator wraps and every output is the bias plus the integer dot product of
  weights and activations, divided by \<open>2 ^ Q_SHIFT\<close> (rounding down) and clamped to
  \<open>[-127, 127]\<close>; every index of the computation is inside the table.\<close>

theorem arkhash_layer_exact:
  assumes "sha_ok X" "l < L" "length x = D"
  shows "length (int8_fc_layer (build_net X) l x) = D
    \<and> map sint (int8_fc_layer (build_net X) l x) = map (fc_reference (build_net X) l x) [0..<D]
    \<and> length (net_w (build_net X)) = L * D * D \<and> length (net_b (build_net X)) = L * D"
proof -
  have "length (int8_fc_layer (build_net X) l x) = D" by (simp add: int8_fc_layer_def Let_def)
  moreover have "map sint (int8_fc_layer (build_net X) l x) = map (fc_reference (build_net X) l x) [0..<D]"
    using calculation fc_layer_exact [OF assms] by (intro nth_equalityI) simp_all
  ultimately show ?thesis using length_build_net [OF assms(1)] by simp
qed

theorem arkhash_layer_exact_witness:
  "map sint (int8_fc_layer (build_net demo_sig_lib) 0 (replicate D 3)) =
     map (fc_reference (build_net demo_sig_lib) 0 (replicate D 3)) [0..<D]"
  using arkhash_layer_exact [OF demo_sig_lib_ok(1), of 0 "replicate D 3"] by (simp add: L_def)

text \<open>The seed expands to \<open>D\<close> activations, so all layers run, and the result is a digest.\<close>

lemma length_expand_seed: "sha_ok X \<Longrightarrow> length (expand_seed X seed) = D"
proof -
  assume "sha_ok X"
  then have "length (expand_seed X seed) = 32 * length [0..<div_ceil D 32]"
    unfolding expand_seed_def
    by (intro length_concat_const) (auto simp: sha_ok_def D_def div_ceil_def min_def)
  then show ?thesis by (simp add: div_ceil_def D_def)
qed

lemma arkhash_activations:
  assumes "sha_ok X" "length x = D" "ls \<noteq> []"
  shows "length (fold (int8_fc_layer (build_net X)) ls x) = D"
    "\<And>v. list_all (\<lambda>l. l < L) ls \<Longrightarrow> v \<in> set (fold (int8_fc_layer (build_net X)) ls x) \<Longrightarrow> \<bar>sint v\<bar> \<le> 127"
proof -
  have len: "length (int8_fc_layer nt l y) = D" for nt l y by (simp add: int8_fc_layer_def Let_def)
  have keep: "length x = D \<Longrightarrow> length (fold (int8_fc_layer (build_net X)) ls x) = D" for x ls
    by (induction ls arbitrary: x) (simp_all add: len)
  then show "length (fold (int8_fc_layer (build_net X)) ls x) = D" using assms(2) by blast
  fix v
  assume ls: "list_all (\<lambda>l. l < L) ls" and v: "v \<in> set (fold (int8_fc_layer (build_net X)) ls x)"
  obtain ks l where ls_def: "ls = ks @ [l]" using assms(3) by (metis append_butlast_last_id)
  let ?y = "fold (int8_fc_layer (build_net X)) ks x"
  have y: "length ?y = D" using keep assms(2) by blast
  have l: "l < L" using ls by (simp add: ls_def)
  obtain row where "row < D" "v = int8_fc_layer (build_net X) l ?y ! row"
    using v len by (auto simp: ls_def in_set_conv_nth)
  then have "sint v = fc_reference (build_net X) l ?y row"
    using fc_layer_exact [OF assms(1) l y] by simp
  then show "\<bar>sint v\<bar> \<le> 127" by (simp add: fc_reference_def clamp_int_def)
qed

lemma length_arkhash: "sha_ok X \<Longrightarrow> length (arkhash X input) = 32"
  by (simp add: arkhash_def Let_def sha_ok_def)

end
