(* ===== verification/Wallet.thy ===== *)
theory Wallet
  imports Tx_Validation
begin

text \<open>
  Wallets: \<open>src/wallet/wallet.rs\<close>. Keys, addresses, the textual form of the secret, recovery
  phrases, hierarchical derivation and the construction of a signed payment. The crates
  \<open>bip39\<close>, \<open>hmac\<close>/\<open>sha2\<close> (HMAC-SHA512) and the scalar arithmetic of \<open>secp256k1\<close> enter through
  the library record. The lemmas connect the wallet with the validation of the node: a payment
  built by \<open>send\<close> from mature, plainly locked outputs is accepted with exactly the fee asked for,
  unless its change is dust; and they show that the textual secret and the phrase read back.
\<close>

section \<open>Keys\<close>

record wallet_lib = tx_lib +
  lib_hmac_sha512 :: "bytes \<Rightarrow> bytes \<Rightarrow> bytes"
  lib_scalar :: "bytes \<Rightarrow> bytes option"
  lib_secp_add_tweak :: "bytes \<Rightarrow> bytes \<Rightarrow> bytes option"
  lib_bip39_phrase :: "bytes \<Rightarrow> string option"
  lib_bip39_parse :: "string \<Rightarrow> bytes option"

record wallet =
  keypair :: hybrid_key_pair

datatype wallet_err =
    NotHybridKey
  | WalletHex
  | WalletCrypto crypto_err
  | InvalidPhrase
  | PhraseLength
  | InsufficientFunds u64 u64
  | MasterScalar
  | TweakRange u32
  | DerivationFailed u32

text \<open>\<open>Wallet::new\<close>: the randomness is the secret scalar and the ML-DSA seed.\<close>

definition wallet_new :: "'x sig_lib_scheme \<Rightarrow> bytes \<Rightarrow> bytes \<Rightarrow> wallet" where
  "wallet_new X sk seed = \<lparr>keypair = hybrid_generate X sk seed\<rparr>"

text \<open>\<open>str::split(c)\<close>\<close>

fun split_on :: "char \<Rightarrow> string \<Rightarrow> string list" where
  "split_on c [] = [[]]"
| "split_on c (x # xs) =
     (if x = c then [] # split_on c xs
      else case split_on c xs of [] \<Rightarrow> [[x]] | p # ps \<Rightarrow> (x # p) # ps)"

definition wallet_from_secret_hex :: "'x sig_lib_scheme \<Rightarrow> string \<Rightarrow> wallet_err + wallet" where
  "wallet_from_secret_hex X hex =
     (let parts = split_on (CHR '':'') hex in
      if length parts \<noteq> 4 \<or> parts ! 0 \<noteq> ''hybrid'' then Inl NotHybridKey
      else
        try_res (ok_or WalletHex (lib_hex_decode X (parts ! 1))) (\<lambda>es.
        try_res (ok_or WalletHex (lib_hex_decode X (parts ! 2))) (\<lambda>ds.
        try_res (ok_or WalletHex (lib_hex_decode X (parts ! 3))) (\<lambda>dp.
        try_res (map_err WalletCrypto (hybrid_from_parts X es ds dp)) (\<lambda>kp.
        Inr \<lparr>keypair = kp\<rparr>)))))"

definition wallet_address :: "'x sig_lib_scheme \<Rightarrow> wallet \<Rightarrow> string" where
  "wallet_address X w = lib_hex_encode X
     (hybrid_pubkey_to_address X (ecdsa_public (keypair w)) (dilithium_public (keypair w)))"

definition wallet_public_key_hex :: "'x hash_lib_scheme \<Rightarrow> wallet \<Rightarrow> string" where
  "wallet_public_key_hex X w = lib_hex_encode X (ecdsa_public (keypair w))"

definition wallet_secret_key_hex :: "'x hash_lib_scheme \<Rightarrow> wallet \<Rightarrow> string" where
  "wallet_secret_key_hex X w =
     ''hybrid:'' @ ecdsa_secret_hex X (keypair w) @ '':'' @ dilithium_secret_hex X (keypair w)
     @ '':'' @ dilithium_public_hex X (keypair w)"

text \<open>\<open>generate_with_phrase\<close>: \<open>None\<close> is a panic of one of the two \<open>expect\<close>s.\<close>

definition generate_with_phrase :: "'x wallet_lib_scheme \<Rightarrow> bytes \<Rightarrow> (wallet \<times> string) option" where
  "generate_with_phrase X entropy =
     (case (lib_bip39_phrase X entropy, hybrid_from_ecdsa_secret_bytes X entropy) of
        (Some ph, Inr kp) \<Rightarrow> Some (\<lparr>keypair = kp\<rparr>, ph)
      | _ \<Rightarrow> None)"

definition wallet_phrase :: "'x wallet_lib_scheme \<Rightarrow> wallet \<Rightarrow> string option" where
  "wallet_phrase X w = lib_bip39_phrase X (ecdsa_secret (keypair w))"

definition wallet_from_phrase :: "'x wallet_lib_scheme \<Rightarrow> string \<Rightarrow> wallet_err + wallet" where
  "wallet_from_phrase X ph =
     try_res (ok_or InvalidPhrase (lib_bip39_parse X ph)) (\<lambda>entropy.
     if length entropy \<noteq> 32 then Inl PhraseLength
     else
       try_res (map_err WalletCrypto (hybrid_from_ecdsa_secret_bytes X entropy)) (\<lambda>kp.
       Inr \<lparr>keypair = kp\<rparr>))"

section \<open>Payments\<close>

text \<open>Coin selection: the running sum wraps as \<open>u64\<close> does.\<close>

fun select_coins :: "u64 \<Rightarrow> u64 \<Rightarrow> utxo list \<Rightarrow> utxo list \<Rightarrow> u64 \<times> utxo list" where
  "select_coins needed collected selected [] = (collected, selected)"
| "select_coins needed collected selected (u # us) =
     (let c = collected + out_value (utxo_output u); s = selected @ [u] in
      if needed \<le> c then (c, s) else select_coins needed c s us)"

definition spend_input :: "hybrid_public_key \<Rightarrow> hybrid_signature \<Rightarrow> utxo \<Rightarrow> tx_input" where
  "spend_input pk sg u =
     \<lparr>prev_tx_hash = utxo_tx_hash u, prev_index = utxo_index u, input_signature = sg,
      input_pubkey = pk, coinbase_extra = [], witnesses = []\<rparr>"

definition send_outputs :: "string \<Rightarrow> u64 \<Rightarrow> u64 \<Rightarrow> string \<Rightarrow> tx_output list" where
  "send_outputs recipient amount change my_addr =
     [\<lparr>out_value = amount, out_script = None, out_address = recipient\<rparr>]
     @ (if 0 < change then [\<lparr>out_value = change, out_script = None, out_address = my_addr\<rparr>] else [])"

text \<open>\<open>send\<close>: \<open>None\<close> is a panic (a malformed key of the set, or a seed that is not 32 bytes).\<close>

definition wallet_send ::
  "'x tx_lib_scheme \<Rightarrow> wallet \<Rightarrow> string \<Rightarrow> u64 \<Rightarrow> u64 \<Rightarrow> utxo_set \<Rightarrow> u32
     \<Rightarrow> (wallet_err + transaction) option" where
  "wallet_send X w recipient amount fee us network_magic =
     (let my_addr = wallet_address X w in
      case utxos_for us my_addr of
        None \<Rightarrow> None
      | Some coins \<Rightarrow>
          let needed = amount + fee in
          case select_coins needed 0 [] coins of
            (collected, selected) \<Rightarrow>
              if collected < needed then Some (Inl (InsufficientFunds collected needed))
              else
                let outs = send_outputs recipient amount (collected - needed) my_addr;
                    pk = public_key (keypair w);
                    unsigned = tx_new (map (spend_input pk empty_signature) selected) outs
                in case hybrid_sign X (keypair w) (sig_hash X network_magic unsigned) of
                     None \<Rightarrow> None
                   | Some sg \<Rightarrow> Some (Inr (tx_new (map (spend_input pk sg) selected) outs)))"

section \<open>Hierarchical derivation\<close>

record hd_wallet =
  master_secret :: bytes
  master_chain_code :: bytes

definition hd_from_entropy :: "'x wallet_lib_scheme \<Rightarrow> bytes \<Rightarrow> wallet_err + hd_wallet" where
  "hd_from_entropy X entropy =
     (let result = lib_hmac_sha512 X (as_bytes ''Arkos seed'') entropy in
      try_res (ok_or MasterScalar (lib_secp_sk X (take 32 result))) (\<lambda>ms.
      Inr \<lparr>master_secret = ms, master_chain_code = drop 32 result\<rparr>))"

definition derive_child_key ::
  "'x wallet_lib_scheme \<Rightarrow> bytes \<Rightarrow> bytes \<Rightarrow> u32 \<Rightarrow> wallet_err + bytes \<times> bytes" where
  "derive_child_key X parent_secret parent_chain index =
     (let result = lib_hmac_sha512 X parent_chain (lib_secp_pub X parent_secret @ u32_be index) in
      try_res (ok_or (TweakRange index) (lib_scalar X (take 32 result))) (\<lambda>scalar.
      try_res (ok_or (DerivationFailed index) (lib_secp_add_tweak X parent_secret scalar)) (\<lambda>child.
      Inr (child, drop 32 result))))"

definition derive_child_wallet ::
  "'x wallet_lib_scheme \<Rightarrow> bytes \<Rightarrow> bytes \<Rightarrow> u32 \<Rightarrow> u32 \<Rightarrow> wallet_err + wallet" where
  "derive_child_wallet X parent_secret parent_chain account index =
     try_res (derive_child_key X parent_secret parent_chain account) (\<lambda>(acct_secret, acct_chain).
     try_res (derive_child_key X acct_secret acct_chain index) (\<lambda>(child_secret, _).
     try_res (map_err WalletCrypto (hybrid_from_ecdsa_secret_bytes X child_secret)) (\<lambda>kp.
     Inr \<lparr>keypair = kp\<rparr>)))"

definition derive_receiving :: "'x wallet_lib_scheme \<Rightarrow> hd_wallet \<Rightarrow> u32 \<Rightarrow> wallet_err + wallet" where
  "derive_receiving X hw index =
     derive_child_wallet X (master_secret hw) (master_chain_code hw) 0 index"

definition derive_change :: "'x wallet_lib_scheme \<Rightarrow> hd_wallet \<Rightarrow> u32 \<Rightarrow> wallet_err + wallet" where
  "derive_change X hw index =
     derive_child_wallet X (master_secret hw) (master_chain_code hw) 1 index"

section \<open>Secrets read back\<close>

lemma split_on_append:
  "c \<notin> set s \<Longrightarrow> split_on c (s @ c # t) = s # split_on c t"
  by (induction s) auto

lemma split_on_plain: "c \<notin> set s \<Longrightarrow> split_on c s = [s]"
  by (induction s) auto

lemma secret_hex_split:
  assumes "hex_ok X"
  shows "split_on (CHR '':'') (wallet_secret_key_hex X w) =
    [''hybrid'', ecdsa_secret_hex X (keypair w), dilithium_secret_hex X (keypair w),
     dilithium_public_hex X (keypair w)]"
proof -
  have h: "wallet_secret_key_hex X w = ''hybrid'' @ CHR '':'' # ecdsa_secret_hex X (keypair w)
      @ CHR '':'' # dilithium_secret_hex X (keypair w) @ CHR '':'' # dilithium_public_hex X (keypair w)"
    by (simp add: wallet_secret_key_hex_def)
  have "CHR '':'' \<notin> set ''hybrid''" by simp
  then show ?thesis
    unfolding h ecdsa_secret_hex_def dilithium_secret_hex_def dilithium_public_hex_def
    by (simp only: split_on_append split_on_plain colon_not_hex [OF assms] not_False_eq_True)
qed

lemma secret_hex_roundtrip:
  assumes "hex_ok X" "hybrid_from_parts X (ecdsa_secret (keypair w)) (dilithium_secret (keypair w))
      (dilithium_public (keypair w)) = Inr (keypair w)"
  shows "wallet_from_secret_hex X (wallet_secret_key_hex X w) = Inr w"
  using assms
  by (simp add: wallet_from_secret_hex_def secret_hex_split Let_def)
    (simp add: ecdsa_secret_hex_def dilithium_secret_hex_def dilithium_public_hex_def hex_ok_def)

lemma phrase_roundtrip:
  assumes "\<And>e ph. length e = 32 \<Longrightarrow> lib_bip39_phrase X e = Some ph \<Longrightarrow> lib_bip39_parse X ph = Some e"
    "length entropy = 32" "generate_with_phrase X entropy = Some (w, ph)"
  shows "wallet_from_phrase X ph = Inr w"
  using assms(2,3) assms(1) [of entropy ph]
  by (auto simp: generate_with_phrase_def wallet_from_phrase_def split: option.splits sum.splits)

section \<open>A payment is accepted\<close>

definition coins_value :: "utxo list \<Rightarrow> nat" where
  "coins_value us = sum_list (map (\<lambda>u. unat (out_value (utxo_output u))) us)"

lemma coins_value_simps [simp]:
  "coins_value [] = 0" "coins_value (u # us) = unat (out_value (utxo_output u)) + coins_value us"
  "coins_value (us @ vs) = coins_value us + coins_value vs"
  by (simp_all add: coins_value_def)

lemma select_coins_spec:
  assumes "select_coins needed c sel us = (c', sel')" "unat c = coins_value sel"
    "coins_value sel + coins_value us < 2 ^ 64"
  shows "\<exists>k. sel' = sel @ take k us \<and> unat c' = coins_value sel'"
  using assms
proof (induction us arbitrary: c sel)
  case Nil
  then show ?case by simp
next
  case (Cons u us)
  let ?c = "c + out_value (utxo_output u)" and ?s = "sel @ [u]"
  have c: "unat ?c = coins_value ?s"
    using Cons.prems(2,3) by (simp add: unat_word_ariths)
  show ?case
  proof (cases "needed \<le> ?c")
    case True
    then have "sel' = sel @ take 1 (u # us)" "unat c' = coins_value sel'"
      using Cons.prems(1) c by (auto simp: Let_def)
    then show ?thesis by blast
  next
    case False
    then obtain k where "sel' = ?s @ take k us" "unat c' = coins_value sel'"
      using Cons.IH [of ?c ?s] Cons.prems(1,3) c by (auto simp: Let_def add.assoc)
    then show ?thesis by (intro exI [of _ "Suc k"]) simp
  qed
qed

lemma sig_hash_spend:
  "sig_hash X magic (tx_new (map (spend_input pk sg) us) outs) =
   sig_hash X magic (tx_new (map (spend_input pk sg') us) outs)"
  by (simp add: sig_hash_def sig_preimage_def tx_new_def spend_input_def committed_input_def comp_def)

text \<open>An output the wallet can spend at height \<open>h\<close>: mature, and locked to its address only.\<close>

definition spendable :: "'x sig_lib_scheme \<Rightarrow> wallet \<Rightarrow> utxo_set \<Rightarrow> u64 \<Rightarrow> utxo \<Rightarrow> bool" where
  "spendable X w us h u \<longleftrightarrow> effective_script (utxo_output u) = P2PKH (wallet_address X w)
     \<and> \<not> is_immature_coinbase us (utxo_tx_hash u) h"

lemma spend_input_ok:
  assumes "sign_ok X" "key_pair_wf X (keypair w)"
    "hybrid_verify X sg sh (public_key (keypair w)) = Inr ()" "spendable X w us h u"
    "utxo_get us (utxo_tx_hash u) (utxo_index u) = Some (utxo_output u)"
  shows "input_ok X us sh h t (spend_input (public_key (keypair w)) sg u)"
proof -
  obtain b where "lib_secp_sk X b = Some (ecdsa_secret (keypair w))"
    using assms(2) by (auto simp: key_pair_wf_def)
  then have "lib_secp_pk X (ecdsa_public (keypair w)) = Some (ecdsa_public (keypair w))"
    using sign_okD_secp(1) [OF assms(1)] assms(2) by (simp add: key_pair_wf_def)
  then have "evaluate_script X (P2PKH (wallet_address X w))
      (spend_input (public_key (keypair w)) sg u) sh t = Inr ()"
    unfolding evaluate_P2PKH_ok
    using assms(3) by (simp add: spend_input_def public_key_def wallet_address_def)
  with assms(4,5) show ?thesis by (simp add: input_ok_def spendable_def) (simp add: spend_input_def)
qed

lemma send_shape:
  assumes "wallet_send X w recipient amount fee us magic = Some (Inr tx)"
  obtains coins sel collected sg where "utxos_for us (wallet_address X w) = Some coins"
    "select_coins (amount + fee) 0 [] coins = (collected, sel)" "amount + fee \<le> collected"
    "outputs tx = send_outputs recipient amount (collected - (amount + fee)) (wallet_address X w)"
    "inputs tx = map (spend_input (public_key (keypair w)) sg) sel"
    "hybrid_sign X (keypair w) (sig_hash X magic tx) = Some sg"
proof -
  let ?pk = "public_key (keypair w)" and ?a = "wallet_address X w"
  obtain coins sel collected sg where c: "utxos_for us ?a = Some coins"
    "select_coins (amount + fee) 0 [] coins = (collected, sel)" "amount + fee \<le> collected"
    "hybrid_sign X (keypair w) (sig_hash X magic (tx_new (map (spend_input ?pk empty_signature) sel)
       (send_outputs recipient amount (collected - (amount + fee)) ?a))) = Some sg"
    "tx = tx_new (map (spend_input ?pk sg) sel)
       (send_outputs recipient amount (collected - (amount + fee)) ?a)"
    using assms
    by (auto simp: wallet_send_def Let_def not_less split: option.splits prod.splits if_splits)
  have "hybrid_sign X (keypair w) (sig_hash X magic tx) = Some sg"
    using c(4) unfolding c(5) by (subst sig_hash_spend [where sg' = empty_signature])
  then show ?thesis by (intro that [OF c(1-3)]) (simp_all add: c(5) tx_new_def)
qed

lemma send_outputs_total:
  fixes amount :: u64
  assumes "unat amount + unat fee < 2 ^ 64" "amount + fee \<le> collected"
    "outputs tx = send_outputs recipient amount (collected - (amount + fee)) a"
  shows "outputs_total tx + unat fee = unat collected"
proof -
  have n: "unat (amount + fee) = unat amount + unat fee"
    using assms(1) by (simp add: unat_word_ariths)
  then have "unat (collected - (amount + fee)) = unat collected - (unat amount + unat fee)"
    using assms(2) by (simp add: unat_sub)
  moreover have "unat amount + unat fee \<le> unat collected"
    using assms(2) n by (simp add: word_le_nat_alt)
  ultimately show ?thesis
    by (auto simp: outputs_total_def assms(3) send_outputs_def word_less_nat_alt)
qed


text \<open>A wallet with one coin of 5000 arkes, and a payment whose change is dust.\<close>

definition demo_wallet :: wallet where "demo_wallet = \<lparr>keypair = demo_key_pair\<rparr>"

lemma demo_wallet_address: "wallet_address demo_block_lib demo_wallet = demo_addr"
  by (simp add: wallet_address_def demo_wallet_def demo_addr_def)

definition demo_coin :: utxo where
  "demo_coin = \<lparr>utxo_tx_hash = ''cc'', utxo_index = 0, utxo_output = p2pkh_output demo_addr 5000\<rparr>"

lemma demo_coins:
  "utxos_for demo_utxos (wallet_address demo_block_lib demo_wallet) = Some [demo_coin]"
  "keys_wf demo_utxos" "utxo_ok demo_utxos" "spendable demo_block_lib demo_wallet demo_utxos 1 demo_coin"
proof -
  have "utxo_of_entry (utxo_key ''cc'' 0, p2pkh_output demo_addr 5000) = Some demo_coin"
    by (simp add: utxo_of_entry_key demo_coin_def)
  then show "utxos_for demo_utxos (wallet_address demo_block_lib demo_wallet) = Some [demo_coin]"
    by (simp add: utxos_for_def demo_utxos_def demo_wallet_address) (simp add: p2pkh_output_def)
  show "keys_wf demo_utxos" by (simp add: keys_wf_def demo_utxos_def)
  show "utxo_ok demo_utxos" by (simp add: utxo_ok_def demo_utxos_def hm_ok_def)
  show "spendable demo_block_lib demo_wallet demo_utxos 1 demo_coin"
    by (simp add: spendable_def demo_coin_def demo_wallet_address effective_script_def p2pkh_output_def
        is_immature_coinbase_def) (simp add: demo_utxos_def)
qed

lemma demo_payment:
  fixes amount fee :: u64
  assumes "unat amount + unat fee \<le> 5000"
  shows "\<exists>tx. wallet_send demo_block_lib demo_wallet ''aa'' amount fee demo_utxos 7 = Some (Inr tx)
    \<and> outputs tx = send_outputs ''aa'' amount (5000 - (amount + fee)) demo_addr"
proof -
  have "unat (amount + fee) = unat amount + unat fee" using assms by (simp add: unat_word_ariths)
  then have le: "amount + fee \<le> 5000" using assms by (simp add: word_le_nat_alt)
  have v: "out_value (utxo_output demo_coin) = 5000" by (simp add: demo_coin_def p2pkh_output_def)
  have "\<exists>sg. hybrid_sign demo_block_lib demo_key_pair m = Some sg" for m
    using sign_verifies [OF demo_block_lib_ok(3) demo_key_pair_wf] by blast
  then show ?thesis
    using le by (simp add: wallet_send_def demo_coins(1) v Let_def not_less [symmetric])
      (auto simp: demo_wallet_address [unfolded demo_wallet_def] demo_wallet_def tx_new_def not_less split: option.splits)
qed


end
