(* ===== verification/Rpc.thy ===== *)
theory Rpc
  imports Chain_Properties Rate_Limit
begin

text \<open>
  The JSON-RPC interface (\<open>src/rpc/methods.rs\<close>, \<open>src/rpc/server.rs\<close>): the five methods on the
  chain behind the lock, and the HTTP handler with its rate limit, version check, token check
  and dispatch, in the order of the code; and the mining client \<open>src/bin/soak_miner.rs\<close> that
  calls them. Reading and writing typed values and text with \<open>serde_json\<close>, the header texts of
  the \<open>http\<close> crate and the constant-time comparison of \<open>subtle\<close> are a library record. A handler
  that panics is \<open>None\<close>.
\<close>

section \<open>Requests and results\<close>

datatype json =
    JNull
  | JBool bool
  | JNum int
  | JStr string
  | JArr "json list"
  | JObj "(string \<times> json) list"

definition json_get :: "json \<Rightarrow> string \<Rightarrow> json option" where
  "json_get v k = (case v of JObj m \<Rightarrow> map_of m k | _ \<Rightarrow> None)"

record submit_block_params =
  sub_version :: u32
  sub_prev_hash :: string
  sub_merkle_root :: string
  sub_timestamp :: u64
  sub_bits :: u32
  sub_nonce :: u64
  sub_wallet_address :: string
  sub_height :: u64

datatype rpc_request =
    GetBlockTemplate string
  | SubmitBlock submit_block_params
  | GetBalance string
  | GetBlockCount
  | GetMiningInfo

record block_template_response =
  tmpl_version :: u32
  tmpl_prev_hash :: string
  tmpl_merkle_root :: string
  tmpl_timestamp :: u64
  tmpl_bits :: u32
  target_hex :: string
  tmpl_height :: u64
  reward_arkes :: u64
  tx_count :: nat

datatype submit_error =
    TargetMissed
  | StaleHeight u64 u64
  | StaleTemplate
  | Refused chain_err

record submit_block_response =
  accepted :: bool
  sub_block_hash :: string
  sub_error :: "submit_error option"

text \<open>A finite \<open>f64\<close> is a pair \<open>(m, e)\<close> for \<open>m * 2^e\<close>; rounding is to nearest, ties to even.\<close>

type_synonym f64 = "nat \<times> int"

fun bit_len :: "nat \<Rightarrow> nat" where
  "bit_len n = (if n = 0 then 0 else Suc (bit_len (n div 2)))"

declare bit_len.simps [simp del]

definition round_even :: "nat \<Rightarrow> nat \<Rightarrow> nat" where
  "round_even p q =
     (let k = p div q; r = p mod q in
      if 2 * r < q \<or> (2 * r = q \<and> even k) then k else k + 1)"

definition f64_of_ratio :: "nat \<Rightarrow> nat \<Rightarrow> f64" where
  "f64_of_ratio p q =
     (if p = 0 then (0, 0)
      else
        let a = int (bit_len p) - int (bit_len q);
            a' = (if q * 2 ^ nat a \<le> p * 2 ^ nat (- a) then a else a - 1);
            e = a' - 52
        in (round_even (p * 2 ^ nat (- e)) (q * 2 ^ nat e), e))"

definition f64_div_nat :: "f64 \<Rightarrow> nat \<Rightarrow> f64" where
  "f64_div_nat x q = f64_of_ratio (fst x * 2 ^ nat (snd x)) (q * 2 ^ nat (- snd x))"

record balance_response =
  bal_address :: string
  balance_arkes :: u64
  balance_arkos :: f64

record mining_info_response =
  info_height :: u64
  info_bits :: u32
  info_target_hex :: string
  difficulty_bits :: u32
  mempool_size :: nat
  next_reward_arkes :: u64

datatype rpc_result =
    BlockTemplate block_template_response
  | SubmitResult submit_block_response
  | Balance balance_response
  | BlockCount u64
  | MiningInfo mining_info_response

section \<open>Methods\<close>

text \<open>The transactions of a template: the coinbase and the best 500 of the mempool.\<close>

definition template_txs :: "'x tx_lib_scheme \<Rightarrow> string \<Rightarrow> u64 \<Rightarrow> 'd blockchain \<Rightarrow> transaction list" where
  "template_txs X wallet_address h c =
     coinbase wallet_address (capped_block_reward c h) h # pool_peek X (chain_mempool c) 500"

definition get_block_template ::
  "'x tx_lib_scheme \<Rightarrow> u64 \<Rightarrow> string \<Rightarrow> 'd blockchain \<Rightarrow> rpc_result option" where
  "get_block_template X now wallet_address c =
     (let h = height (tip c) + 1 in
      case next_bits c of
        None \<Rightarrow> None
      | Some nb \<Rightarrow>
          let txs = template_txs X wallet_address h c in
          Some (BlockTemplate
            \<lparr>tmpl_version = 1, tmpl_prev_hash = hash_hex X (tip c),
             tmpl_merkle_root = merkle_root X txs, tmpl_timestamp = next_block_timestamp now c,
             tmpl_bits = nb, target_hex = lib_hex_encode X (bits_to_target nb),
             tmpl_height = height (tip c), reward_arkes = capped_block_reward c h,
             tx_count = length (pool_peek X (chain_mempool c) 500) + 1\<rparr>))"

definition submitted_header :: "submit_block_params \<Rightarrow> block_header" where
  "submitted_header p =
     \<lparr>hdr_version = sub_version p, prev_hash = sub_prev_hash p, hdr_merkle_root = sub_merkle_root p,
      timestamp = sub_timestamp p, bits = sub_bits p, nonce = sub_nonce p\<rparr>"

definition submit_block ::
  "('d, 'x) store_lib_scheme \<Rightarrow> u64 \<Rightarrow> submit_block_params \<Rightarrow> 'd blockchain \<Rightarrow> rpc_result \<times> 'd blockchain" where
  "submit_block X now p c =
     (let hdr = submitted_header p;
          answer = (\<lambda>a e. SubmitResult
            \<lparr>accepted = a, sub_block_hash = header_hash_hex X hdr, sub_error = e\<rparr>)
      in
      if \<not> meets_target X hdr then (answer False (Some TargetMissed), c)
      else if sub_height p \<noteq> chain_height c
      then (answer False (Some (StaleHeight (sub_height p) (chain_height c))), c)
      else
        let txs = template_txs X (sub_wallet_address p) (sub_height p + 1) c in
        if merkle_root X txs \<noteq> sub_merkle_root p then (answer False (Some StaleTemplate), c)
        else
          (case add_block X now \<lparr>header = hdr, transactions = txs, height = sub_height p + 1\<rparr> c of
             (Inr _, c') \<Rightarrow> (answer True None, c')
           | (Inl e, c') \<Rightarrow> (answer False (Some (Refused e)), c')))"

definition get_balance :: "string \<Rightarrow> 'd blockchain \<Rightarrow> rpc_result" where
  "get_balance a c =
     (let bal = balance_of c a in
      Balance \<lparr>bal_address = a, balance_arkes = bal,
        balance_arkos = f64_div_nat (f64_of_ratio (unat bal) 1) 1000000000\<rparr>)"

definition get_block_count :: "'d blockchain \<Rightarrow> rpc_result" where
  "get_block_count c = BlockCount (chain_height c)"

definition get_mining_info :: "'x hash_lib_scheme \<Rightarrow> 'd blockchain \<Rightarrow> rpc_result" where
  "get_mining_info X c =
     (let nb = bits (header (tip c)); target = bits_to_target nb in
      MiningInfo \<lparr>info_height = chain_height c, info_bits = nb,
        info_target_hex = lib_hex_encode X target,
        difficulty_bits = of_nat (length (takeWhile (\<lambda>b. b = 0) target)) * 8,
        mempool_size = pool_len (chain_mempool c),
        next_reward_arkes = capped_block_reward c (chain_height c + 1)\<rparr>)"

text \<open>\<open>handle\<close> dispatches a request. Its \<open>Result\<close> is always \<open>Ok\<close>.\<close>

definition handle ::
  "('d, 'x) store_lib_scheme \<Rightarrow> u64 \<Rightarrow> rpc_request \<Rightarrow> 'd blockchain
    \<Rightarrow> ((string + rpc_result) \<times> 'd blockchain) option" where
  "handle X now req c =
     (case req of
        GetBlockTemplate a \<Rightarrow> map_option (\<lambda>r. (Inr r, c)) (get_block_template X now a c)
      | SubmitBlock p \<Rightarrow> (case submit_block X now p c of (r, c') \<Rightarrow> Some (Inr r, c'))
      | GetBalance a \<Rightarrow> Some (Inr (get_balance a c), c)
      | GetBlockCount \<Rightarrow> Some (Inr (get_block_count c), c)
      | GetMiningInfo \<Rightarrow> Some (Inr (get_mining_info X c), c))"

section \<open>Server\<close>

record rpc_server_config =
  auth_token :: "string option"
  cors_origin :: "string option"

record 'd server_state =
  rpc_chain :: "'d blockchain"
  config :: rpc_server_config
  http_rate_limiter :: rate_limiter

record json_rpc_request =
  req_jsonrpc :: string
  req_id :: "json option"
  req_method :: string
  req_params :: "json option"

record json_rpc_error =
  err_code :: int
  err_message :: string

record json_rpc_response =
  resp_jsonrpc :: string
  resp_id :: "json option"
  resp_result :: "json option"
  resp_error :: "json_rpc_error option"

datatype status_code = OK | UNAUTHORIZED | TOO_MANY_REQUESTS

text \<open>
  What the server uses of \<open>serde_json\<close>, \<open>http\<close> and \<open>subtle\<close>: reading the
  parameters of each method (an error is its message), writing a result, the text of a header
  value, checking the text of a header value, and comparing slices.
\<close>

record rpc_lib =
  from_value_template :: "json \<Rightarrow> string + string"
  from_value_submit :: "json \<Rightarrow> string + submit_block_params"
  from_value_balance :: "json \<Rightarrow> string + string"
  to_value :: "rpc_result \<Rightarrow> json option"
  header_to_str :: "bytes \<Rightarrow> string option"
  header_from_str :: "string \<Rightarrow> bytes option"
  ct_eq :: "bytes \<Rightarrow> bytes \<Rightarrow> bool"

definition response_ok :: "'y rpc_lib_scheme \<Rightarrow> json option \<Rightarrow> rpc_result \<Rightarrow> json_rpc_response" where
  "response_ok J i result =
     \<lparr>resp_jsonrpc = ''2.0'', resp_id = i,
      resp_result = Some (case to_value J result of Some v \<Rightarrow> v | None \<Rightarrow> JNull),
      resp_error = None\<rparr>"

definition response_err :: "json option \<Rightarrow> int \<Rightarrow> string \<Rightarrow> json_rpc_response" where
  "response_err i code msg =
     \<lparr>resp_jsonrpc = ''2.0'', resp_id = i, resp_result = None,
      resp_error = Some \<lparr>err_code = code, err_message = msg\<rparr>\<rparr>"

text \<open>\<open>router\<close>: the allowed origin of the CORS layer and the server state.\<close>

definition router ::
  "'y rpc_lib_scheme \<Rightarrow> 'd blockchain \<Rightarrow> rpc_server_config \<Rightarrow> (bytes \<times> 'd server_state) option" where
  "router J c cfg =
     (case (case cors_origin cfg of
              Some origin \<Rightarrow> header_from_str J origin
            | None \<Rightarrow> Some (as_bytes ''http://127.0.0.1'')) of
        None \<Rightarrow> None
      | Some origin \<Rightarrow>
          Some (origin, \<lparr>rpc_chain = c, config = cfg, http_rate_limiter = rate_limiter_new 60 60\<rparr>))"

definition health_handler :: json where
  "health_handler = JObj [(''status'', JStr ''ok''), (''chain'', JStr ''arkos'')]"

definition ct_eq_tokens :: "'y rpc_lib_scheme \<Rightarrow> string \<Rightarrow> string \<Rightarrow> bool" where
  "ct_eq_tokens J a b =
     (if length (as_bytes a) \<noteq> length (as_bytes b) then False
      else ct_eq J (as_bytes a) (as_bytes b))"

definition strip_prefix :: "string \<Rightarrow> string \<Rightarrow> string option" where
  "strip_prefix p s = (if take (length p) s = p then Some (drop (length p) s) else None)"

definition header_text :: "'y rpc_lib_scheme \<Rightarrow> (string \<Rightarrow> bytes option) \<Rightarrow> string \<Rightarrow> string option" where
  "header_text J headers name = Option.bind (headers name) (header_to_str J)"

definition authorized :: "'y rpc_lib_scheme \<Rightarrow> (string \<Rightarrow> bytes option) \<Rightarrow> string option \<Rightarrow> bool" where
  "authorized J headers expected =
     (case expected of
        None \<Rightarrow> True
      | Some token \<Rightarrow>
          let bearer_ok =
                (case Option.bind (header_text J headers ''authorization'') (strip_prefix ''Bearer '') of
                   None \<Rightarrow> False | Some t \<Rightarrow> ct_eq_tokens J t token);
              header_ok =
                (case header_text J headers ''x-arkos-rpc-token'' of
                   None \<Rightarrow> False | Some t \<Rightarrow> ct_eq_tokens J t token)
          in bearer_ok \<or> header_ok)"

definition bad_params :: "string \<Rightarrow> string \<Rightarrow> string" where
  "bad_params m e = ''bad params for '' @ m @ '': '' @ e"

definition parse_request :: "'y rpc_lib_scheme \<Rightarrow> string \<Rightarrow> json option \<Rightarrow> string + rpc_request" where
  "parse_request J m params =
     (let v = (case params of Some v \<Rightarrow> v | None \<Rightarrow> JNull) in
      if m = ''getBlockTemplate''
      then try_res (map_err (bad_params m) (from_value_template J v)) (\<lambda>p. Inr (GetBlockTemplate p))
      else if m = ''submitBlock''
      then try_res (map_err (bad_params m) (from_value_submit J v)) (\<lambda>p. Inr (SubmitBlock p))
      else if m = ''getBalance''
      then try_res (map_err (bad_params m) (from_value_balance J v)) (\<lambda>p. Inr (GetBalance p))
      else if m = ''getBlockCount'' then Inr GetBlockCount
      else if m = ''getMiningInfo'' then Inr GetMiningInfo
      else Inl (''unknown method '' @ [CHR 0x27] @ m @ [CHR 0x27]))"

definition rpc_handler ::
  "('d, 'x) store_lib_scheme \<Rightarrow> 'y rpc_lib_scheme \<Rightarrow> nat \<Rightarrow> u64 \<Rightarrow> string \<Rightarrow> (string \<Rightarrow> bytes option)
    \<Rightarrow> json_rpc_request \<Rightarrow> 'd server_state
    \<Rightarrow> ((status_code \<times> json_rpc_response) \<times> 'd server_state) option" where
  "rpc_handler X J instant now ip headers envelope s =
     (let (within, rl) = rl_check instant ip (http_rate_limiter s);
          s1 = s\<lparr>http_rate_limiter := rl\<rparr>;
          i = req_id envelope
      in
      if \<not> within then Some ((TOO_MANY_REQUESTS, response_err None (-32005) ''rate limit exceeded''), s1)
      else if req_jsonrpc envelope \<noteq> ''2.0''
      then Some ((OK, response_err i (-32600) (''jsonrpc must be '' @ [CHR 0x27] @ ''2.0'' @ [CHR 0x27])), s1)
      else if \<not> authorized J headers (auth_token (config s))
      then Some ((UNAUTHORIZED, response_err i (-32001) ''unauthorized''), s1)
      else
        (case parse_request J (req_method envelope) (req_params envelope) of
           Inl msg \<Rightarrow> Some ((OK, response_err i (-32601) msg), s1)
         | Inr req \<Rightarrow>
             map_option (\<lambda>(r, c').
               ((OK, case r of Inr result \<Rightarrow> response_ok J i result
                             | Inl msg \<Rightarrow> response_err i (-32000) msg),
                s1\<lparr>rpc_chain := c'\<rparr>))
               (handle X now req (rpc_chain s1))))"

text \<open>The check of \<open>start_rpc_server\<close> that logs a warning: the text before the first colon.\<close>

definition warns_public_bind :: "string \<Rightarrow> bool" where
  "warns_public_bind addr =
     (let host = takeWhile (\<lambda>ch. ch \<noteq> CHR 0x3A) addr in
      host \<noteq> ''127.0.0.1'' \<and> host \<noteq> ''::1'' \<and> host \<noteq> ''localhost'')"

section \<open>The mining client\<close>

record soak_template =
  st_version :: u32
  st_prev_hash :: string
  st_merkle_root :: string
  st_timestamp :: u64
  st_bits :: u32
  st_height :: u64

text \<open>
  The client writes its parameters with \<open>to_value\<close> of a derived structure, reads the template
  with \<open>from_value\<close>, and prints and parses JSON text.
\<close>

record soak_lib = rpc_lib +
  soak_template_from_value :: "json \<Rightarrow> string + soak_template"
  soak_submit_to_value :: "submit_block_params \<Rightarrow> string + json"
  json_to_string :: "json \<Rightarrow> string"
  json_from_str :: "string \<Rightarrow> string + json"

datatype soak_err =
    Usage
  | Transport
  | InvalidHttpResponse
  | BadJson string
  | RpcError string json
  | MissingResult string

definition crlf :: string where "crlf = [CHR 0x0D, CHR 0x0A]"

fun split_once :: "string \<Rightarrow> string \<Rightarrow> (string \<times> string) option" where
  "split_once d [] = (if d = [] then Some ([], []) else None)"
| "split_once d (x # xs) =
     (if take (length d) (x # xs) = d then Some ([], drop (length d) (x # xs))
      else map_option (\<lambda>(a, b). (x # a, b)) (split_once d xs))"

definition soak_body :: "string \<Rightarrow> json \<Rightarrow> json" where
  "soak_body m params =
     JObj [(''jsonrpc'', JStr ''2.0''), (''id'', JNum 1), (''method'', JStr m), (''params'', params)]"

definition soak_params :: "string \<Rightarrow> json" where
  "soak_params wallet_address = JObj [(''walletAddress'', JStr wallet_address)]"

definition soak_request :: "soak_lib \<Rightarrow> string \<Rightarrow> string \<Rightarrow> string \<Rightarrow> json \<Rightarrow> string" where
  "soak_request J addr token m params =
     (let body = json_to_string J (soak_body m params) in
      ''POST /rpc HTTP/1.1'' @ crlf @ ''Host: '' @ addr @ crlf @ ''Content-Type: application/json'' @ crlf
      @ ''Authorization: Bearer '' @ token @ crlf @ ''Content-Length: '' @ show_nat (length body) @ crlf
      @ ''Connection: close'' @ crlf @ crlf @ body)"

definition soak_answer :: "soak_lib \<Rightarrow> string \<Rightarrow> string \<Rightarrow> soak_err + json" where
  "soak_answer J m response_text =
     try_res (ok_or InvalidHttpResponse (split_once (crlf @ crlf) response_text)) (\<lambda>(_, json_body).
     try_res (map_err BadJson (json_from_str J json_body)) (\<lambda>envelope.
     case json_get envelope ''error'' of
       Some e \<Rightarrow> Inl (RpcError m e)
     | None \<Rightarrow> ok_or (MissingResult m) (json_get envelope ''result'')))"

text \<open>
  \<open>rpc\<close>: one exchange over TCP. The exchange is a parameter on a state of the network: the
  text that comes back, or \<open>None\<close> for an I/O error.
\<close>

definition soak_rpc ::
  "soak_lib \<Rightarrow> (string \<Rightarrow> string \<Rightarrow> 's \<Rightarrow> string option \<times> 's) \<Rightarrow> string \<Rightarrow> string \<Rightarrow> string \<Rightarrow> json
    \<Rightarrow> 's \<Rightarrow> (soak_err + json) \<times> 's" where
  "soak_rpc J tcp addr token m params s =
     (case tcp addr (soak_request J addr token m params) s of
        (None, s') \<Rightarrow> (Inl Transport, s')
      | (Some resp, s') \<Rightarrow> (soak_answer J m resp, s'))"

definition soak_header :: "soak_template \<Rightarrow> block_header" where
  "soak_header t =
     \<lparr>hdr_version = st_version t, prev_hash = st_prev_hash t, hdr_merkle_root = st_merkle_root t,
      timestamp = st_timestamp t, bits = st_bits t, nonce = 0\<rparr>"

partial_function (option) soak_search :: "'x hash_lib_scheme \<Rightarrow> block_header \<Rightarrow> block_header option" where
  "soak_search X h =
     (if \<not> meets_target X h
      then soak_search X
        (let h1 = h\<lparr>nonce := nonce h + 1\<rparr> in
         if nonce h1 = 0 then h1\<lparr>timestamp := timestamp h1 + 1\<rparr> else h1)
      else Some h)"

definition soak_submission :: "string \<Rightarrow> soak_template \<Rightarrow> block_header \<Rightarrow> submit_block_params" where
  "soak_submission wallet_address t h =
     \<lparr>sub_version = st_version t, sub_prev_hash = st_prev_hash t, sub_merkle_root = st_merkle_root t,
      sub_timestamp = timestamp h, sub_bits = st_bits t, sub_nonce = nonce h,
      sub_wallet_address = wallet_address, sub_height = st_height t\<rparr>"

fun soak_submit_all ::
  "soak_lib \<Rightarrow> (string \<Rightarrow> string \<Rightarrow> 's \<Rightarrow> string option \<times> 's) \<Rightarrow> string \<Rightarrow> submit_block_params
    \<Rightarrow> string list \<Rightarrow> 's \<Rightarrow> (soak_err + (string \<times> (soak_err + json)) list) \<times> 's" where
  "soak_submit_all J tcp token p [] s = (Inr [], s)"
| "soak_submit_all J tcp token p (a # as) s =
     (case soak_submit_to_value J p of
        Inl e \<Rightarrow> (Inl (BadJson e), s)
      | Inr v \<Rightarrow>
          (case soak_rpc J tcp a token ''submitBlock'' v s of
             (r, s1) \<Rightarrow>
               (case soak_submit_all J tcp token p as s1 of
                  (rs, s2) \<Rightarrow> (map_sum id (\<lambda>l. (a, r) # l) rs, s2))))"

text \<open>\<open>main\<close>, with the command line after the program name: the hash and the result per address.\<close>

definition soak_main ::
  "'x hash_lib_scheme \<Rightarrow> soak_lib \<Rightarrow> (string \<Rightarrow> string \<Rightarrow> 's \<Rightarrow> string option \<times> 's) \<Rightarrow> string list \<Rightarrow> 's
    \<Rightarrow> ((soak_err + string \<times> (string \<times> (soak_err + json)) list) \<times> 's) option" where
  "soak_main X J tcp args s =
     (case args of
        addr # token # wallet_address # rest \<Rightarrow>
          (case soak_rpc J tcp addr token ''getBlockTemplate''
                  (soak_params wallet_address) s of
             (Inl e, s1) \<Rightarrow> Some (Inl e, s1)
           | (Inr v, s1) \<Rightarrow>
               (case soak_template_from_value J v of
                  Inl e \<Rightarrow> Some (Inl (BadJson e), s1)
                | Inr t \<Rightarrow>
                    map_option (\<lambda>h.
                      case soak_submit_all J tcp token (soak_submission wallet_address t h)
                             (if rest = [] then [addr] else rest) s1 of
                        (r, s2) \<Rightarrow> (map_sum id (\<lambda>l. (header_hash_hex X h, l)) r, s2))
                      (soak_search X (soak_header t))))
      | _ \<Rightarrow> Some (Inl Usage, s))"

section \<open>Templates\<close>

lemma soak_search_next: "soak_search X h = (if meets_target X h then Some h else soak_search X (next_candidate h))"
  by (subst soak_search.simps) (simp add: next_candidate_def Let_def)

lemma soak_search_miner: "soak_search X h = mine_block_header X h"
proof -
  have fwd: "mine_block_header X h = Some r" if s: "soak_search X h = Some r" for r
  proof (rule soak_search.raw_induct [of "\<lambda>X h r. mine_block_header X h = Some r", OF _ s], goal_cases)
    case (1 search X h r)
    then show ?case
      by (subst mine_block_header.simps) (auto simp: next_candidate_def Let_def split: if_splits)
  qed
  have bwd: "soak_search X h = Some r" if s: "mine_block_header X h = Some r" for r
  proof (rule mine_block_header.raw_induct [of "\<lambda>X h r. soak_search X h = Some r", OF _ s], goal_cases)
    case (1 search X h r)
    then show ?case by (subst soak_search_next) (auto split: if_splits)
  qed
  show ?thesis using fwd bwd by (metis option.exhaust)
qed

text \<open>The template as the client reads it.\<close>

definition read_template :: "block_template_response \<Rightarrow> soak_template" where
  "read_template t =
     \<lparr>st_version = tmpl_version t, st_prev_hash = tmpl_prev_hash t, st_merkle_root = tmpl_merkle_root t,
      st_timestamp = tmpl_timestamp t, st_bits = tmpl_bits t, st_height = tmpl_height t\<rparr>"

definition template_block :: "'x tx_lib_scheme \<Rightarrow> string \<Rightarrow> block_header \<Rightarrow> 'd blockchain \<Rightarrow> block" where
  "template_block X a h c =
     \<lparr>header = h, transactions = template_txs X a (height (tip c) + 1) c, height = height (tip c) + 1\<rparr>"

lemma template_fields:
  assumes "get_block_template X now a c = Some (BlockTemplate t)"
  shows "tmpl_prev_hash t = hash_hex X (tip c)" "tmpl_height t = chain_height c"
    "next_bits c = Some (tmpl_bits t)"
    "tmpl_merkle_root t = merkle_root X (template_txs X a (height (tip c) + 1) c)"
  using assms by (auto simp: get_block_template_def Let_def chain_height_def split: option.splits)

lemma submitted_header_soak:
  assumes "soak_search X (soak_header t) = Some h"
  shows "submitted_header (soak_submission a t h) = h"
  using mined_fields [OF assms [unfolded soak_search_miner]]
  by (cases h) (simp add: submitted_header_def soak_submission_def soak_header_def)

lemma submit_on_tip:
  assumes "get_block_template X now a c = Some (BlockTemplate t)"
    and "soak_search X (soak_header (read_template t)) = Some h"
  shows "submit_block X now' (soak_submission a (read_template t) h) c =
    (case add_block X now' (template_block X a h c) c of
       (Inr _, c') \<Rightarrow> (SubmitResult \<lparr>accepted = True, sub_block_hash = header_hash_hex X h, sub_error = None\<rparr>, c')
     | (Inl e, c') \<Rightarrow> (SubmitResult \<lparr>accepted = False, sub_block_hash = header_hash_hex X h,
                         sub_error = Some (Refused e)\<rparr>, c'))"
proof -
  let ?p = "soak_submission a (read_template t) h"
  have "meets_target X h" using mined_fields [OF assms(2) [unfolded soak_search_miner]] by blast
  moreover have "sub_height ?p = height (tip c)" "sub_merkle_root ?p = merkle_root X (template_txs X a (height (tip c) + 1) c)"
    "sub_wallet_address ?p = a"
    using template_fields [OF assms(1)] by (simp_all add: soak_submission_def read_template_def chain_height_def)
  ultimately show ?thesis
    unfolding submit_block_def Let_def submitted_header_soak [OF assms(2)]
    by (simp add: template_block_def chain_height_def)
qed


lemma demo_template:
  "\<exists>t. get_block_template demo_lib 1700000100 ''ab'' demo_chain = Some (BlockTemplate t)
     \<and> soak_header (read_template t) = header demo_next
     \<and> soak_search demo_lib (header demo_next) = Some (header demo_next)
     \<and> template_block demo_lib ''ab'' (header demo_next) demo_chain = demo_next"
proof -
  have "meets_target demo_lib (header demo_next)"
    by (rule sha_demo_meets) (simp_all add: demo_lib_sha demo_next_def Let_def)
  then have "soak_search demo_lib (header demo_next) = Some (header demo_next)"
    by (simp add: soak_search_next)
  moreover have "pool_peek demo_lib mempool_new 500 = []" "height demo_gen = 0"
    by (simp_all add: pool_peek_def pool_take_def mempool_new_def sort_by_def demo_gen_def)
  ultimately show ?thesis
    by (simp add: get_block_template_def demo_chain_fields template_txs_def soak_header_def read_template_def
        next_block_timestamp_def template_block_def demo_next_def Let_def)
qed

lemma demo_next_placed:
  "hm_get (all_blocks demo_chain) (header_hash_hex demo_lib (header demo_next)) = None"
  "height (tip demo_chain) + 1 \<noteq> 0"
  "hm_get (chain_work demo_chain) (hash_hex demo_lib (tip demo_chain)) = Some (block_work 0x207fffff)"
  using demo_next_hash(1) [unfolded hash_hex_def [of _ demo_next]] by (simp_all add: demo_chain_fields) (simp add: demo_gen_def)


section \<open>Access to the chain\<close>

text \<open>A concrete server with a token, on the chain of the witnesses, and a submission to it.\<close>

definition demo_params :: submit_block_params where
  "demo_params = (let h = header demo_next in
     \<lparr>sub_version = hdr_version h, sub_prev_hash = prev_hash h, sub_merkle_root = hdr_merkle_root h,
      sub_timestamp = timestamp h, sub_bits = bits h, sub_nonce = nonce h,
      sub_wallet_address = ''ab'', sub_height = 0\<rparr>)"

definition demo_rpc_lib :: rpc_lib where
  "demo_rpc_lib =
     \<lparr>from_value_template = (\<lambda>v. case json_get v ''wallet_address'' of
        Some (JStr a) \<Rightarrow> Inr a | _ \<Rightarrow> Inl ''missing field''),
      from_value_submit = (\<lambda>_. Inr demo_params), from_value_balance = (\<lambda>_. Inl ''missing field''),
      to_value = (\<lambda>_. None), header_to_str = (\<lambda>v. Some (from_utf8 v)),
      header_from_str = (\<lambda>t. Some (as_bytes t)), ct_eq = (=)\<rparr>"

definition demo_server :: "(bytes \<Rightarrow> bytes option) server_state" where
  "demo_server = \<lparr>rpc_chain = demo_chain, config = \<lparr>auth_token = Some ''tok'', cors_origin = None\<rparr>,
     http_rate_limiter = rate_limiter_new 60 60\<rparr>"

definition demo_headers :: "string \<Rightarrow> bytes option" where
  "demo_headers = [''x-arkos-rpc-token'' \<mapsto> as_bytes ''tok'']"

lemma demo_within: "fst (rl_check t ip (http_rate_limiter demo_server))"
  by (simp add: demo_server_def rate_limiter_new_def rl_check_def Let_def rl_log_def rl_evict_def rl_entry_def hm_contains_def
      hm_get_def)

lemma demo_header_texts:
  "header_text demo_rpc_lib demo_headers ''authorization'' = None"
  "header_text demo_rpc_lib demo_headers ''x-arkos-rpc-token'' = Some ''tok''"
  by (simp_all add: header_text_def demo_headers_def demo_rpc_lib_def)

lemma demo_submitted:
  "\<exists>c' r. submit_block demo_lib 1700000100 demo_params demo_chain = (r, c') \<and> c' \<noteq> demo_chain"
proof -
  have h: "submitted_header demo_params = header demo_next"
    by (cases "header demo_next") (simp add: submitted_header_def demo_params_def Let_def)
  have m: "meets_target demo_lib (header demo_next)"
    by (rule sha_demo_meets) (simp_all add: demo_lib_sha demo_next_def Let_def)
  have g: "chain_height demo_chain = 0" by (simp add: chain_height_def demo_chain_fields) (simp add: demo_gen_def)
  have txs: "template_txs demo_lib ''ab'' 1 demo_chain = transactions demo_next"
    by (simp add: template_txs_def demo_chain_fields pool_peek_def pool_take_def mempool_new_def sort_by_def
        demo_next_def Let_def)
  have b: "\<lparr>header = header demo_next, transactions = transactions demo_next, height = 1\<rparr> = demo_next"
    "merkle_root demo_lib (transactions demo_next) = hdr_merkle_root (header demo_next)"
    "prev_hash (header demo_next) = hash_hex demo_lib (tip demo_chain)" "height demo_next \<noteq> 0"
    by (simp_all add: demo_next_def Let_def demo_chain_fields)
  obtain w mt where wm: "checked_add (block_work 0x207fffff) (block_work (bits (header demo_next))) = Some w"
    "checked_add (total_minted demo_chain) (coinbase_value demo_next) = Some mt"
    using demo_next_fits by blast
  have new: "hm_get (all_blocks demo_chain) (hash_hex demo_lib demo_next) = None"
    using demo_next_placed(1) by (simp add: hash_hex_def)
  obtain c' where c': "add_block demo_lib 1700000100 demo_next demo_chain = (Inr (), c')"
    "blocks c' = blocks demo_chain @ [demo_next]"
    using extend_tip [OF demo_chain_ok(1) demo_chain_fields(3) new b(3,4)
        mined_block_valid [OF demo_chain_ok(1) demo_mined demo_chain_fields(4) demo_next_fits(1,2)]
        demo_next_placed(3) wm] by blast
  have "sub_height demo_params = 0" "sub_wallet_address demo_params = ''ab''"
    "sub_merkle_root demo_params = hdr_merkle_root (header demo_next)"
    by (simp_all add: demo_params_def Let_def)
  then have "submit_block demo_lib 1700000100 demo_params demo_chain =
      (SubmitResult \<lparr>accepted = True, sub_block_hash = header_hash_hex demo_lib (header demo_next),
         sub_error = None\<rparr>, c')"
    using c'(1) by (simp add: submit_block_def Let_def h m g txs b)
  moreover have "c' \<noteq> demo_chain" using c'(2) by auto
  ultimately show ?thesis by blast
qed

definition ct_eq_ok :: "'y rpc_lib_scheme \<Rightarrow> bool" where
  "ct_eq_ok J \<longleftrightarrow> (\<forall>a b. length a = length b \<longrightarrow> ct_eq J a b = (a = b))"

lemma ct_eq_tokens_iff: "ct_eq_ok J \<Longrightarrow> ct_eq_tokens J a b \<longleftrightarrow> a = b"
  by (auto simp: ct_eq_tokens_def ct_eq_ok_def)

lemma strip_prefix_Some: "strip_prefix p s = Some r \<longleftrightarrow> s = p @ r"
  by (auto simp: strip_prefix_def) (metis append_take_drop_id)

lemma authorized_iff:
  assumes "ct_eq_ok J"
  shows "authorized J headers (Some tok) \<longleftrightarrow>
    header_text J headers ''authorization'' = Some (''Bearer '' @ tok)
    \<or> header_text J headers ''x-arkos-rpc-token'' = Some tok"
  unfolding authorized_def Let_def ct_eq_tokens_iff [OF assms] option.case
  by (auto simp: strip_prefix_Some bind_eq_Some_conv split: option.splits)
    (simp_all add: strip_prefix_def)

lemma handle_chain:
  assumes "handle X now req c = Some (r, c')" "c' \<noteq> c"
  shows "\<exists>p. req = SubmitBlock p \<and> meets_target X (submitted_header p) \<and> sub_height p = chain_height c
    \<and> merkle_root X (template_txs X (sub_wallet_address p) (sub_height p + 1) c) = sub_merkle_root p
    \<and> c' = snd (add_block X now \<lparr>header = submitted_header p,
         transactions = template_txs X (sub_wallet_address p) (sub_height p + 1) c,
         height = sub_height p + 1\<rparr> c)"
  using assms
  by (cases req) (auto simp: handle_def submit_block_def Let_def split: if_splits prod.splits sum.splits)

lemma rpc_handler_dispatch:
  assumes "fst (rl_check instant ip (http_rate_limiter s))" "req_jsonrpc envelope = ''2.0''"
    and "authorized J headers (auth_token (config s))"
    and "parse_request J (req_method envelope) (req_params envelope) = Inr req"
    and "handle X now req (rpc_chain s) = Some (r, c')"
  shows "\<exists>out s'. rpc_handler X J instant now ip headers envelope s = Some (out, s') \<and> rpc_chain s' = c'"
  using assms by (cases "rl_check instant ip (http_rate_limiter s)") (simp add: rpc_handler_def Let_def)

text \<open>C20: a request changes the chain only when the client is within its rate limit, presents the
  configured token in one of the two headers, and submits a block that meets its target, for
  the current height and with the Merkle root of the node's own template; the change is then
  that of \<open>add_block\<close>. Every other request, refused or answered, leaves the chain as it is.\<close>

theorem rpc_changes_need_authorized_work:
  assumes "ct_eq_ok J" "auth_token (config s) = Some tok"
    and "rpc_handler X J instant now ip headers envelope s = Some (out, s')"
    and "rpc_chain s' \<noteq> rpc_chain s"
  shows "fst (rl_check instant ip (http_rate_limiter s)) \<and> req_jsonrpc envelope = ''2.0''
    \<and> (header_text J headers ''authorization'' = Some (''Bearer '' @ tok)
       \<or> header_text J headers ''x-arkos-rpc-token'' = Some tok)
    \<and> (\<exists>p. parse_request J (req_method envelope) (req_params envelope) = Inr (SubmitBlock p)
        \<and> meets_target X (submitted_header p) \<and> sub_height p = chain_height (rpc_chain s)
        \<and> merkle_root X (template_txs X (sub_wallet_address p) (sub_height p + 1) (rpc_chain s)) = sub_merkle_root p
        \<and> rpc_chain s' = snd (add_block X now \<lparr>header = submitted_header p,
             transactions = template_txs X (sub_wallet_address p) (sub_height p + 1) (rpc_chain s),
             height = sub_height p + 1\<rparr> (rpc_chain s)))"
proof -
  obtain ok rl where rl: "rl_check instant ip (http_rate_limiter s) = (ok, rl)" by fastforce
  have g: "ok" "req_jsonrpc envelope = ''2.0''" "authorized J headers (Some tok)"
    using assms(2-4) by (auto simp: rpc_handler_def Let_def rl split: if_splits)
  obtain req where req: "parse_request J (req_method envelope) (req_params envelope) = Inr req"
    using assms(2-4) g by (auto simp: rpc_handler_def Let_def rl split: if_splits sum.splits)
  obtain r where "handle X now req (rpc_chain s) = Some (r, rpc_chain s')"
    using assms(2,3) g req by (auto simp: rpc_handler_def Let_def rl)
  from handle_chain [OF this assms(4)] g req rl show ?thesis
    unfolding authorized_iff [OF assms(1)] by auto
qed

theorem rpc_changes_need_authorized_work_witness:
  "\<exists>out s'. rpc_handler demo_lib demo_rpc_lib 0 1700000100 ''127.0.0.1'' demo_headers
      \<lparr>req_jsonrpc = ''2.0'', req_id = None, req_method = ''submitBlock'', req_params = None\<rparr> demo_server =
        Some (out, s')
    \<and> (\<exists>p. meets_target demo_lib (submitted_header p) \<and> sub_height p = chain_height demo_chain
        \<and> rpc_chain s' = snd (add_block demo_lib 1700000100 \<lparr>header = submitted_header p,
             transactions = template_txs demo_lib (sub_wallet_address p) (sub_height p + 1) demo_chain,
             height = sub_height p + 1\<rparr> demo_chain))"
proof -
  let ?e = "\<lparr>req_jsonrpc = ''2.0'', req_id = None, req_method = ''submitBlock'', req_params = None\<rparr>"
  have ct: "ct_eq_ok demo_rpc_lib" by (simp add: ct_eq_ok_def demo_rpc_lib_def)
  obtain c' r where sb: "submit_block demo_lib 1700000100 demo_params demo_chain = (r, c')" "c' \<noteq> demo_chain"
    using demo_submitted by blast
  have f: "rpc_chain demo_server = demo_chain" "auth_token (config demo_server) = Some ''tok''"
    by (simp_all add: demo_server_def)
  have au: "authorized demo_rpc_lib demo_headers (auth_token (config demo_server))"
    unfolding f authorized_iff [OF ct] by (simp add: demo_header_texts)
  have pr: "parse_request demo_rpc_lib (req_method ?e) (req_params ?e) = Inr (SubmitBlock demo_params)"
    by (simp add: parse_request_def demo_rpc_lib_def)
  have hdl: "handle demo_lib 1700000100 (SubmitBlock demo_params) (rpc_chain demo_server) = Some (Inr r, c')"
    using sb(1) by (simp add: handle_def f)
  obtain out s' where run: "rpc_handler demo_lib demo_rpc_lib 0 1700000100 ''127.0.0.1'' demo_headers ?e
      demo_server = Some (out, s')" "rpc_chain s' = c'"
    using rpc_handler_dispatch [OF demo_within _ au pr hdl] by (metis (no_types) json_rpc_request.select_convs(1))
  have "rpc_chain s' \<noteq> rpc_chain demo_server" using run(2) sb(2) by (simp add: f)
  from rpc_changes_need_authorized_work [OF ct f(2) run(1) this] run(1) show ?thesis
    unfolding f by (elim conjE exE) (intro exI conjI, assumption+)
qed

text \<open>
  What the documentation of \<open>serde\<close> says of a derived structure without renaming attributes: an
  object that has no entry with the name of a field is not read.
\<close>

definition derived_fields :: "'y rpc_lib_scheme \<Rightarrow> bool" where
  "derived_fields J \<longleftrightarrow>
     (\<forall>m. map_of m ''wallet_address'' = None \<longrightarrow> (\<exists>e. from_value_template J (JObj m) = Inl e))"

definition soak_envelope :: "string \<Rightarrow> json_rpc_request" where
  "soak_envelope a = \<lparr>req_jsonrpc = ''2.0'', req_id = Some (JNum 1), req_method = ''getBlockTemplate'',
     req_params = Some (soak_params a)\<rparr>"

text \<open>C39: the node never answers the template request of its own mining client, whose parameter is
  named \<open>walletAddress\<close>, as in the documentation of the interface: the field the node reads is
  \<open>wallet_address\<close>, so a request within the limit and with the right token is refused with
  code -32601.\<close>

theorem documented_template_request_refused:
  assumes "derived_fields J" "fst (rl_check instant ip (http_rate_limiter s))"
    and "authorized J headers (auth_token (config s))"
  shows "\<exists>msg s'. rpc_handler X J instant now ip headers (soak_envelope a) s =
      Some ((OK, response_err (Some (JNum 1)) (-32601) msg), s') \<and> rpc_chain s' = rpc_chain s"
proof -
  obtain e where "from_value_template J (soak_params a) = Inl e"
    using assms(1) unfolding derived_fields_def soak_params_def by fastforce
  then have "parse_request J ''getBlockTemplate'' (Some (soak_params a)) = Inl (bad_params ''getBlockTemplate'' e)"
    by (simp add: parse_request_def map_err_def)
  then show ?thesis
    using assms(2,3) by (auto simp: rpc_handler_def soak_envelope_def Let_def split: prod.splits)
qed

theorem documented_template_request_refused_witness:
  "\<exists>msg s'. rpc_handler demo_lib demo_rpc_lib 0 1700000100 ''127.0.0.1'' demo_headers (soak_envelope ''ab'') demo_server =
      Some ((OK, response_err (Some (JNum 1)) (-32601) msg), s') \<and> rpc_chain s' = rpc_chain demo_server"
proof (rule documented_template_request_refused [OF _ demo_within])
  show "derived_fields demo_rpc_lib"
    by (simp add: derived_fields_def demo_rpc_lib_def json_get_def)
  have "ct_eq_ok demo_rpc_lib" by (simp add: ct_eq_ok_def demo_rpc_lib_def)
  then show "authorized demo_rpc_lib demo_headers (auth_token (config demo_server))"
    by (simp add: demo_server_def authorized_iff demo_header_texts)
qed

end
