(* ===== verification/Mobile.thy ===== *)
theory Mobile
  imports Blocks
begin

text \<open>
  The mining library of the mobile application (\<open>mobile/native/src/lib.rs\<close>), which repeats the
  node's header serialisation and target arithmetic behind a C interface. A C string is its
  bytes without the terminator, an output buffer is the bytes written to it, a null pointer is
  \<open>None\<close>. The stop flag is the value the loop reads when it looks at it, by nonce.
\<close>

section \<open>Model\<close>

text \<open>\<open>hex::decode_to_slice\<close>: success, and the buffer afterwards.\<close>

record mobile_lib = hash_lib +
  lib_decode_to_slice :: "string \<Rightarrow> bytes \<Rightarrow> bool \<times> bytes"

definition NONCE_NOT_FOUND :: u64 where "NONCE_NOT_FOUND = - 1"

definition mobile_hash256 :: "'x hash_lib_scheme \<Rightarrow> bytes \<Rightarrow> bytes" where
  "mobile_hash256 X d = (let first = lib_sha256 X d in lib_sha256 X first)"

definition serialize_header :: "u32 \<Rightarrow> bytes \<Rightarrow> bytes \<Rightarrow> u64 \<Rightarrow> u32 \<Rightarrow> u64 \<Rightarrow> bytes" where
  "serialize_header ver prev_bytes merkle_bytes ts bts n =
     u32_le ver @ prev_bytes @ merkle_bytes @ u64_le ts @ u32_le bts @ u64_le n @ [0x00]"

definition mobile_bits_to_target :: "u32 \<Rightarrow> bytes" where
  "mobile_bits_to_target b =
     (let exp = unat (drop_bit 24 b);
          mantissa = b AND 0x00ffffff;
          target = replicate 32 0
      in if exp \<ge> 1 \<and> exp \<le> 32 then
           let start = 32 - exp;
               t0 = target[start := ucast (drop_bit 16 mantissa AND 0xff)];
               t1 = (if start + 1 < 32
                     then t0[start + 1 := ucast (drop_bit 8 mantissa AND 0xff)] else t0)
           in if start + 2 < 32 then t1[start + 2 := ucast (mantissa AND 0xff)] else t1
         else target)"

text \<open>The loop over the zipped bytes, with its early returns.\<close>

definition mobile_hash_le_target :: "bytes \<Rightarrow> bytes \<Rightarrow> bool" where
  "mobile_hash_le_target hash target =
     (case find (\<lambda>(h, t). h < t \<or> h > t) (zip hash target) of
        None \<Rightarrow> True
      | Some (h, t) \<Rightarrow> h < t)"

text \<open>\<open>CString::new(s).unwrap_or_default()\<close> with its terminator: an inner NUL gives the empty string.\<close>

definition c_string :: "string \<Rightarrow> bytes" where
  "c_string s = (if CHR 0x00 \<in> set s then [0] else as_bytes s @ [0])"

definition check_interval :: u64 where "check_interval = 8192"

function mine_nonces ::
  "'x hash_lib_scheme \<Rightarrow> u32 \<Rightarrow> bytes \<Rightarrow> bytes \<Rightarrow> u64 \<Rightarrow> u32 \<Rightarrow> bytes \<Rightarrow> (u64 \<Rightarrow> u8) option \<Rightarrow> bool \<Rightarrow> u64 \<Rightarrow> u64
    \<Rightarrow> u64 \<times> bytes option" where
  "mine_nonces X ver pb mb ts bts target stop_flag has_out end_nonce n =
     (if n < end_nonce then
        if (case stop_flag of None \<Rightarrow> False | Some flag \<Rightarrow> n mod check_interval = 0 \<and> flag n \<noteq> 0)
        then (NONCE_NOT_FOUND, None)
        else
          let hash = mobile_hash256 X (serialize_header ver pb mb ts bts n) in
          if mobile_hash_le_target hash target
          then (n, if has_out then Some (c_string (lib_hex_encode X hash)) else None)
          else mine_nonces X ver pb mb ts bts target stop_flag has_out end_nonce (n + 1)
      else (NONCE_NOT_FOUND, None))"
  by pat_completeness auto

lemma unat_Suc_less: "(n :: u64) < e \<Longrightarrow> unat (n + 1) = Suc (unat n)"
  using unsigned_less [of e, where ?'a = nat]
  by (simp add: word_less_nat_alt unat_word_ariths)

termination mine_nonces
  by (relation "measure (\<lambda>(X, ver, pb, mb, ts, bts, target, stop, out, e, n). unat e - unat n)")
    (auto simp: unat_Suc_less word_less_nat_alt)

declare mine_nonces.simps [simp del]

definition decode_32 :: "'x mobile_lib_scheme \<Rightarrow> string \<Rightarrow> bool \<times> bytes" where
  "decode_32 X s = lib_decode_to_slice X s (replicate 32 0)"

definition arkos_mine ::
  "'x mobile_lib_scheme \<Rightarrow> u32 \<Rightarrow> bytes \<Rightarrow> bytes \<Rightarrow> u64 \<Rightarrow> u32 \<Rightarrow> u64 \<Rightarrow> u64 \<Rightarrow> (u64 \<Rightarrow> u8) option \<Rightarrow> bool
    \<Rightarrow> u64 \<times> bytes option" where
  "arkos_mine X ver prev_hash_hex merkle_hex ts bts start_nonce end_nonce stop_flag has_out =
     (case string_from_utf8 prev_hash_hex of
        None \<Rightarrow> (NONCE_NOT_FOUND, None)
      | Some prev_str \<Rightarrow>
          (case string_from_utf8 merkle_hex of
             None \<Rightarrow> (NONCE_NOT_FOUND, None)
           | Some merkle_str \<Rightarrow>
               let (ok1, prev_bytes) = decode_32 X prev_str;
                   (ok2, merkle_bytes) = decode_32 X merkle_str
               in if \<not> ok1 then (NONCE_NOT_FOUND, None)
                  else if \<not> ok2 then (NONCE_NOT_FOUND, None)
                  else mine_nonces X ver prev_bytes merkle_bytes ts bts (mobile_bits_to_target bts)
                         stop_flag has_out end_nonce start_nonce))"

definition str_or_empty :: "bytes \<Rightarrow> string" where
  "str_or_empty b = (case string_from_utf8 b of Some s \<Rightarrow> s | None \<Rightarrow> [])"

definition arkos_hash_block ::
  "'x mobile_lib_scheme \<Rightarrow> u32 \<Rightarrow> bytes \<Rightarrow> bytes \<Rightarrow> u64 \<Rightarrow> u32 \<Rightarrow> u64 \<Rightarrow> bytes" where
  "arkos_hash_block X ver prev_hash_hex merkle_hex ts bts n =
     (let prev_bytes = snd (decode_32 X (str_or_empty prev_hash_hex));
          merkle_bytes = snd (decode_32 X (str_or_empty merkle_hex));
          hash = mobile_hash256 X (serialize_header ver prev_bytes merkle_bytes ts bts n)
      in c_string (lib_hex_encode X hash))"

definition arkos_hash_meets_target :: "'x mobile_lib_scheme \<Rightarrow> bytes \<Rightarrow> u32 \<Rightarrow> 32 word" where
  "arkos_hash_meets_target X hash_text bts =
     (case string_from_utf8 hash_text of
        None \<Rightarrow> 0
      | Some s \<Rightarrow>
          let (ok, hash_bytes) = decode_32 X s in
          if \<not> ok then 0
          else if mobile_hash_le_target hash_bytes (mobile_bits_to_target bts) then 1 else 0)"

text \<open>The commitment hashes the texts of the two hashes; the decoded bytes are not used.\<close>

definition arkos_mining_commitment :: "'x mobile_lib_scheme \<Rightarrow> u32 \<Rightarrow> bytes \<Rightarrow> bytes \<Rightarrow> u64 \<Rightarrow> u32 \<Rightarrow> bytes" where
  "arkos_mining_commitment X ver prev_hash_hex merkle_hex ts bts =
     (let prev_str = str_or_empty prev_hash_hex; merkle_str = str_or_empty merkle_hex;
          commitment = mobile_hash256 X (u32_le ver @ as_bytes prev_str @ as_bytes merkle_str @ u64_le ts @ u32_le bts)
      in c_string (lib_hex_encode X commitment))"

definition arkos_version :: bytes where
  "arkos_version = as_bytes ''arkos_mobile/0.1.0'' @ [0]"

section \<open>Agreement with the node\<close>

lemma mobile_target [simp]: "mobile_bits_to_target b = bits_to_target b"
  by (simp add: mobile_bits_to_target_def bits_to_target_def Let_def)

lemma mobile_le [simp]: "mobile_hash_le_target hs ts = hash_le_target hs ts"
  by (induction hs ts rule: hash_le_target.induct) (auto simp: mobile_hash_le_target_def)

text \<open>The documented contract of \<open>decode_to_slice\<close>: it succeeds when the text decodes to exactly the
  length of the buffer, which then holds the bytes.\<close>

definition slice_ok :: "'x mobile_lib_scheme \<Rightarrow> bool" where
  "slice_ok X \<longleftrightarrow> (\<forall>s out. case lib_hex_decode X s of
       Some b \<Rightarrow> (if length b = length out then lib_decode_to_slice X s out = (True, b)
                  else \<not> fst (lib_decode_to_slice X s out))
     | None \<Rightarrow> \<not> fst (lib_decode_to_slice X s out))"

lemma decode_32_ok:
  assumes "slice_ok X" "decode_32 X s = (True, b)"
  shows "hex_32_or_bytes X s = b"
proof -
  have "case lib_hex_decode X s of
       Some b \<Rightarrow> (if length b = length (replicate 32 (0 :: u8)) then lib_decode_to_slice X s (replicate 32 0) = (True, b)
                  else \<not> fst (lib_decode_to_slice X s (replicate 32 0)))
     | None \<Rightarrow> \<not> fst (lib_decode_to_slice X s (replicate 32 0))"
    using assms(1) unfolding slice_ok_def by blast
  then show ?thesis
    using assms(2) by (auto simp: decode_32_def hex_32_or_bytes_def Let_def split: option.splits if_splits)
qed

text \<open>The header a call of \<open>arkos_mine\<close> stands for.\<close>

definition mobile_header :: "u32 \<Rightarrow> string \<Rightarrow> string \<Rightarrow> u64 \<Rightarrow> u32 \<Rightarrow> u64 \<Rightarrow> block_header" where
  "mobile_header ver p m ts bts n =
     \<lparr>hdr_version = ver, prev_hash = p, hdr_merkle_root = m, timestamp = ts, bits = bts, nonce = n\<rparr>"

lemma mobile_header_hash:
  assumes "slice_ok X" "decode_32 X p = (True, pb)" "decode_32 X m = (True, mb)"
  shows "mobile_hash256 X (serialize_header ver pb mb ts bts n) = header_hash X (mobile_header ver p m ts bts n)"
  using decode_32_ok [OF assms(1,2)] decode_32_ok [OF assms(1,3)]
  by (simp add: mobile_hash256_def serialize_header_def header_hash_def hash256_def pow_bytes_def
      mobile_header_def)

text \<open>
  One round of the loop, with the outcome of the remaining rounds: a property of nonces from
  \<open>n\<close> on follows from the property at \<open>n\<close> and from \<open>n + 1\<close> on.
\<close>

lemma nonce_step: "(n :: u64) < e \<Longrightarrow> n \<le> k \<longleftrightarrow> k = n \<or> n + 1 \<le> k"
  unfolding word_le_nat_alt word_unat_eq_iff by (simp only: unat_Suc_less [of n e]) linarith

definition stopped_in :: "(u64 \<Rightarrow> u8) option \<Rightarrow> u64 \<Rightarrow> u64 \<Rightarrow> bool" where
  "stopped_in stop n e \<longleftrightarrow> (\<exists>flag k. stop = Some flag \<and> n \<le> k \<and> k < e \<and> flag k \<noteq> 0)"

lemma mine_nonces_outcome:
  fixes X ver pb mb ts bts target
  defines "hit k \<equiv> hash_le_target (mobile_hash256 X (serialize_header ver pb mb ts bts k)) target"
  assumes "mine_nonces X ver pb mb ts bts target stop out e n = (r, w)"
  shows "r = NONCE_NOT_FOUND \<and> w = None \<and> (stopped_in stop n e \<or> (\<forall>k. n \<le> k \<longrightarrow> k < e \<longrightarrow> \<not> hit k))
    \<or> n \<le> r \<and> r < e \<and> hit r \<and> (\<forall>k. n \<le> k \<longrightarrow> k < r \<longrightarrow> \<not> hit k)
      \<and> w = (if out then Some (c_string (lib_hex_encode X (mobile_hash256 X (serialize_header ver pb mb ts bts r))))
             else None)"
  using assms(2)
proof (induction "unat e - unat n" arbitrary: n rule: less_induct)
  case less
  let ?stop = "case stop of None \<Rightarrow> False | Some flag \<Rightarrow> n mod check_interval = 0 \<and> flag n \<noteq> 0"
  note eq = less.prems [unfolded mine_nonces.simps [of X ver pb mb ts bts target stop out e n] mobile_le Let_def,
      folded hit_def]
  consider "\<not> n < e" | "n < e" "?stop" | "n < e" "\<not> ?stop" "hit n" | "n < e" "\<not> ?stop" "\<not> hit n" by blast
  then show ?case
  proof cases
    case 1
    with eq show ?thesis by auto
  next
    case 2
    then have "stopped_in stop n e" by (auto simp: stopped_in_def split: option.splits)
    with 2 eq show ?thesis by simp
  next
    case 3
    with eq show ?thesis by auto
  next
    case 4
    then have rest: "mine_nonces X ver pb mb ts bts target stop out e (n + 1) = (r, w)" using eq by simp
    have "unat e - unat (n + 1) < unat e - unat n"
      using 4(1) unat_Suc_less [OF 4(1)] by (simp add: word_less_nat_alt)
    moreover have "stopped_in stop (n + 1) e \<Longrightarrow> stopped_in stop n e"
      using nonce_step [OF 4(1)] by (auto simp: stopped_in_def)
    ultimately show ?thesis using less.hyps [OF _ rest] nonce_step [OF 4(1)] 4(3) by auto
  qed
qed

text \<open>C23: the mobile miner decides as the node does: for hashes that decode, the nonce it returns lies
  in the range asked for, is the first there whose header meets the target by the node's own
  check, and the buffer receives the node's hash of that header; it returns the not-found value
  only when it read a non-zero stop flag in the range or no nonce there meets the target.\<close>

theorem arkos_mine_agrees_with_node:
  assumes "slice_ok X" "string_from_utf8 pt = Some p" "string_from_utf8 mt = Some m"
    and "decode_32 X p = (True, pb)" "decode_32 X m = (True, mb)"
    and "arkos_mine X ver pt mt ts bts s e stop out = (r, w)"
  shows "(r = NONCE_NOT_FOUND \<longleftrightarrow> \<not> r < e) \<and>
    (if r = NONCE_NOT_FOUND
     then stopped_in stop s e
        \<or> (\<forall>k. s \<le> k \<longrightarrow> k < e \<longrightarrow> \<not> meets_target X (mobile_header ver p m ts bts k))
     else s \<le> r \<and> r < e \<and> meets_target X (mobile_header ver p m ts bts r)
        \<and> (\<forall>k. s \<le> k \<longrightarrow> k < r \<longrightarrow> \<not> meets_target X (mobile_header ver p m ts bts k))
        \<and> w = (if out then Some (c_string (header_hash_hex X (mobile_header ver p m ts bts r))) else None))"
proof -
  have loop: "mine_nonces X ver pb mb ts bts (bits_to_target bts) stop out e s = (r, w)"
    using assms(2-6) by (simp add: arkos_mine_def)
  have "\<not> NONCE_NOT_FOUND < e" by (simp add: NONCE_NOT_FOUND_def not_less)
  moreover have "meets_target X (mobile_header ver p m ts bts k) \<longleftrightarrow>
      hash_le_target (mobile_hash256 X (serialize_header ver pb mb ts bts k)) (bits_to_target bts)" for k
    by (simp add: meets_target_def mobile_header_hash [OF assms(1,4,5)] mobile_header_def)
  ultimately show ?thesis
    using mine_nonces_outcome [OF loop]
    by (auto simp: mobile_header_hash [OF assms(1,4,5)] header_hash_hex_def hash_to_hex_def)
qed

definition demo_mobile_lib :: mobile_lib where
  "demo_mobile_lib = \<lparr>lib_sha256 = demo_sha, lib_hex_encode = demo_hex_encode, lib_hex_decode = demo_hex_decode,
     lib_decode_to_slice = (\<lambda>s out. case demo_hex_decode s of
       Some b \<Rightarrow> if length b = length out then (True, b) else (False, out)
     | None \<Rightarrow> (False, out))\<rparr>"

lemma demo_mobile_ok:
  "slice_ok demo_mobile_lib" "decode_32 demo_mobile_lib zero_hash = (True, replicate 32 0)"
  "string_from_utf8 (as_bytes zero_hash) = Some zero_hash"
proof -
  show "slice_ok demo_mobile_lib" by (auto simp: slice_ok_def demo_mobile_lib_def split: option.splits)
  show "decode_32 demo_mobile_lib zero_hash = (True, replicate 32 0)"
    unfolding zero_hash_hex by (simp add: decode_32_def demo_mobile_lib_def demo_hex_roundtrip)
  show "string_from_utf8 (as_bytes zero_hash) = Some zero_hash"
    by (rule string_from_utf8_ascii) (simp add: zero_hash_def list_all_iff)
qed

theorem arkos_mine_agrees_with_node_witness:
  "\<exists>w. arkos_mine demo_mobile_lib 1 (as_bytes zero_hash) (as_bytes zero_hash) 1700000000 0x207fffff 5 9 None True = (5, w)
     \<and> meets_target demo_mobile_lib (mobile_header 1 zero_hash zero_hash 1700000000 0x207fffff 5)"
proof -
  let ?run = "arkos_mine demo_mobile_lib 1 (as_bytes zero_hash) (as_bytes zero_hash) 1700000000 0x207fffff 5 9 None True"
  obtain r w where run: "?run = (r, w)" by fastforce
  have m: "meets_target demo_mobile_lib (mobile_header 1 zero_hash zero_hash 1700000000 0x207fffff k)" for k
    by (rule sha_demo_meets) (simp_all add: demo_mobile_lib_def mobile_header_def)
  have "\<not> stopped_in None 5 9" by (simp add: stopped_in_def)
  moreover have "\<not> (\<forall>k::u64. 5 \<le> k \<longrightarrow> k < 9 \<longrightarrow> False)" by (intro notI) (erule allE [of _ 5], simp)
  ultimately have "5 \<le> r" "\<not> 5 < r"
    using arkos_mine_agrees_with_node [OF demo_mobile_ok(1,3,3,2,2) run] m by (auto split: if_splits)
  then have "r = 5" by simp
  with run m show ?thesis by blast
qed

end
