(* ===== verification/Noise.thy ===== *)
theory Noise
  imports Prelude
begin

text \<open>
  The encrypted transport (\<open>src/network/noise.rs\<close>): a Noise session, an ML-KEM-768 exchange inside
  it, and a second layer of authenticated encryption keyed by that exchange, over frames with a
  length prefix. The Noise library \<open>snow\<close>, ML-KEM, HKDF and ChaCha20-Poly1305 are a library
  record. The incoming half of a TCP stream is the bytes still to be read, all that the peer
  sends; the outgoing half is the bytes sent so far. An operation that fails ends the
  connection, so its result carries no state.
\<close>

section \<open>Library and streams\<close>

datatype noise_err =
    NoiseIo
  | SnowError string
  | NoisePanic
  | MessageTooLarge nat
  | HandshakeTooLarge nat
  | PqAuthFailed
  | KemDecapsulation
  | KemInvalidKey
  | NoiseJson string

text \<open>
  \<open>'k\<close> is a static key pair, \<open>'h\<close> a handshake state, \<open>'t\<close> a transport state and \<open>'dk\<close> a
  decapsulation key. The number given to reading and writing is the size of the buffer.
\<close>

record ('k, 'h, 't, 'dk) noise_lib =
  lib_keypair :: "bytes \<Rightarrow> string + 'k"
  hs_initiator :: "'k \<Rightarrow> string + 'h"
  hs_responder :: "'k \<Rightarrow> string + 'h"
  hs_finished :: "'h \<Rightarrow> bool"
  hs_my_turn :: "'h \<Rightarrow> bool"
  hs_write :: "bytes \<Rightarrow> nat \<Rightarrow> 'h \<Rightarrow> string + bytes \<times> 'h"
  hs_read :: "bytes \<Rightarrow> nat \<Rightarrow> 'h \<Rightarrow> string + bytes \<times> 'h"
  hs_transport :: "'h \<Rightarrow> string + 't"
  tr_write :: "bytes \<Rightarrow> nat \<Rightarrow> 't \<Rightarrow> string + bytes \<times> 't"
  tr_read :: "bytes \<Rightarrow> nat \<Rightarrow> 't \<Rightarrow> string + bytes \<times> 't"
  lib_hkdf :: "bytes \<Rightarrow> bytes \<Rightarrow> nat \<Rightarrow> bytes option"
  lib_aead_encrypt :: "bytes \<Rightarrow> bytes \<Rightarrow> bytes \<Rightarrow> bytes option"
  lib_aead_decrypt :: "bytes \<Rightarrow> bytes \<Rightarrow> bytes \<Rightarrow> bytes option"
  kem_generate :: "bytes \<Rightarrow> 'dk \<times> bytes"
  kem_encapsulate :: "bytes \<Rightarrow> bytes \<Rightarrow> (bytes \<times> bytes) option"
  kem_decapsulate :: "'dk \<Rightarrow> bytes \<Rightarrow> bytes option"

record tcp_out =
  sent :: bytes
  is_open :: bool

definition write_all :: "bytes \<Rightarrow> tcp_out \<Rightarrow> noise_err + tcp_out" where
  "write_all b out = (if is_open out then Inr (out\<lparr>sent := sent out @ b\<rparr>) else Inl NoiseIo)"

definition read_exact :: "nat \<Rightarrow> bytes \<Rightarrow> noise_err + bytes \<times> bytes" where
  "read_exact n inp = (if n \<le> length inp then Inr (take n inp, drop n inp) else Inl NoiseIo)"

definition NOISE_MAX_PLAINTEXT :: nat where "NOISE_MAX_PLAINTEXT = 65487"
definition NOISE_MAX_MESSAGE :: nat where "NOISE_MAX_MESSAGE = 32 * 1024 * 1024"

section \<open>The second layer\<close>

definition derive_pq_key :: "('k, 'h, 't, 'dk, 'x) noise_lib_scheme \<Rightarrow> bytes \<Rightarrow> noise_err + bytes" where
  "derive_pq_key X mlkem_ss = ok_or NoisePanic (lib_hkdf X mlkem_ss (as_bytes ''arkos-pq-v1'') 32)"

definition nonce_bytes :: "u64 \<Rightarrow> bytes" where
  "nonce_bytes counter = replicate 4 0 @ u64_le counter"

definition pq_encrypt ::
  "('k, 'h, 't, 'dk, 'x) noise_lib_scheme \<Rightarrow> bytes \<Rightarrow> u64 \<Rightarrow> bytes \<Rightarrow> noise_err + bytes" where
  "pq_encrypt X key counter plaintext =
     ok_or NoisePanic (lib_aead_encrypt X key (nonce_bytes counter) plaintext)"

definition pq_decrypt ::
  "('k, 'h, 't, 'dk, 'x) noise_lib_scheme \<Rightarrow> bytes \<Rightarrow> u64 \<Rightarrow> bytes \<Rightarrow> noise_err + bytes" where
  "pq_decrypt X key counter ciphertext =
     ok_or PqAuthFailed (lib_aead_decrypt X key (nonce_bytes counter) ciphertext)"

section \<open>Connections\<close>

record noise_reader =
  rd_bytes :: bytes
  rd_key :: bytes
  recv_counter :: u64

record noise_writer =
  wr_out :: tcp_out
  wr_key :: bytes
  send_counter :: u64

record 't noise_conn =
  conn_addr :: string
  conn_in :: bytes
  conn_out :: tcp_out
  transport :: 't
  pq_key :: bytes
  conn_send_counter :: u64
  conn_recv_counter :: u64

text \<open>The two halves share the transport state, which is returned beside them.\<close>

definition into_split :: "'t noise_conn \<Rightarrow> noise_reader \<times> noise_writer \<times> 't" where
  "into_split c =
     (\<lparr>rd_bytes = conn_in c, rd_key = pq_key c, recv_counter = conn_recv_counter c\<rparr>,
      \<lparr>wr_out = conn_out c, wr_key = pq_key c, send_counter = conn_send_counter c\<rparr>,
      transport c)"

text \<open>One round of the loop of \<open>send_raw\<close>, and the loop.\<close>

definition send_chunk ::
  "('k, 'h, 't, 'dk, 'x) noise_lib_scheme \<Rightarrow> bytes \<Rightarrow> noise_writer \<times> 't \<Rightarrow> noise_err + noise_writer \<times> 't" where
  "send_chunk X chunk wt =
     (case wt of (w, t) \<Rightarrow>
        try_res (pq_encrypt X (wr_key w) (send_counter w) chunk) (\<lambda>pq_ct.
        try_res (map_err SnowError (tr_write X pq_ct (NOISE_MAX_PLAINTEXT + 16) t)) (\<lambda>(buf, t').
        try_res (write_all (u32_be (word_of_nat (length buf))) (wr_out w)) (\<lambda>o1.
        try_res (write_all buf o1) (\<lambda>o2.
        Inr (w\<lparr>wr_out := o2, send_counter := send_counter w + 1\<rparr>, t'))))))"

function send_loop ::
  "('k, 'h, 't, 'dk, 'x) noise_lib_scheme \<Rightarrow> bytes \<Rightarrow> nat \<Rightarrow> noise_writer \<times> 't \<Rightarrow> noise_err + noise_writer \<times> 't" where
  "send_loop X plaintext offset wt =
     (if offset < length plaintext then
        let e = min (offset + NOISE_MAX_PLAINTEXT - 16) (length plaintext);
            chunk = take (e - offset) (drop offset plaintext)
        in case send_chunk X chunk wt of
             Inl err \<Rightarrow> Inl err
           | Inr wt' \<Rightarrow> send_loop X plaintext e wt'
      else Inr wt)"
  by pat_completeness auto

termination send_loop
  by (relation "measure (\<lambda>(X, p, offset, wt). length p - offset)") (auto simp: NOISE_MAX_PLAINTEXT_def)

declare send_loop.simps [simp del]

definition send_raw ::
  "('k, 'h, 't, 'dk, 'x) noise_lib_scheme \<Rightarrow> bytes \<Rightarrow> noise_writer \<times> 't \<Rightarrow> noise_err + noise_writer \<times> 't" where
  "send_raw X plaintext wt = send_loop X plaintext 0 wt"

text \<open>Reading a frame: the length prefix, the limit, the bytes.\<close>

definition read_frame :: "bytes \<Rightarrow> noise_err + bytes \<times> bytes" where
  "read_frame inp =
     try_res (read_exact 4 inp) (\<lambda>(len_buf, inp1).
     let len = unat (u32_of_be len_buf) in
     if NOISE_MAX_MESSAGE < len then Inl (MessageTooLarge len)
     else read_exact len inp1)"

definition recv_raw ::
  "('k, 'h, 't, 'dk, 'x) noise_lib_scheme \<Rightarrow> noise_reader \<times> 't \<Rightarrow> noise_err + bytes \<times> noise_reader \<times> 't" where
  "recv_raw X rt =
     (case rt of (r, t) \<Rightarrow>
        try_res (read_frame (rd_bytes r)) (\<lambda>(ciphertext, rest).
        try_res (map_err SnowError (tr_read X ciphertext (length ciphertext) t)) (\<lambda>(noise_pt, t').
        try_res (pq_decrypt X (rd_key r) (recv_counter r) noise_pt) (\<lambda>plaintext.
        Inr (plaintext, r\<lparr>rd_bytes := rest, recv_counter := recv_counter r + 1\<rparr>, t')))))"

text \<open>The same operations on a connection that is not split.\<close>

definition conn_send_raw ::
  "('k, 'h, 't, 'dk, 'x) noise_lib_scheme \<Rightarrow> bytes \<Rightarrow> 't noise_conn \<Rightarrow> noise_err + 't noise_conn" where
  "conn_send_raw X plaintext c =
     (case into_split c of (r, w, t) \<Rightarrow>
        try_res (send_raw X plaintext (w, t)) (\<lambda>(w', t').
        Inr (c\<lparr>conn_out := wr_out w', transport := t', conn_send_counter := send_counter w'\<rparr>)))"

definition conn_recv_raw ::
  "('k, 'h, 't, 'dk, 'x) noise_lib_scheme \<Rightarrow> 't noise_conn \<Rightarrow> noise_err + bytes \<times> 't noise_conn" where
  "conn_recv_raw X c =
     (case into_split c of (r, w, t) \<Rightarrow>
        try_res (recv_raw X (r, t)) (\<lambda>(plaintext, r', t').
        Inr (plaintext, c\<lparr>conn_in := rd_bytes r', transport := t', conn_recv_counter := recv_counter r'\<rparr>)))"

section \<open>Handshakes\<close>

text \<open>\<open>handshake\<close>: \<open>None\<close> when the exchange of messages does not end.\<close>

partial_function (option) handshake ::
  "('k, 'h, 't, 'dk, 'x) noise_lib_scheme \<Rightarrow> 'h \<Rightarrow> bytes \<Rightarrow> tcp_out \<Rightarrow> (noise_err + 't \<times> bytes \<times> tcp_out) option" where
  "handshake X st inp out =
     (if hs_finished X st
      then Some (try_res (map_err SnowError (hs_transport X st)) (\<lambda>t. Inr (t, inp, out)))
      else if hs_my_turn X st
      then (case try_res (map_err SnowError (hs_write X [] 65535 st)) (\<lambda>(buf, st').
                 try_res (write_all (u32_be (word_of_nat (length buf))) out) (\<lambda>o1.
                 try_res (write_all buf o1) (\<lambda>o2. Inr (st', o2)))) of
              Inl e \<Rightarrow> Some (Inl e)
            | Inr (st', out') \<Rightarrow> handshake X st' inp out')
      else (case try_res (read_exact 4 inp) (\<lambda>(len_buf, inp1).
                 let len = unat (u32_of_be len_buf) in
                 if 65535 < len then Inl (HandshakeTooLarge len)
                 else
                   try_res (read_exact len inp1) (\<lambda>(buf, inp2).
                   try_res (map_err SnowError (hs_read X buf len st)) (\<lambda>(_, st').
                   Inr (st', inp2)))) of
              Inl e \<Rightarrow> Some (Inl e)
            | Inr (st', inp') \<Rightarrow> handshake X st' inp' out))"

definition noise_send_raw ::
  "('k, 'h, 't, 'dk, 'x) noise_lib_scheme \<Rightarrow> bytes \<Rightarrow> tcp_out \<times> 't \<Rightarrow> noise_err + tcp_out \<times> 't" where
  "noise_send_raw X plaintext ot =
     (case ot of (out, t) \<Rightarrow>
        try_res (map_err SnowError (tr_write X plaintext (length plaintext + 16) t)) (\<lambda>(buf, t').
        try_res (write_all (u32_be (word_of_nat (length buf))) out) (\<lambda>o1.
        try_res (write_all buf o1) (\<lambda>o2. Inr (o2, t')))))"

definition noise_recv_raw ::
  "('k, 'h, 't, 'dk, 'x) noise_lib_scheme \<Rightarrow> bytes \<times> 't \<Rightarrow> noise_err + bytes \<times> bytes \<times> 't" where
  "noise_recv_raw X it =
     (case it of (inp, t) \<Rightarrow>
        try_res (read_frame inp) (\<lambda>(ciphertext, rest).
        try_res (map_err SnowError (tr_read X ciphertext (length ciphertext) t)) (\<lambda>(plaintext, t').
        Inr (plaintext, rest, t'))))"

text \<open>The key exchange; the randomness of key generation and encapsulation is an argument.\<close>

definition mlkem_initiator ::
  "('k, 'h, 't, 'dk, 'x) noise_lib_scheme \<Rightarrow> bytes \<Rightarrow> bytes \<Rightarrow> tcp_out \<Rightarrow> 't
    \<Rightarrow> noise_err + bytes \<times> bytes \<times> tcp_out \<times> 't" where
  "mlkem_initiator X rnd inp out t =
     (case kem_generate X rnd of (dk, ek_bytes) \<Rightarrow>
        try_res (noise_send_raw X ek_bytes (out, t)) (\<lambda>(out1, t1).
        try_res (noise_recv_raw X (inp, t1)) (\<lambda>(ct_bytes, inp1, t2).
        try_res (ok_or KemDecapsulation (kem_decapsulate X dk ct_bytes)) (\<lambda>ss.
        try_res (derive_pq_key X ss) (\<lambda>key. Inr (key, inp1, out1, t2))))))"

definition mlkem_responder ::
  "('k, 'h, 't, 'dk, 'x) noise_lib_scheme \<Rightarrow> bytes \<Rightarrow> bytes \<Rightarrow> tcp_out \<Rightarrow> 't
    \<Rightarrow> noise_err + bytes \<times> bytes \<times> tcp_out \<times> 't" where
  "mlkem_responder X rnd inp out t =
     try_res (noise_recv_raw X (inp, t)) (\<lambda>(ek_bytes, inp1, t1).
     try_res (ok_or KemInvalidKey (kem_encapsulate X rnd ek_bytes)) (\<lambda>(ct, ss).
     try_res (noise_send_raw X ct (out, t1)) (\<lambda>(out1, t2).
     try_res (derive_pq_key X ss) (\<lambda>key. Inr (key, inp1, out1, t2)))))"

definition start_conn :: "string \<Rightarrow> bytes \<times> bytes \<times> tcp_out \<times> 't \<Rightarrow> 't noise_conn" where
  "start_conn addr k = (case k of (key, inp, out, t) \<Rightarrow>
     \<lparr>conn_addr = addr, conn_in = inp, conn_out = out, transport = t, pq_key = key,
      conn_send_counter = 0, conn_recv_counter = 0\<rparr>)"

definition noise_connect ::
  "('k, 'h, 't, 'dk, 'x) noise_lib_scheme \<Rightarrow> bytes \<Rightarrow> bytes \<Rightarrow> tcp_out \<Rightarrow> string \<Rightarrow> 'k
    \<Rightarrow> (noise_err + 't noise_conn) option" where
  "noise_connect X rnd inp out addr keys =
     (case hs_initiator X keys of
        Inl e \<Rightarrow> Some (Inl (SnowError e))
      | Inr st \<Rightarrow>
          map_option (\<lambda>res.
            try_res res (\<lambda>(t, inp1, out1).
            try_res (mlkem_initiator X rnd inp1 out1 t) (\<lambda>k. Inr (start_conn addr k))))
            (handshake X st inp out))"

definition noise_accept ::
  "('k, 'h, 't, 'dk, 'x) noise_lib_scheme \<Rightarrow> bytes \<Rightarrow> bytes \<Rightarrow> tcp_out \<Rightarrow> 'k \<Rightarrow> string
    \<Rightarrow> (noise_err + 't noise_conn) option" where
  "noise_accept X rnd inp out keys addr =
     (case hs_responder X keys of
        Inl e \<Rightarrow> Some (Inl (SnowError e))
      | Inr st \<Rightarrow>
          map_option (\<lambda>res.
            try_res res (\<lambda>(t, inp1, out1).
            try_res (mlkem_responder X rnd inp1 out1 t) (\<lambda>k. Inr (start_conn addr k))))
            (handshake X st inp out))"

definition generate_keypair :: "('k, 'h, 't, 'dk, 'x) noise_lib_scheme \<Rightarrow> bytes \<Rightarrow> noise_err + 'k" where
  "generate_keypair X rnd = map_err SnowError (lib_keypair X rnd)"

section \<open>Channels\<close>

text \<open>Sending a list of payloads, and receiving as many.\<close>

fun put_all :: "('p \<Rightarrow> 's \<Rightarrow> 'e + 's) \<Rightarrow> 'p list \<Rightarrow> 's \<Rightarrow> 'e + 's" where
  "put_all put [] s = Inr s"
| "put_all put (p # ps) s = (case put p s of Inl e \<Rightarrow> Inl e | Inr s' \<Rightarrow> put_all put ps s')"

fun get_all :: "('r \<Rightarrow> 'e + 'p \<times> 'r) \<Rightarrow> nat \<Rightarrow> 'r \<Rightarrow> 'e + 'p list \<times> 'r" where
  "get_all get 0 r = Inr ([], r)"
| "get_all get (Suc n) r =
     try_res (get r) (\<lambda>(p, r1). try_res (get_all get n r1) (\<lambda>(ps, r2). Inr (p # ps, r2)))"

text \<open>
  A sender and a receiver in step: what the sender puts on the wire for a payload, the receiver
  reads back as that payload, leaving the rest of the wire, and they stay in step.
\<close>

locale framed_channel =
  fixes put :: "'p \<Rightarrow> 's \<Rightarrow> 'e + 's" and out_wire :: "'s \<Rightarrow> bytes"
    and get :: "'r \<Rightarrow> 'e + 'p \<times> 'r" and in_wire :: "'r \<Rightarrow> bytes"
    and in_step :: "'s \<Rightarrow> 'r \<Rightarrow> bool"
  assumes delivered: "put p s = Inr s' \<Longrightarrow> in_step s r0 \<Longrightarrow>
      \<exists>w. out_wire s' = out_wire s @ w
        \<and> (\<forall>r rest. in_step s r \<and> in_wire r = w @ rest \<longrightarrow>
             (\<exists>r'. get r = Inr (p, r') \<and> in_wire r' = rest \<and> in_step s' r'))"
    and wire_feed: "in_step s r0 \<Longrightarrow> \<exists>r. in_step s r \<and> in_wire r = w"
begin

lemma all_delivered:
  assumes "put_all put ps s = Inr s'" "in_step s r0"
  shows "\<exists>w. out_wire s' = out_wire s @ w
    \<and> (\<forall>r rest. in_step s r \<and> in_wire r = w @ rest \<longrightarrow>
         (\<exists>r'. get_all get (length ps) r = Inr (ps, r') \<and> in_wire r' = rest \<and> in_step s' r'))"
  using assms
proof (induction ps arbitrary: s r0)
  case (Cons p ps)
  from Cons.prems(1) obtain s1 where s1: "put p s = Inr s1" "put_all put ps s1 = Inr s'"
    by (auto split: sum.splits)
  obtain w where w: "out_wire s1 = out_wire s @ w"
    "\<And>r rest. in_step s r \<Longrightarrow> in_wire r = w @ rest \<Longrightarrow>
       \<exists>r'. get r = Inr (p, r') \<and> in_wire r' = rest \<and> in_step s1 r'"
    using delivered [OF s1(1) Cons.prems(2)] by blast
  obtain r where "in_step s r" "in_wire r = w @ []"
    using wire_feed [OF Cons.prems(2), of "w @ []"] by blast
  with w(2) obtain r1 where "in_step s1 r1" by blast
  from Cons.IH [OF s1(2) this] obtain v where v: "out_wire s' = out_wire s1 @ v"
    "\<And>r rest. in_step s1 r \<Longrightarrow> in_wire r = v @ rest \<Longrightarrow>
       \<exists>r'. get_all get (length ps) r = Inr (ps, r') \<and> in_wire r' = rest \<and> in_step s' r'" by blast
  have "\<exists>r'. get_all get (length (p # ps)) r = Inr (p # ps, r') \<and> in_wire r' = rest \<and> in_step s' r'"
    if r: "in_step s r" "in_wire r = (w @ v) @ rest" for r rest
  proof -
    obtain r1 where r1: "get r = Inr (p, r1)" "in_wire r1 = v @ rest" "in_step s1 r1"
      using w(2) [OF r(1), of "v @ rest"] r(2) by auto
    with v(2) [OF r1(3,2)] show ?thesis by auto
  qed
  with w(1) v(1) show ?case by (intro exI [of _ "w @ v"]) auto
qed auto

end

text \<open>What the documentation of the libraries promises of a pair of transport states.\<close>

definition channel_ok :: "('k, 'h, 't, 'dk, 'x) noise_lib_scheme \<Rightarrow> ('t \<Rightarrow> 't \<Rightarrow> bool) \<Rightarrow> bool" where
  "channel_ok X linked \<longleftrightarrow>
     (\<forall>a b pt cap ct a'. linked a b \<longrightarrow> tr_write X pt cap a = Inr (ct, a') \<longrightarrow>
        length ct = length pt + 16 \<and> length ct \<le> 65535
        \<and> (\<exists>b'. tr_read X ct (length ct) b = Inr (pt, b') \<and> linked a' b'))
   \<and> (\<forall>a b pt cap ct b'. linked a b \<longrightarrow> tr_write X pt cap b = Inr (ct, b') \<longrightarrow> linked a b')
   \<and> (\<forall>a b ct n pt a'. linked a b \<longrightarrow> tr_read X ct n a = Inr (pt, a') \<longrightarrow> linked a' b)"

definition aead_ok :: "('k, 'h, 't, 'dk, 'x) noise_lib_scheme \<Rightarrow> bool" where
  "aead_ok X \<longleftrightarrow> (\<forall>k n p c. lib_aead_encrypt X k n p = Some c \<longrightarrow> lib_aead_decrypt X k n c = Some p)"

definition kem_ok :: "('k, 'h, 't, 'dk, 'x) noise_lib_scheme \<Rightarrow> bool" where
  "kem_ok X \<longleftrightarrow> (\<forall>s s' dk ek ct ss. kem_generate X s = (dk, ek) \<longrightarrow> kem_encapsulate X s' ek = Some (ct, ss)
     \<longrightarrow> kem_decapsulate X dk ct = Some ss)"

lemma channel_write:
  assumes "channel_ok X linked" "linked a b" "tr_write X pt cap a = Inr (ct, a')"
  shows "length ct \<le> 65535" "\<exists>b'. tr_read X ct (length ct) b = Inr (pt, b') \<and> linked a' b'"
  using assms unfolding channel_ok_def by blast+

lemma channel_keeps:
  assumes "channel_ok X linked" "linked a b"
  shows "tr_write X pt cap b = Inr (ct, b') \<Longrightarrow> linked a b'" "tr_read X ct n a = Inr (pt, a') \<Longrightarrow> linked a' b"
  using assms unfolding channel_ok_def by blast+

lemma write_frame:
  assumes "write_all (u32_be (word_of_nat (length buf))) out = Inr o1" "write_all buf o1 = Inr o2"
  shows "sent o2 = sent out @ u32_be (word_of_nat (length buf)) @ buf"
  using assms by (auto simp: write_all_def split: if_splits)

lemma read_frame_written:
  assumes "length ct \<le> 65535"
  shows "read_frame (u32_be (word_of_nat (length ct)) @ ct @ rest) = Inr (ct, rest)"
proof -
  have "unat (word_of_nat (length ct) :: u32) = length ct"
    using assms by (simp add: unat_of_nat)
  then show ?thesis
    using assms by (simp add: read_frame_def read_exact_def NOISE_MAX_MESSAGE_def)
qed

interpretation plain: framed_channel "noise_send_raw X" "\<lambda>(out, t). sent out" "noise_recv_raw X" fst
  "\<lambda>(out, t) (inp, t'). channel_ok X linked \<and> linked t t'" for X linked
proof (unfold_locales, goal_cases)
  case (1 p s s' r0)
  obtain out t where s: "s = (out, t)" by fastforce
  then have ok: "channel_ok X linked" "linked t (snd r0)" using 1(2) by (auto split: prod.splits)
  obtain buf t' o1 o2 where st: "tr_write X p (length p + 16) t = Inr (buf, t')"
    "write_all (u32_be (word_of_nat (length buf))) out = Inr o1" "write_all buf o1 = Inr o2" "s' = (o2, t')"
    using 1(1) by (auto simp: s noise_send_raw_def try_res_Inr)
  show ?case
    using write_frame [OF st(2,3)] channel_write [OF ok(1) _ st(1)]
    by (intro exI [of _ "u32_be (word_of_nat (length buf)) @ buf"])
      (fastforce simp: s st(4) noise_recv_raw_def read_frame_written)
qed auto

definition hybrid_step ::
  "('k, 'h, 't, 'dk, 'x) noise_lib_scheme \<Rightarrow> ('t \<Rightarrow> 't \<Rightarrow> bool) \<Rightarrow> noise_writer \<times> 't \<Rightarrow> noise_reader \<times> 't \<Rightarrow> bool" where
  "hybrid_step X linked wt rt \<longleftrightarrow> channel_ok X linked \<and> aead_ok X \<and> linked (snd wt) (snd rt)
     \<and> wr_key (fst wt) = rd_key (fst rt) \<and> send_counter (fst wt) = recv_counter (fst rt)"

lemma send_chunk_Inr:
  assumes "send_chunk X p (w, t) = Inr s'"
  obtains pq buf t' o1 o2 where "pq_encrypt X (wr_key w) (send_counter w) p = Inr pq"
    "tr_write X pq (NOISE_MAX_PLAINTEXT + 16) t = Inr (buf, t')"
    "write_all (u32_be (word_of_nat (length buf))) (wr_out w) = Inr o1" "write_all buf o1 = Inr o2"
    "s' = (w\<lparr>wr_out := o2, send_counter := send_counter w + 1\<rparr>, t')"
  using assms by (auto simp: send_chunk_def try_res_Inr)

interpretation hybrid: framed_channel "send_chunk X" "\<lambda>(w, t). sent (wr_out w)" "recv_raw X"
  "\<lambda>(r, t). rd_bytes r" "hybrid_step X linked" for X linked
proof (unfold_locales, goal_cases)
  case (1 p s s' r0)
  obtain w t where s: "s = (w, t)" by fastforce
  have ok: "channel_ok X linked" "aead_ok X" using 1(2) by (auto simp: hybrid_step_def)
  obtain pq buf t' o1 o2 where st: "pq_encrypt X (wr_key w) (send_counter w) p = Inr pq"
    "tr_write X pq (NOISE_MAX_PLAINTEXT + 16) t = Inr (buf, t')"
    "write_all (u32_be (word_of_nat (length buf))) (wr_out w) = Inr o1" "write_all buf o1 = Inr o2"
    "s' = (w\<lparr>wr_out := o2, send_counter := send_counter w + 1\<rparr>, t')"
    using 1(1) unfolding s by (rule send_chunk_Inr)
  have len: "length buf \<le> 65535"
    using channel_write(1) [OF ok(1) _ st(2), of "snd r0"] 1(2) by (simp add: hybrid_step_def s)
  have dec: "pq_decrypt X (wr_key w) (send_counter w) pq = Inr p"
    using st(1) ok(2) by (simp add: pq_encrypt_def pq_decrypt_def aead_ok_def)
  have "\<exists>r'. recv_raw X (r, rt) = Inr (p, r') \<and> (case r' of (r', t) \<Rightarrow> rd_bytes r') = rest \<and> hybrid_step X linked s' r'"
    if r: "hybrid_step X linked s (r, rt)" "rd_bytes r = u32_be (word_of_nat (length buf)) @ buf @ rest" for r rt rest
  proof -
    obtain rt' where "tr_read X buf (length buf) rt = Inr (pq, rt')" "linked t' rt'"
      using channel_write(2) [OF ok(1) _ st(2), of rt] r(1) by (auto simp: hybrid_step_def s)
    then show ?thesis
      using r dec len by (simp add: recv_raw_def read_frame_written hybrid_step_def s st(5))
  qed
  then show ?case
    using write_frame [OF st(3,4)]
    by (intro exI [of _ "u32_be (word_of_nat (length buf)) @ buf"]) (auto simp: s st(5))
next
  case (2 s r0 w)
  then show ?case
    by (intro exI [of _ "((fst r0)\<lparr>rd_bytes := w\<rparr>, snd r0)"]) (auto simp: hybrid_step_def)
qed

text \<open>\<open>send_raw\<close> cuts its plaintext into chunks.\<close>

definition CHUNK :: nat where "CHUNK = 65471"

function chunks :: "nat \<Rightarrow> 'a list \<Rightarrow> 'a list list" where
  "chunks n xs = (if n = 0 \<or> xs = [] then [] else take n xs # chunks n (drop n xs))"
  by pat_completeness auto

termination chunks
  by (relation "measure (\<lambda>(n, xs). length xs)") auto

declare chunks.simps [simp del]

lemma concat_chunks: "0 < n \<Longrightarrow> concat (chunks n xs) = xs"
  by (induction n xs rule: chunks.induct) (subst chunks.simps, auto)

lemma chunks_small: "0 < n \<Longrightarrow> xs \<noteq> [] \<Longrightarrow> length xs \<le> n \<Longrightarrow> chunks n xs = [xs]"
  by (subst chunks.simps, subst chunks.simps) simp

lemma send_loop_chunks: "send_loop X p offset wt = put_all (send_chunk X) (chunks CHUNK (drop offset p)) wt"
proof (induction X p offset wt rule: send_loop.induct)
  case (1 X p offset wt)
  show ?case
  proof (cases "offset < length p")
    case True
    let ?e = "min (offset + NOISE_MAX_PLAINTEXT - 16) (length p)"
    have chunk: "take (?e - offset) (drop offset p) = take CHUNK (drop offset p)"
      by (simp add: CHUNK_def NOISE_MAX_PLAINTEXT_def min_def)
    have rest: "drop ?e p = drop CHUNK (drop offset p)"
      by (simp add: CHUNK_def NOISE_MAX_PLAINTEXT_def min_def add.commute)
    have "chunks CHUNK (drop offset p) = take CHUNK (drop offset p) # chunks CHUNK (drop CHUNK (drop offset p))"
      using True by (subst chunks.simps) (simp add: CHUNK_def)
    then show ?thesis
      using True 1 [OF True refl refl] rest
      by (subst send_loop.simps) (simp add: Let_def chunk split: sum.splits)
  next
    case False
    then show ?thesis by (subst send_loop.simps, subst chunks.simps) simp
  qed
qed

lemma noise_frame_delivered:
  assumes "channel_ok X linked" "linked t rt" "noise_send_raw X p (out, t) = Inr (out', t')"
    and "sent out' = sent out @ w" "noise_recv_raw X (w @ rest, rt) = Inr (q, inp', rt')"
  shows "q = p \<and> inp' = rest \<and> linked t' rt'"
proof -
  obtain v where "sent out' = sent out @ v"
    "\<And>r rest. channel_ok X linked \<Longrightarrow> linked t (snd r) \<Longrightarrow> fst r = v @ rest \<Longrightarrow>
       \<exists>r'. noise_recv_raw X r = Inr (p, r') \<and> fst r' = rest \<and> linked t' (snd r')"
    using plain.delivered [of X p "(out, t)" "(out', t')" linked "([], rt)"] assms(1-3)
    by (auto simp: split_beta)
  from this(1) this(2) [of "(w @ rest, rt)" rest] show ?thesis using assms by auto
qed

lemma noise_raw_keeps:
  assumes "channel_ok X linked" "linked a b"
  shows "noise_send_raw X p (out, b) = Inr (out', b') \<Longrightarrow> linked a b'"
    "noise_recv_raw X (inp, a) = Inr (q, inp', a') \<Longrightarrow> linked a' b"
  using channel_keeps [OF assms] by (auto simp: noise_send_raw_def noise_recv_raw_def try_res_Inr)

section \<open>Properties\<close>

text \<open>C22: the two sides of the ML-KEM exchange derive the same key: when the initiator's run and the
  responder's run both end on linked transports and each reads what the other sent, the keys
  are equal, nothing of the later traffic is consumed, and the fresh connections are in step in
  both directions.\<close>

theorem session_keys_agree:
  assumes "channel_ok X linked" "aead_ok X" "kem_ok X" "linked ti tr" "linked tr ti"
    and "mlkem_initiator X si (br @ rest_i) out_i ti = Inr (ki, inp_i', out_i', ti')"
    and "mlkem_responder X sr (bi @ rest_r) out_r tr = Inr (kr, inp_r', out_r', tr')"
    and "sent out_i' = sent out_i @ bi" "sent out_r' = sent out_r @ br"
    and "into_split (start_conn ar (ki, inp_i', out_i', ti')) = (rdi, wi, ui)"
    and "into_split (start_conn ai (kr, inp_r', out_r', tr')) = (rdr, wr, ur)"
  shows "ki = kr \<and> inp_i' = rest_i \<and> inp_r' = rest_r
    \<and> hybrid_step X linked (wi, ui) (rdr, ur) \<and> hybrid_step X linked (wr, ur) (rdi, ui)"
proof -
  obtain dk ek out1 t1 ct ssi where i: "kem_generate X si = (dk, ek)"
    "noise_send_raw X ek (out_i, ti) = Inr (out_i', t1)"
    "noise_recv_raw X (br @ rest_i, t1) = Inr (ct, inp_i', ti')"
    "kem_decapsulate X dk ct = Some ssi" "derive_pq_key X ssi = Inr ki"
    using assms(6) by (auto simp: mlkem_initiator_def try_res_Inr split: prod.splits)
  obtain ek' u1 ct' ssr where r: "noise_recv_raw X (bi @ rest_r, tr) = Inr (ek', inp_r', u1)"
    "kem_encapsulate X sr ek' = Some (ct', ssr)"
    "noise_send_raw X ct' (out_r, u1) = Inr (out_r', tr')" "derive_pq_key X ssr = Inr kr"
    using assms(7) by (auto simp: mlkem_responder_def try_res_Inr)
  have to_r: "ek' = ek" "inp_r' = rest_r" "linked t1 u1"
    using noise_frame_delivered [OF assms(1,4) i(2) assms(8) r(1)] by auto
  have "linked u1 t1"
    by (rule noise_raw_keeps(2) [OF assms(1) noise_raw_keeps(1) [OF assms(1,5) i(2)] r(1)])
  then have to_i: "ct = ct'" "inp_i' = rest_i" "linked tr' ti'"
    using noise_frame_delivered [OF assms(1) _ r(3) assms(9) i(3)] by auto
  have "linked ti' tr'"
    by (rule noise_raw_keeps(1) [OF assms(1) noise_raw_keeps(2) [OF assms(1) to_r(3) i(3)] r(3)])
  moreover have "ssi = ssr" using assms(3) i(1,4) r(2) to_i(1) to_r(1) unfolding kem_ok_def by fastforce
  then have "ki = kr" using i(5) r(4) by simp
  ultimately show ?thesis
    using assms(1,2,10,11) to_i to_r by (auto simp: into_split_def start_conn_def hybrid_step_def)
qed

text \<open>C21: a payload of any length crosses the channel whole: the frames \<open>send_raw\<close> writes for it, read
  one by one by \<open>recv_raw\<close> on a receiver in step, give non-empty pieces that add up to the
  payload, leave the bytes that follow, and sender and receiver stay in step.\<close>

theorem hybrid_frames_deliver_payload:
  assumes "hybrid_step X linked (w, t) (r0, t0)" "send_raw X p (w, t) = Inr (w', t')"
  shows "\<exists>bs cs. sent (wr_out w') = sent (wr_out w) @ bs \<and> concat cs = p \<and> [] \<notin> set cs
    \<and> (\<forall>r u rest. hybrid_step X linked (w, t) (r, u) \<and> rd_bytes r = bs @ rest \<longrightarrow>
         (\<exists>r' u'. get_all (recv_raw X) (length cs) (r, u) = Inr (cs, r', u') \<and> rd_bytes r' = rest
            \<and> hybrid_step X linked (w', t') (r', u')))"
proof -
  let ?cs = "chunks CHUNK p"
  have "put_all (send_chunk X) ?cs (w, t) = Inr (w', t')"
    using assms(2) by (simp add: send_raw_def send_loop_chunks)
  from hybrid.all_delivered [OF this assms(1)] obtain bs where
    bs: "sent (wr_out w') = sent (wr_out w) @ bs"
    "\<And>r u rest. hybrid_step X linked (w, t) (r, u) \<Longrightarrow> rd_bytes r = bs @ rest \<Longrightarrow>
       \<exists>r' u'. get_all (recv_raw X) (length ?cs) (r, u) = Inr (?cs, r', u') \<and> rd_bytes r' = rest
          \<and> hybrid_step X linked (w', t') (r', u')" by auto
  moreover have "concat ?cs = p" by (rule concat_chunks) (simp add: CHUNK_def)
  moreover have "[] \<notin> set (chunks n xs)" for n and xs :: bytes
    by (induction n xs rule: chunks.induct) (subst chunks.simps, auto)
  ultimately show ?thesis by (intro exI [of _ bs] exI [of _ ?cs]) blast
qed

section \<open>A concrete session\<close>

text \<open>A library without secrecy that keeps the contracts, and runs of both sides on it.\<close>

definition demo_noise_lib :: "(unit, unit, unit, bytes) noise_lib" where
  "demo_noise_lib =
     \<lparr>lib_keypair = (\<lambda>_. Inr ()), hs_initiator = Inr, hs_responder = Inr, hs_finished = (\<lambda>_. True),
      hs_my_turn = (\<lambda>_. True), hs_write = (\<lambda>_ _ _. Inr ([], ())), hs_read = (\<lambda>_ _ _. Inr ([], ())),
      hs_transport = Inr,
      tr_write = (\<lambda>pt cap t. if length pt + 16 \<le> min cap 65535 then Inr (pt @ replicate 16 0, t) else Inl ''input''),
      tr_read = (\<lambda>ct cap t. if 16 \<le> length ct then Inr (take (length ct - 16) ct, t) else Inl ''decrypt''),
      lib_hkdf = (\<lambda>ikm info n. Some (take n (ikm @ replicate n 0))),
      lib_aead_encrypt = (\<lambda>k n p. Some (p @ replicate 16 0)),
      lib_aead_decrypt = (\<lambda>k n c. if 16 \<le> length c then Some (take (length c - 16) c) else None),
      kem_generate = (\<lambda>s. (s, s)), kem_encapsulate = (\<lambda>s ek. Some (s, ek @ s)),
      kem_decapsulate = (\<lambda>dk ct. Some (dk @ ct))\<rparr>"

lemma demo_noise_ok:
  "channel_ok demo_noise_lib (\<lambda>_ _. True)" "aead_ok demo_noise_lib" "kem_ok demo_noise_lib"
  by (auto simp: channel_ok_def aead_ok_def kem_ok_def demo_noise_lib_def split: if_splits)

definition demo_out :: tcp_out where "demo_out = \<lparr>sent = [], is_open = True\<rparr>"

definition demo_frame :: "bytes \<Rightarrow> bytes" where
  "demo_frame p = u32_be (word_of_nat (length p + 16)) @ p @ replicate 16 0"

lemma demo_noise_send:
  "length p \<le> 100 \<Longrightarrow> noise_send_raw demo_noise_lib p (demo_out, ()) = Inr (\<lparr>sent = demo_frame p, is_open = True\<rparr>, ())"
  by (simp add: noise_send_raw_def demo_noise_lib_def write_all_def demo_out_def demo_frame_def)

lemma demo_noise_recv: "length p \<le> 100 \<Longrightarrow> noise_recv_raw demo_noise_lib (demo_frame p, ()) = Inr (p, [], ())"
  using read_frame_written [of "p @ replicate 16 0" "[]"]
  by (simp add: noise_recv_raw_def demo_frame_def) (simp add: demo_noise_lib_def)

lemma demo_kem:
  "mlkem_initiator demo_noise_lib [1] (demo_frame [2]) demo_out () =
     Inr ([1, 2] @ replicate 30 0, [], \<lparr>sent = demo_frame [1], is_open = True\<rparr>, ())"
  "mlkem_responder demo_noise_lib [2] (demo_frame [1]) demo_out () =
     Inr ([1, 2] @ replicate 30 0, [], \<lparr>sent = demo_frame [2], is_open = True\<rparr>, ())"
proof -
  have "kem_generate demo_noise_lib [1] = ([1], [1])" "kem_decapsulate demo_noise_lib [1] [2] = Some [1, 2]"
    "kem_encapsulate demo_noise_lib [2] [1] = Some ([2], [1, 2])"
    "derive_pq_key demo_noise_lib [1, 2] = Inr ([1, 2] @ replicate 30 0)"
    by (simp_all add: demo_noise_lib_def derive_pq_key_def)
  then show "mlkem_initiator demo_noise_lib [1] (demo_frame [2]) demo_out () =
     Inr ([1, 2] @ replicate 30 0, [], \<lparr>sent = demo_frame [1], is_open = True\<rparr>, ())"
    "mlkem_responder demo_noise_lib [2] (demo_frame [1]) demo_out () =
     Inr ([1, 2] @ replicate 30 0, [], \<lparr>sent = demo_frame [2], is_open = True\<rparr>, ())"
    by (simp_all add: mlkem_initiator_def mlkem_responder_def demo_noise_send demo_noise_recv)
qed

definition demo_initiator :: "unit noise_conn" where
  "demo_initiator = start_conn ''b'' ([1, 2] @ replicate 30 0, [], \<lparr>sent = demo_frame [1], is_open = True\<rparr>, ())"

definition demo_responder :: "unit noise_conn" where
  "demo_responder = start_conn ''a'' ([1, 2] @ replicate 30 0, [], \<lparr>sent = demo_frame [2], is_open = True\<rparr>, ())"

theorem session_keys_agree_witness:
  "case (into_split demo_initiator, into_split demo_responder) of ((rdi, wi, ui), (rdr, wr, ur)) \<Rightarrow>
     hybrid_step demo_noise_lib (\<lambda>_ _. True) (wi, ui) (rdr, ur)
     \<and> hybrid_step demo_noise_lib (\<lambda>_ _. True) (wr, ur) (rdi, ui)"
proof -
  obtain rdi wi ui rdr wr ur where sp: "into_split demo_initiator = (rdi, wi, ui)"
    "into_split demo_responder = (rdr, wr, ur)" by (metis prod.exhaust)
  have runs: "mlkem_initiator demo_noise_lib [1] (demo_frame [2] @ []) demo_out () =
      Inr ([1, 2] @ replicate 30 0, [], \<lparr>sent = demo_frame [1], is_open = True\<rparr>, ())"
    "mlkem_responder demo_noise_lib [2] (demo_frame [1] @ []) demo_out () =
      Inr ([1, 2] @ replicate 30 0, [], \<lparr>sent = demo_frame [2], is_open = True\<rparr>, ())"
    using demo_kem by simp_all
  have sn: "sent \<lparr>sent = demo_frame p, is_open = True\<rparr> = sent demo_out @ demo_frame p" for p
    by (simp add: demo_out_def)
  show ?thesis
    using session_keys_agree [OF demo_noise_ok TrueI TrueI runs sn sn sp [unfolded demo_initiator_def demo_responder_def]]
    by (simp add: sp)
qed

lemma length_chunks: "c \<in> set (chunks n xs) \<Longrightarrow> length c \<le> n"
  by (induction n xs rule: chunks.induct) (subst (asm) (2) chunks.simps, auto split: if_splits)

lemma demo_send:
  assumes "tr_write X = tr_write demo_noise_lib" "lib_aead_encrypt X = lib_aead_encrypt demo_noise_lib"
    and "is_open (wr_out w)"
  shows "\<exists>w'. send_raw X p (w, ()) = Inr (w', ())"
proof -
  have "\<exists>w'. put_all (send_chunk X) cs (w, ()) = Inr (w', ())"
    if "\<forall>c\<in>set cs. length c \<le> CHUNK" "is_open (wr_out w)" for cs w
    using that
  proof (induction cs arbitrary: w)
    case (Cons c cs)
    then obtain w1 where "send_chunk X c (w, ()) = Inr (w1, ())" "is_open (wr_out w1)"
      by (simp add: send_chunk_def pq_encrypt_def assms(1,2) demo_noise_lib_def NOISE_MAX_PLAINTEXT_def write_all_def
          CHUNK_def)
    with Cons show ?case by simp
  qed simp
  then show ?thesis
    unfolding send_raw_def send_loop_chunks drop_0 using assms(3) length_chunks by blast
qed

theorem hybrid_frames_deliver_payload_witness:
  "\<exists>w' bs cs. send_raw demo_noise_lib [7, 8, 9] (\<lparr>wr_out = demo_out, wr_key = [], send_counter = 0\<rparr>, ()) = Inr (w', ())
     \<and> sent (wr_out w') = bs \<and> concat cs = [7, 8, 9]
     \<and> (\<exists>r' u'. get_all (recv_raw demo_noise_lib) (length cs) (\<lparr>rd_bytes = bs, rd_key = [], recv_counter = 0\<rparr>, ()) =
          Inr (cs, r', u'))"
proof -
  let ?w = "\<lparr>wr_out = demo_out, wr_key = [], send_counter = 0\<rparr>"
  let ?r = "\<lambda>bs. \<lparr>rd_bytes = bs, rd_key = [], recv_counter = 0\<rparr>"
  obtain w' where w': "send_raw demo_noise_lib [7, 8, 9] (?w, ()) = Inr (w', ())"
    using demo_send [OF refl refl, of ?w "[7, 8, 9]"] by (auto simp: demo_out_def)
  have st: "hybrid_step demo_noise_lib (\<lambda>_ _. True) (?w, ()) (?r bs, ())" for bs
    using demo_noise_ok by (simp add: hybrid_step_def)
  obtain bs cs where "sent (wr_out w') = sent (wr_out ?w) @ bs" "concat cs = [7, 8, 9]"
    "\<exists>r' u'. get_all (recv_raw demo_noise_lib) (length cs) (?r bs, ()) = Inr (cs, r', u')"
    using hybrid_frames_deliver_payload [OF st w'] st by (metis append_Nil2 noise_reader.select_convs(1))
  then show ?thesis using w' by (auto simp: demo_out_def)
qed

end
