(* ===== verification/Peer_Conn.thy ===== *)
theory Peer_Conn
  imports Noise Protocol
begin

text \<open>
  Peer connections (\<open>src/network/peer.rs\<close>): messages as JSON over the encrypted transport, whole
  or split into a reading and a writing half, and the plain length-prefixed form. JSON
  encoding of messages extends the transport's library record; opening the TCP stream is an
  argument.
\<close>

record ('k, 'h, 't, 'dk) peer_lib = "('k, 'h, 't, 'dk) noise_lib" +
  msg_to_vec :: "message \<Rightarrow> string + bytes"
  msg_from_slice :: "bytes \<Rightarrow> string + message"

definition MAX_MSG_SIZE :: nat where "MAX_MSG_SIZE = NOISE_MAX_MESSAGE"

record 't peer =
  peer_addr :: string
  peer_conn :: "'t noise_conn"

record peer_reader =
  reader_addr :: string
  reader_conn :: noise_reader

record peer_writer =
  writer_addr :: string
  writer_conn :: noise_writer

text \<open>
  \<open>connect\<close> and \<open>from_stream\<close>, given the stream (\<open>None\<close> for a failed \<open>TcpStream::connect\<close>) and the
  randomness of the static key and of the exchange.
\<close>

definition peer_connect ::
  "('k, 'h, 't, 'dk, 'x) noise_lib_scheme \<Rightarrow> bytes \<Rightarrow> bytes \<Rightarrow> (bytes \<times> tcp_out) option \<Rightarrow> string
    \<Rightarrow> (noise_err + 't peer) option" where
  "peer_connect X rk re stream addr =
     (case stream of
        None \<Rightarrow> Some (Inl NoiseIo)
      | Some (inp, out) \<Rightarrow>
          (case generate_keypair X rk of
             Inl e \<Rightarrow> Some (Inl e)
           | Inr keypair \<Rightarrow>
               map_option (\<lambda>res. try_res res (\<lambda>conn. Inr \<lparr>peer_addr = addr, peer_conn = conn\<rparr>))
                 (noise_connect X re inp out addr keypair)))"

definition peer_from_stream ::
  "('k, 'h, 't, 'dk, 'x) noise_lib_scheme \<Rightarrow> bytes \<Rightarrow> bytes \<Rightarrow> bytes \<times> tcp_out \<Rightarrow> string
    \<Rightarrow> (noise_err + 't peer) option" where
  "peer_from_stream X rk re stream addr =
     (case stream of (inp, out) \<Rightarrow>
        (case generate_keypair X rk of
           Inl e \<Rightarrow> Some (Inl e)
         | Inr keypair \<Rightarrow>
             map_option (\<lambda>res. try_res res (\<lambda>conn. Inr \<lparr>peer_addr = addr, peer_conn = conn\<rparr>))
               (noise_accept X re inp out keypair addr)))"

text \<open>The payload of a message, with the size check of \<open>send\<close> and \<open>write_message\<close>.\<close>

definition payload_of :: "('k, 'h, 't, 'dk, 'x) peer_lib_scheme \<Rightarrow> message \<Rightarrow> noise_err + bytes" where
  "payload_of X m =
     try_res (map_err NoiseJson (msg_to_vec X m)) (\<lambda>payload.
     if MAX_MSG_SIZE < length payload then Inl (MessageTooLarge (length payload)) else Inr payload)"

definition peer_send ::
  "('k, 'h, 't, 'dk, 'x) peer_lib_scheme \<Rightarrow> message \<Rightarrow> 't peer \<Rightarrow> noise_err + 't peer" where
  "peer_send X m p =
     try_res (payload_of X m) (\<lambda>payload.
     try_res (conn_send_raw X payload (peer_conn p)) (\<lambda>c. Inr (p\<lparr>peer_conn := c\<rparr>)))"

definition peer_recv ::
  "('k, 'h, 't, 'dk, 'x) peer_lib_scheme \<Rightarrow> 't peer \<Rightarrow> noise_err + message \<times> 't peer" where
  "peer_recv X p =
     try_res (conn_recv_raw X (peer_conn p)) (\<lambda>(plaintext, c).
     try_res (map_err NoiseJson (msg_from_slice X plaintext)) (\<lambda>m. Inr (m, p\<lparr>peer_conn := c\<rparr>)))"

definition peer_into_split :: "'t peer \<Rightarrow> peer_reader \<times> peer_writer \<times> 't" where
  "peer_into_split p =
     (case into_split (peer_conn p) of (r, w, t) \<Rightarrow>
        (\<lparr>reader_addr = peer_addr p, reader_conn = r\<rparr>, \<lparr>writer_addr = peer_addr p, writer_conn = w\<rparr>, t))"

definition reader_recv ::
  "('k, 'h, 't, 'dk, 'x) peer_lib_scheme \<Rightarrow> peer_reader \<times> 't \<Rightarrow> noise_err + message \<times> peer_reader \<times> 't" where
  "reader_recv X pt =
     (case pt of (p, t) \<Rightarrow>
        try_res (recv_raw X (reader_conn p, t)) (\<lambda>(plaintext, r, t').
        try_res (map_err NoiseJson (msg_from_slice X plaintext)) (\<lambda>m. Inr (m, p\<lparr>reader_conn := r\<rparr>, t'))))"

definition writer_send ::
  "('k, 'h, 't, 'dk, 'x) peer_lib_scheme \<Rightarrow> message \<Rightarrow> peer_writer \<times> 't \<Rightarrow> noise_err + peer_writer \<times> 't" where
  "writer_send X m pt =
     (case pt of (p, t) \<Rightarrow>
        try_res (payload_of X m) (\<lambda>payload.
        try_res (send_raw X payload (writer_conn p, t)) (\<lambda>(w, t'). Inr (p\<lparr>writer_conn := w\<rparr>, t'))))"

definition write_message ::
  "('k, 'h, 't, 'dk, 'x) peer_lib_scheme \<Rightarrow> message \<Rightarrow> tcp_out \<Rightarrow> noise_err + tcp_out" where
  "write_message X m out =
     try_res (payload_of X m) (\<lambda>payload.
     try_res (write_all (u32_be (word_of_nat (length payload))) out) (\<lambda>o1. write_all payload o1))"

definition read_message ::
  "('k, 'h, 't, 'dk, 'x) peer_lib_scheme \<Rightarrow> bytes \<Rightarrow> noise_err + message \<times> bytes" where
  "read_message X inp =
     try_res (read_exact 4 inp) (\<lambda>(len_buf, inp1).
     let len = unat (u32_of_be len_buf) in
     if MAX_MSG_SIZE < len then Inl (MessageTooLarge len)
     else
       try_res (read_exact len inp1) (\<lambda>(buf, rest).
       try_res (map_err NoiseJson (msg_from_slice X buf)) (\<lambda>m. Inr (m, rest))))"

section \<open>Delivery\<close>

text \<open>
  The contract of the JSON encoding: reading inverts writing, and a truncated text is an error.
\<close>

definition json_ok :: "('k, 'h, 't, 'dk, 'x) peer_lib_scheme \<Rightarrow> bool" where
  "json_ok X \<longleftrightarrow> (\<forall>m b. msg_to_vec X m = Inr b \<longrightarrow> b \<noteq> [] \<and> msg_from_slice X b = Inr m
     \<and> (\<forall>n < length b. \<exists>e. msg_from_slice X (take n b) = Inl e))"

lemma plain_message_roundtrip:
  assumes "json_ok X" "write_message X m out = Inr out'"
  shows "\<exists>bs. sent out' = sent out @ bs \<and> (\<forall>rest. read_message X (bs @ rest) = Inr (m, rest))"
proof -
  obtain b o1 where b: "msg_to_vec X m = Inr b" "length b \<le> MAX_MSG_SIZE"
    "write_all (u32_be (word_of_nat (length b))) out = Inr o1" "write_all b o1 = Inr out'"
    using assms(2) by (auto simp: write_message_def payload_of_def try_res_Inr split: if_splits)
  have "unat (word_of_nat (length b) :: u32) = length b"
    using b(2) by (simp add: unat_of_nat MAX_MSG_SIZE_def NOISE_MAX_MESSAGE_def)
  moreover have "msg_from_slice X b = Inr m" using assms(1) b(1) by (auto simp: json_ok_def)
  ultimately show ?thesis
    using b(2) write_frame [OF b(3,4)]
    by (intro exI [of _ "u32_be (word_of_nat (length b)) @ b"]) (simp add: read_message_def read_exact_def)
qed

text \<open>C38: a message sent over the encrypted transport is received as that message exactly when its
  JSON text fits one frame, 65471 bytes: \<open>send\<close> splits a longer text, up to its limit of 32 MB,
  into several frames, but \<open>recv\<close> parses the first frame alone.\<close>

theorem message_received_iff_one_frame:
  assumes "json_ok X" "hybrid_step X linked (writer_conn w, t) (reader_conn r, u)"
    and "writer_send X m (w, t) = Inr (w', t')" "msg_to_vec X m = Inr b"
    and "sent (wr_out (writer_conn w')) = sent (wr_out (writer_conn w)) @ bs"
    and "rd_bytes (reader_conn r) = bs @ rest"
  shows "(\<exists>r' u'. reader_recv X (r, u) = Inr (m, r', u') \<and> rd_bytes (reader_conn r') = rest)
     \<longleftrightarrow> length b \<le> 65471"
proof -
  have b: "b \<noteq> []" "msg_from_slice X b = Inr m"
    "n < length b \<Longrightarrow> \<exists>e. msg_from_slice X (take n b) = Inl e" for n
    using assms(1,4) by (auto simp: json_ok_def)
  obtain ww where ww: "send_raw X b (writer_conn w, t) = Inr (ww, t')" "w' = w\<lparr>writer_conn := ww\<rparr>"
    using assms(3,4) by (auto simp: writer_send_def payload_of_def try_res_Inr split: if_splits)
  obtain cs where cs: "chunks CHUNK b = take CHUNK b # cs"
    using b(1) by (subst (asm) chunks.simps) (simp add: CHUNK_def)
  have "put_all (send_chunk X) (chunks CHUNK b) (writer_conn w, t) = Inr (ww, t')"
    using ww(1) by (simp add: send_raw_def send_loop_chunks)
  from hybrid.all_delivered [OF this assms(2)] assms(2,5,6) ww(2) obtain rs us where
    "get_all (recv_raw X) (length (chunks CHUNK b)) (reader_conn r, u) = Inr (chunks CHUNK b, rs, us)"
    "rd_bytes rs = rest" by fastforce
  then obtain r1 u1 where first: "recv_raw X (reader_conn r, u) = Inr (take CHUNK b, r1, u1)"
    and others: "get_all (recv_raw X) (length cs) (r1, u1) = Inr (cs, rs, us)"
    unfolding cs by (auto simp: try_res_Inr)
  show ?thesis
  proof (cases "length b \<le> CHUNK")
    case True
    then have "cs = []" using cs b(1) chunks_small [of CHUNK b] by (simp add: CHUNK_def)
    with others \<open>rd_bytes rs = rest\<close> have "rd_bytes r1 = rest" by simp
    with True first b(2) show ?thesis by (simp add: reader_recv_def CHUNK_def)
  next
    case False
    then obtain e where "msg_from_slice X (take CHUNK b) = Inl e" using b(3) [of CHUNK] by auto
    with False first show ?thesis by (simp add: reader_recv_def CHUNK_def)
  qed
qed

text \<open>A small and a large message: an empty one, and a text of 70000 bytes.\<close>

definition demo_text :: "message \<Rightarrow> bytes" where
  "demo_text m = (if m = Verack then [1] else replicate 70000 2)"

definition demo_peer_lib :: "(unit, unit, unit, bytes) peer_lib" where
  "demo_peer_lib = noise_lib.extend demo_noise_lib
     \<lparr>msg_to_vec = (\<lambda>m. if m = Verack \<or> m = Ping 0 then Inr (demo_text m) else Inl ''unsupported''),
      msg_from_slice = (\<lambda>b. if b = demo_text Verack then Inr Verack
        else if b = demo_text (Ping 0) then Inr (Ping 0) else Inl ''EOF'')\<rparr>"

lemma demo_peer_json: "json_ok demo_peer_lib"
proof -
  have "replicate n (2 :: u8) \<noteq> [1]" for n
  proof
    assume "replicate n (2 :: u8) = [1]"
    then have "1 \<in> set (replicate n (2 :: u8))" by simp
    then show False by (simp add: in_set_replicate)
  qed
  moreover have "take n [1 :: u8] \<noteq> replicate 70000 2" for n
  proof -
    have "length (take n [1 :: u8]) \<noteq> length (replicate 70000 (2 :: u8))" by simp
    then show ?thesis by metis
  qed
  moreover have "n < 70000 \<Longrightarrow> take n (replicate 70000 (2 :: u8)) \<noteq> replicate 70000 2" for n
    by (metis length_replicate length_take min.absorb4 nat_neq_iff)
  ultimately show ?thesis
    by (auto simp: json_ok_def demo_peer_lib_def noise_lib.defs demo_text_def)
qed

definition demo_writer :: peer_writer where
  "demo_writer = \<lparr>writer_addr = ''a'', writer_conn = \<lparr>wr_out = demo_out, wr_key = [], send_counter = 0\<rparr>\<rparr>"

definition demo_reader :: "bytes \<Rightarrow> peer_reader" where
  "demo_reader bs = \<lparr>reader_addr = ''b'', reader_conn = \<lparr>rd_bytes = bs, rd_key = [], recv_counter = 0\<rparr>\<rparr>"

lemma demo_peer_fields:
  "tr_write demo_peer_lib = tr_write demo_noise_lib" "tr_read demo_peer_lib = tr_read demo_noise_lib"
  "lib_aead_encrypt demo_peer_lib = lib_aead_encrypt demo_noise_lib"
  "lib_aead_decrypt demo_peer_lib = lib_aead_decrypt demo_noise_lib"
  by (simp_all add: demo_peer_lib_def noise_lib.defs)

lemma demo_peer_step:
  "hybrid_step demo_peer_lib (\<lambda>_ _. True) (writer_conn demo_writer, ()) (reader_conn (demo_reader bs), ())"
proof -
  have "channel_ok demo_peer_lib l = channel_ok demo_noise_lib l" "aead_ok demo_peer_lib = aead_ok demo_noise_lib" for l
    by (simp_all only: channel_ok_def aead_ok_def demo_peer_fields)
  then show ?thesis
    using demo_noise_ok(1,2) by (simp add: hybrid_step_def demo_writer_def demo_reader_def)
qed

theorem message_received_iff_one_frame_witness:
  "\<exists>w' w'' bs cs. writer_send demo_peer_lib Verack (demo_writer, ()) = Inr (w', ())
     \<and> (\<exists>r' u'. reader_recv demo_peer_lib (demo_reader bs, ()) = Inr (Verack, r', u'))
     \<and> writer_send demo_peer_lib (Ping 0) (demo_writer, ()) = Inr (w'', ())
     \<and> sent (wr_out (writer_conn w'')) = cs
     \<and> \<not> (\<exists>r' u'. reader_recv demo_peer_lib (demo_reader cs, ()) = Inr (Ping 0, r', u') \<and> rd_bytes (reader_conn r') = [])"
proof -
  have tv: "msg_to_vec demo_peer_lib Verack = Inr [1]" "msg_to_vec demo_peer_lib (Ping 0) = Inr (replicate 70000 2)"
    by (simp_all add: demo_peer_lib_def noise_lib.defs demo_text_def)
  have op: "is_open (wr_out (writer_conn demo_writer))" by (simp add: demo_writer_def demo_out_def)
  have snd: "\<exists>w'. writer_send demo_peer_lib m (demo_writer, ()) = Inr (w', ())"
    if "msg_to_vec demo_peer_lib m = Inr b" "length b \<le> 70000" for m b
    using demo_send [OF demo_peer_fields(1,3) op, of b] that
    by (auto simp: writer_send_def payload_of_def MAX_MSG_SIZE_def NOISE_MAX_MESSAGE_def)
  obtain w' w'' where w: "writer_send demo_peer_lib Verack (demo_writer, ()) = Inr (w', ())"
    "writer_send demo_peer_lib (Ping 0) (demo_writer, ()) = Inr (w'', ())"
    using snd [OF tv(1)] snd [OF tv(2)] by auto
  have recv: "(\<exists>r' u'. reader_recv demo_peer_lib (demo_reader (sent (wr_out (writer_conn w)) @ []), ()) = Inr (m, r', u')
       \<and> rd_bytes (reader_conn r') = []) \<longleftrightarrow> length b \<le> 65471"
    if "writer_send demo_peer_lib m (demo_writer, ()) = Inr (w, ())" "msg_to_vec demo_peer_lib m = Inr b" for m w b
    by (rule message_received_iff_one_frame [OF demo_peer_json demo_peer_step that])
      (simp_all add: demo_writer_def demo_out_def demo_reader_def)
  show ?thesis
    using w recv [OF w(1) tv(1)] recv [OF w(2) tv(2)]
    by (intro exI [of _ w'] exI [of _ w''] exI [of _ "sent (wr_out (writer_conn w'))"]
        exI [of _ "sent (wr_out (writer_conn w''))"]) auto
qed

end
