(* ===== verification/Discovery.thy ===== *)
theory Discovery
  imports Prelude
begin

text \<open>
  Peer discovery (\<open>src/network/discovery.rs\<close>): addresses from DNS seeds and a fixed list. The
  system resolver is an argument: for a name and port, the addresses as text, or \<open>None\<close>.
\<close>

definition P2P_PORT :: u16 where "P2P_PORT = 8333"

definition BOOTSTRAP_PEERS :: "string list" where
  "BOOTSTRAP_PEERS = [''seed.arkosquantum.com:8333'', ''seed2.arkosquantum.com:8333'']"

definition DEFAULT_DNS_SEEDS :: "string list" where
  "DEFAULT_DNS_SEEDS = [''seed.arkosquantum.com'', ''seed2.arkosquantum.com'']"

definition resolve_dns_seed :: "(string \<Rightarrow> string list option) \<Rightarrow> string \<Rightarrow> string list" where
  "resolve_dns_seed resolver host =
     (case resolver (host @ '':'' @ show_nat (unat P2P_PORT)) of
        Some peers \<Rightarrow> peers
      | None \<Rightarrow> [])"

definition push_new :: "'a \<Rightarrow> 'a list \<Rightarrow> 'a list" where
  "push_new x xs = (if x \<in> set xs then xs else xs @ [x])"

definition collect_bootstrap_peers :: "(string \<Rightarrow> string list option) \<Rightarrow> string list \<Rightarrow> string list" where
  "collect_bootstrap_peers resolver extra_seeds =
     (let peers = fold (\<lambda>seed ps. fold push_new (resolve_dns_seed resolver seed) ps)
                    (DEFAULT_DNS_SEEDS @ extra_seeds) []
      in fold push_new BOOTSTRAP_PEERS peers)"

lemma push_all:
  "distinct xs \<Longrightarrow> distinct (fold push_new ys xs)" "set (fold push_new ys xs) = set xs \<union> set ys"
  by (induction ys arbitrary: xs) (auto simp: push_new_def)

text \<open>The list has no duplicates and is exactly what the seeds resolve to and the fixed peers.\<close>

lemma collected_peers:
  "distinct (collect_bootstrap_peers resolver extra)"
  "set (collect_bootstrap_peers resolver extra) =
     (\<Union>seed\<in>set (DEFAULT_DNS_SEEDS @ extra). set (resolve_dns_seed resolver seed)) \<union> set BOOTSTRAP_PEERS"
proof -
  let ?f = "\<lambda>seed ps. fold push_new (resolve_dns_seed resolver seed) ps"
  have d: "distinct ps \<Longrightarrow> distinct (fold ?f seeds ps)" for seeds ps
    by (induction seeds arbitrary: ps) (simp_all add: push_all)
  have s: "set (fold ?f seeds ps) = set ps \<union> (\<Union>seed\<in>set seeds. set (resolve_dns_seed resolver seed))" for seeds ps
    by (induction seeds arbitrary: ps) (auto simp: push_all)
  show "distinct (collect_bootstrap_peers resolver extra)"
    unfolding collect_bootstrap_peers_def Let_def by (intro push_all d) simp
  show "set (collect_bootstrap_peers resolver extra) =
     (\<Union>seed\<in>set (DEFAULT_DNS_SEEDS @ extra). set (resolve_dns_seed resolver seed)) \<union> set BOOTSTRAP_PEERS"
    unfolding collect_bootstrap_peers_def Let_def push_all(2) s by simp
qed

end
