(* ===== verification/Vault.thy ===== *)
theory Vault
  imports Files
begin

text \<open>
  The key vault (\<open>src/security/vault.rs\<close>): key material encrypted under a key derived from a
  passphrase. Argon2, AES-GCM, base64 and the JSON encodings are a library record; the outcomes
  of operations on files, the clock and the random bytes are arguments. A panic is \<open>None\<close>.
\<close>

section \<open>Model\<close>

record vault_contents =
  secret_keys :: "string list"
  labels :: "string list"
  created_at :: u64

record vault_file =
  vault_version :: u32
  argon2_salt :: string
  vault_nonce :: string
  ciphertext :: string
  passphrase_hash :: string

text \<open>
  \<open>lib_phc_new\<close> reads the text of a password hash, \<open>lib_verify\<close> checks a passphrase against it.
\<close>

record 'h vault_lib =
  lib_kdf :: "bytes \<Rightarrow> bytes \<Rightarrow> bytes option"
  lib_gcm_encrypt :: "bytes \<Rightarrow> bytes \<Rightarrow> bytes \<Rightarrow> string + bytes"
  lib_gcm_decrypt :: "bytes \<Rightarrow> bytes \<Rightarrow> bytes \<Rightarrow> bytes option"
  lib_salt_string :: "bytes \<Rightarrow> string + string"
  lib_hash_password :: "bytes \<Rightarrow> string \<Rightarrow> string + string"
  lib_phc_new :: "string \<Rightarrow> string + 'h"
  lib_verify :: "bytes \<Rightarrow> 'h \<Rightarrow> bool"
  lib_b64_encode :: "bytes \<Rightarrow> string"
  lib_b64_decode :: "string \<Rightarrow> string + bytes"
  contents_to_vec :: "vault_contents \<Rightarrow> string + bytes"
  contents_from_slice :: "bytes \<Rightarrow> string + vault_contents"
  file_to_string :: "vault_file \<Rightarrow> string + string"
  file_from_str :: "string \<Rightarrow> string + vault_file"

datatype vault_err =
    PassphraseTooShort
  | VaultJson string
  | EncryptionFailed string
  | SaltEncode string
  | HashFailed string
  | VaultIo
  | UnsupportedVersion u32
  | InvalidHash string
  | WrongPassphrase
  | VaultBase64 string
  | DecryptionFailed

text \<open>\<open>derive_key\<close> panics when the key derivation refuses its input; a nonce must have 12 bytes.\<close>

definition derive_key :: "'h vault_lib \<Rightarrow> bytes \<Rightarrow> bytes \<Rightarrow> bytes option" where
  "derive_key X passphrase salt = lib_kdf X passphrase salt"

definition nonce_from_slice :: "bytes \<Rightarrow> bytes option" where
  "nonce_from_slice b = (if length b = 12 then Some b else None)"

text \<open>The encryption, the password hash and the text of the file.\<close>

definition seal_vault :: "'h vault_lib \<Rightarrow> bytes \<Rightarrow> bytes \<Rightarrow> bytes \<Rightarrow> string \<Rightarrow> bytes \<Rightarrow> vault_err + string" where
  "seal_vault X enc_key salt nonce passphrase plaintext =
     try_res (map_err EncryptionFailed (lib_gcm_encrypt X enc_key nonce plaintext)) (\<lambda>ct.
     try_res (map_err SaltEncode (lib_salt_string X salt)) (\<lambda>salt_string.
     try_res (map_err HashFailed (lib_hash_password X (as_bytes passphrase) salt_string)) (\<lambda>pass_hash.
     map_err VaultJson (file_to_string X
       \<lparr>vault_version = 1, argon2_salt = lib_b64_encode X salt, vault_nonce = lib_b64_encode X nonce,
        ciphertext = lib_b64_encode X ct, passphrase_hash = pass_hash\<rparr>))))"

definition create_vault ::
  "'h vault_lib \<Rightarrow> u64 \<Rightarrow> bytes \<Rightarrow> bytes \<Rightarrow> write_outcome \<Rightarrow> bool \<Rightarrow> nat \<Rightarrow> string \<Rightarrow> string list \<Rightarrow> string list \<Rightarrow> string \<Rightarrow> files
    \<Rightarrow> (files, vault_err, unit) st_result option" where
  "create_vault X now salt nonce_b wr chmod_ok umode passphrase keys labs path fs =
     (if length (as_bytes passphrase) < 12 then Some (Inl PassphraseTooShort, fs)
      else
        case contents_to_vec X \<lparr>secret_keys = keys, labels = labs, created_at = now\<rparr> of
          Inl e \<Rightarrow> Some (Inl (VaultJson e), fs)
        | Inr plaintext \<Rightarrow>
            (case derive_key X (as_bytes passphrase) salt of
               None \<Rightarrow> None
             | Some enc_key \<Rightarrow>
                 (case nonce_from_slice nonce_b of
                    None \<Rightarrow> None
                  | Some nonce \<Rightarrow>
                      Some (case seal_vault X enc_key salt nonce passphrase plaintext of
                          Inl e \<Rightarrow> (Inl e, fs)
                        | Inr json \<Rightarrow>
                            (case fs_write wr umode path json fs of
                               (written, fs1) \<Rightarrow>
                                 if \<not> written \<or> \<not> chmod_ok then (Inl VaultIo, fs1)
                                 else (Inr (), fs1(path \<mapsto> (json, 0x180))))))))"

definition open_vault :: "'h vault_lib \<Rightarrow> string \<Rightarrow> string \<Rightarrow> files \<Rightarrow> (vault_err + vault_contents) option" where
  "open_vault X passphrase path fs =
     (case try_res (ok_or VaultIo (fs path)) (\<lambda>(json, _).
           try_res (map_err VaultJson (file_from_str X json)) (\<lambda>vf.
           if vault_version vf \<noteq> 1 then Inl (UnsupportedVersion (vault_version vf))
           else
             try_res (map_err InvalidHash (lib_phc_new X (passphrase_hash vf))) (\<lambda>parsed_hash.
             if \<not> lib_verify X (as_bytes passphrase) parsed_hash then Inl WrongPassphrase
             else
               try_res (map_err VaultBase64 (lib_b64_decode X (argon2_salt vf))) (\<lambda>salt.
               try_res (map_err VaultBase64 (lib_b64_decode X (vault_nonce vf))) (\<lambda>nonce_b.
               try_res (map_err VaultBase64 (lib_b64_decode X (ciphertext vf))) (\<lambda>ct.
               Inr (salt, nonce_b, ct))))))) of
        Inl e \<Rightarrow> Some (Inl e)
      | Inr (salt, nonce_b, ct) \<Rightarrow>
          (case derive_key X (as_bytes passphrase) salt of
             None \<Rightarrow> None
           | Some enc_key \<Rightarrow>
               (case nonce_from_slice nonce_b of
                  None \<Rightarrow> None
                | Some nonce \<Rightarrow>
                    Some (try_res (ok_or DecryptionFailed (lib_gcm_decrypt X enc_key nonce ct)) (\<lambda>plaintext.
                          map_err VaultJson (contents_from_slice X plaintext))))))"

section \<open>Round trip\<close>

definition vault_lib_ok :: "'h vault_lib \<Rightarrow> bool" where
  "vault_lib_ok X \<longleftrightarrow>
     (\<forall>k n p c. lib_gcm_encrypt X k n p = Inr c \<longrightarrow> lib_gcm_decrypt X k n c = Some p)
   \<and> (\<forall>b. lib_b64_decode X (lib_b64_encode X b) = Inr b)
   \<and> (\<forall>c b. contents_to_vec X c = Inr b \<longrightarrow> contents_from_slice X b = Inr c)
   \<and> (\<forall>f s. file_to_string X f = Inr s \<longrightarrow> file_from_str X s = Inr f)
   \<and> (\<forall>p s h. lib_hash_password X p s = Inr h \<longrightarrow>
        (\<exists>ph. lib_phc_new X h = Inr ph \<and> (\<forall>q. lib_verify X q ph \<longleftrightarrow> q = p)))"

lemma vault_laws:
  assumes "vault_lib_ok X"
  shows "lib_gcm_encrypt X k n p = Inr c \<Longrightarrow> lib_gcm_decrypt X k n c = Some p"
    "lib_b64_decode X (lib_b64_encode X b) = Inr b"
    "contents_to_vec X v = Inr b \<Longrightarrow> contents_from_slice X b = Inr v"
    "file_to_string X f = Inr s \<Longrightarrow> file_from_str X s = Inr f"
    "lib_hash_password X p t = Inr h \<Longrightarrow> \<exists>ph. lib_phc_new X h = Inr ph \<and> (\<forall>q. lib_verify X q ph \<longleftrightarrow> q = p)"
  using assms by (simp_all add: vault_lib_ok_def)

lemma create_vault_Inr:
  assumes "create_vault X now salt nonce_b wr ch um passphrase keys labs path fs = Some (Inr (), fs')"
  obtains plaintext key ct salt_string h json where
    "contents_to_vec X \<lparr>secret_keys = keys, labels = labs, created_at = now\<rparr> = Inr plaintext"
    "derive_key X (as_bytes passphrase) salt = Some key" "length nonce_b = 12"
    "lib_gcm_encrypt X key nonce_b plaintext = Inr ct"
    "lib_hash_password X (as_bytes passphrase) salt_string = Inr h"
    "file_to_string X \<lparr>vault_version = 1, argon2_salt = lib_b64_encode X salt,
       vault_nonce = lib_b64_encode X nonce_b, ciphertext = lib_b64_encode X ct, passphrase_hash = h\<rparr> = Inr json"
    "fs' = fs(path \<mapsto> (json, 0x180))" "12 \<le> length (as_bytes passphrase)"
proof -
  have len: "\<not> length (as_bytes passphrase) < 12" using assms by (auto simp: create_vault_def)
  obtain plaintext where pt: "contents_to_vec X \<lparr>secret_keys = keys, labels = labs, created_at = now\<rparr> = Inr plaintext"
    using assms len by (auto simp: create_vault_def split: sum.splits)
  obtain key where key: "derive_key X (as_bytes passphrase) salt = Some key"
    using assms len pt by (auto simp: create_vault_def split: option.splits)
  have n: "length nonce_b = 12" "nonce_from_slice nonce_b = Some nonce_b"
    using assms len pt key by (auto simp: create_vault_def nonce_from_slice_def split: if_splits)
  obtain json where json: "seal_vault X key salt nonce_b passphrase plaintext = Inr json"
    using assms len pt key n by (auto simp: create_vault_def split: sum.splits)
  have "fs' = fs(path \<mapsto> (json, 0x180))"
    using assms len pt key n json
    by (auto simp: create_vault_def fs_write_def split: if_splits option.splits)
  then show ?thesis
    using that [OF pt key n(1)] json len by (auto simp: seal_vault_def try_res_Inr)
qed

lemma created_vault_opens:
  assumes "vault_lib_ok X"
    and "create_vault X now salt nonce_b wr ch um passphrase keys labs path fs = Some (Inr (), fs')"
  shows "open_vault X p path fs' = Some (if p = passphrase
      then Inr \<lparr>secret_keys = keys, labels = labs, created_at = now\<rparr> else Inl WrongPassphrase)
    \<and> (\<exists>json. fs' = fs(path \<mapsto> (json, 0x180))) \<and> 12 \<le> length (as_bytes passphrase)"
proof -
  obtain plaintext key ct salt_string h json where c:
    "contents_to_vec X \<lparr>secret_keys = keys, labels = labs, created_at = now\<rparr> = Inr plaintext"
    "derive_key X (as_bytes passphrase) salt = Some key" "length nonce_b = 12"
    "lib_gcm_encrypt X key nonce_b plaintext = Inr ct"
    "lib_hash_password X (as_bytes passphrase) salt_string = Inr h"
    "file_to_string X \<lparr>vault_version = 1, argon2_salt = lib_b64_encode X salt,
       vault_nonce = lib_b64_encode X nonce_b, ciphertext = lib_b64_encode X ct, passphrase_hash = h\<rparr> = Inr json"
    "fs' = fs(path \<mapsto> (json, 0x180))" "12 \<le> length (as_bytes passphrase)"
    by (rule create_vault_Inr [OF assms(2)])
  obtain ph where ph: "lib_phc_new X h = Inr ph" "\<And>q. lib_verify X q ph \<longleftrightarrow> q = as_bytes passphrase"
    using vault_laws(5) [OF assms(1) c(5)] by metis
  note laws = vault_laws(1) [OF assms(1) c(4)] vault_laws(2) [OF assms(1)] vault_laws(3) [OF assms(1) c(1)]
    vault_laws(4) [OF assms(1) c(6)]
  show ?thesis
    using c(2,3,7,8) by (auto simp: open_vault_def laws ph nonce_from_slice_def)
qed

text \<open>C24: a vault that was created opens with its passphrase and gives back the keys and labels put
  in, with the time of creation; every other passphrase is refused as wrong, before anything is
  decrypted. The file is readable by its owner alone, its passphrase has at least 12 bytes, and
  no other file changes.\<close>

theorem vault_roundtrip:
  assumes "vault_lib_ok X"
    and "create_vault X now salt nonce_b wr ch um passphrase keys labs path fs = Some (Inr (), fs')"
  shows "open_vault X p path fs' = Some (if p = passphrase
      then Inr \<lparr>secret_keys = keys, labels = labs, created_at = now\<rparr> else Inl WrongPassphrase)
    \<and> (\<exists>json. fs' = fs(path \<mapsto> (json, 0x180))) \<and> 12 \<le> length (as_bytes passphrase)"
  by (rule created_vault_opens [OF assms])

definition demo_vault_lib :: "vault_file \<Rightarrow> vault_contents \<Rightarrow> bytes vault_lib" where
  "demo_vault_lib f v =
     \<lparr>lib_kdf = (\<lambda>p s. Some s), lib_gcm_encrypt = (\<lambda>k n p. Inr p), lib_gcm_decrypt = (\<lambda>k n c. Some c),
      lib_salt_string = (\<lambda>s. Inr (from_utf8 s)), lib_hash_password = (\<lambda>p s. Inr (from_utf8 p)),
      lib_phc_new = (\<lambda>h. Inr (as_bytes h)), lib_verify = (\<lambda>p h. p = h),
      lib_b64_encode = from_utf8, lib_b64_decode = (\<lambda>s. Inr (as_bytes s)),
      contents_to_vec = (\<lambda>c. if c = v then Inr [1] else Inl ''e''), contents_from_slice = (\<lambda>b. Inr v),
      file_to_string = (\<lambda>x. if x = f then Inr ''f'' else Inl ''e''), file_from_str = (\<lambda>s. Inr f)\<rparr>"

theorem vault_roundtrip_witness:
  "\<exists>X :: bytes vault_lib. \<exists>fs'. create_vault X 5 (replicate 16 3) (replicate 12 4) None True 0x1a4 ''correct horse'' [''aa''] [''main''] ''v'' Map.empty =
       Some (Inr (), fs')
     \<and> open_vault X ''correct horse'' ''v'' fs' = Some (Inr \<lparr>secret_keys = [''aa''], labels = [''main''], created_at = 5\<rparr>)
     \<and> open_vault X ''wrong'' ''v'' fs' = Some (Inl WrongPassphrase)"
proof -
  define v where "v = \<lparr>secret_keys = [''aa''], labels = [''main''], created_at = 5\<rparr>"
  define f where "f = \<lparr>vault_version = 1, argon2_salt = from_utf8 (replicate 16 3), vault_nonce = from_utf8 (replicate 12 4),
    ciphertext = from_utf8 [1], passphrase_hash = from_utf8 (as_bytes ''correct horse'')\<rparr>"
  let ?X = "demo_vault_lib f v"
  have ok: "vault_lib_ok ?X" by (auto simp: vault_lib_ok_def demo_vault_lib_def as_bytes_from_utf8)
  have "\<exists>fs'. create_vault ?X 5 (replicate 16 3) (replicate 12 4) None True 0x1a4 ''correct horse'' [''aa''] [''main'']
      ''v'' Map.empty = Some (Inr (), fs')"
    by (simp add: create_vault_def seal_vault_def demo_vault_lib_def derive_key_def nonce_from_slice_def fs_write_def v_def f_def)
  then obtain fs' where c: "create_vault ?X 5 (replicate 16 3) (replicate 12 4) None True 0x1a4 ''correct horse'' [''aa'']
      [''main''] ''v'' Map.empty = Some (Inr (), fs')" by blast
  show ?thesis
    using c vault_roundtrip [OF ok c, of "''correct horse''"] vault_roundtrip [OF ok c, of "''wrong''"] by fastforce
qed

end
