(* ===== verification/Chain_Validity.thy ===== *)
theory Chain_Validity
  imports Chain_Properties
begin

text \<open>
  What the checks of \<open>add_block\<close> (\<open>src/blockchain/chain.rs\<close>) add up to: in every reachable state
  each block of every stored branch, and so of the active chain, has passed all checks in the
  context of the blocks before it, however the branches arrived and the chain was switched. From
  this follows what the node can do on a young chain: nothing is mature below height 100.
\<close>

section \<open>Checked branches\<close>

text \<open>The checks of a block against the branch it extends; the clock was that of its arrival.\<close>

definition checked_block :: "'x block_lib_scheme \<Rightarrow> u32 \<Rightarrow> block list \<Rightarrow> block \<Rightarrow> bool" where
  "checked_block X magic bs b \<longleftrightarrow>
     block_validate X b (hash_hex X (last bs)) = Inr () \<and> height b = height (last bs) + 1
   \<and> next_bits_for_blocks bs = Some (bits (header b))
   \<and> (\<exists>now. validate_timestamp (timestamp (header b)) (median_past_time_for_blocks bs) now)
   \<and> (\<exists>us m. replay X bs utxo_default 0 = Inr (us, m)
        \<and> length (outputs (hd (transactions b))) \<le> 16
        \<and> list_all (\<lambda>tx. tx_acceptable X tx us magic (height b)) (tl (transactions b))
        \<and> fees_total us (tl (transactions b)) < 2 ^ 64
        \<and> unat (coinbase_value b) \<le> min (unat (block_reward (height b))) (31415926 * 10 ^ 9 - unat m)
             + fees_total us (tl (transactions b))
        \<and> validate_transactions X magic (height b) (tl (transactions b)) us = Inr ())"

definition fully_checked :: "'x block_lib_scheme \<Rightarrow> u32 \<Rightarrow> block list \<Rightarrow> bool" where
  "fully_checked X magic bs \<longleftrightarrow>
     (\<forall>k. 0 < k \<longrightarrow> k < length bs \<longrightarrow> checked_block X magic (take k bs) (bs ! k))"

lemma fully_checked_append1:
  "fully_checked X magic (bs @ [b]) \<longleftrightarrow> fully_checked X magic bs \<and> (bs \<noteq> [] \<longrightarrow> checked_block X magic bs b)"
proof -
  have "k < length (bs @ [b]) \<longleftrightarrow> k < length bs \<or> k = length bs" for k by auto
  moreover have "k < length bs \<Longrightarrow> take k (bs @ [b]) = take k bs \<and> (bs @ [b]) ! k = bs ! k" for k
    by (simp add: nth_append)
  moreover have "take (length bs) (bs @ [b]) = bs" "(bs @ [b]) ! length bs = b" by simp_all
  ultimately show ?thesis unfolding fully_checked_def by (metis length_greater_0_conv)
qed

definition branch :: "'x hash_lib_scheme \<Rightarrow> 'd blockchain \<Rightarrow> block list \<Rightarrow> bool" where
  "branch X c bs \<longleftrightarrow> bs \<noteq> [] \<and> stored X (all_blocks c) bs \<and> numbered bs \<and> linked X bs"

definition branches_checked :: "'x block_lib_scheme \<Rightarrow> 'd blockchain \<Rightarrow> bool" where
  "branches_checked X c \<longleftrightarrow> (\<forall>bs. branch X c bs \<longrightarrow> fully_checked X (network_magic c) bs)"

lemma branches_checked_sub:
  assumes "branches_checked X c" "network_magic c' = network_magic c"
    and "\<And>h b. hm_get (all_blocks c') h = Some b \<Longrightarrow> hm_get (all_blocks c) h = Some b"
  shows "branches_checked X c'"
  using assms unfolding branches_checked_def branch_def stored_def list_all_iff by metis

text \<open>A block that passed the checks on a well-formed chain is checked on its branch.\<close>

lemma validated_checked:
  assumes "chain_ok X c" "branch X c bs" "prev_hash (header b) = hash_hex X (last bs)"
    and "block_validate X b (hash_hex X (last bs)) = Inr ()"
    and "validate_block_against_parent X now c b (prev_hash (header b)) = Inr ()"
  shows "checked_block X (network_magic c) bs b"
proof -
  let ?ph = "prev_hash (header b)"
  have walk: "chain_to_hash c ?ph = Inr bs"
    using assms(2) unfolding assms(3) branch_def by (intro chain_to_hash_build) simp_all
  obtain p us m where v: "hm_get (all_blocks c) ?ph = Some p" "height b = height p + 1"
    "parent_context X c ?ph = Inr (bs, us, m)" "next_bits_for_blocks bs = Some (bits (header b))"
    "validate_timestamp (timestamp (header b)) (median_past_time_for_blocks bs) now"
    "validate_coinbase_subsidy_with_state X c b m us = Inr ()"
    "validate_transactions X (network_magic c) (height b) (tl (transactions b)) us = Inr ()"
    using assms(5) walk unfolding validate_block_Inr parent_context_slow [OF assms(1)]
    by (auto simp: try_res_Inr)
  have "replay X bs utxo_default 0 = Inr (us, m)"
    using v(3) walk unfolding parent_context_slow [OF assms(1)] by (auto simp: try_res_Inr)
  moreover have "p = last bs"
    using v(1) assms(2,3) by (simp add: branch_def stored_def list_all_iff)
  ultimately show ?thesis
    using v(2,4-7) assms(4) unfolding checked_block_def subsidy_Inr by auto
qed

lemma branch_butlast:
  assumes "branch X c (bs @ [b])" "bs \<noteq> []"
  shows "branch X c bs" "prev_hash (header b) = hash_hex X (last bs)"
  using assms by (auto simp: branch_def stored_def numbered_append1 linked_append1)

text \<open>Branches after a block was stored: the old ones, and those that end in the block.\<close>

lemma branch_insert:
  assumes "fresh_leaf X b c" "hm_get (all_blocks c) (hash_hex X b) = None" "height b \<noteq> 0"
    and "prev_hash (header b) \<noteq> hash_hex X b" "branch X (insert_block X b w c) bs"
  shows "branch X c bs \<or> (\<exists>bs0. bs = bs0 @ [b] \<and> branch X c bs0 \<and> prev_hash (header b) = hash_hex X (last bs0))"
proof -
  have st: "b' \<in> set bs \<Longrightarrow> hm_get (hm_insert (hash_hex X b) b (all_blocks c)) (hash_hex X b') = Some b'" for b'
    using assms(5) by (auto simp: branch_def stored_def list_all_iff insert_block_def)
  have old: "b' \<in> set bs \<Longrightarrow> b' \<noteq> b \<Longrightarrow> hm_get (all_blocks c) (hash_hex X b') = Some b'" for b'
    using st [of b'] by (auto split: if_splits)
  show ?thesis
  proof (cases "b \<in> set bs")
    case False
    then show ?thesis using assms(5) old by (auto simp: branch_def stored_def list_all_iff)
  next
    case True
    then obtain k where k: "k < length bs" "bs ! k = b" by (auto simp: in_set_conv_nth)
    have link: "Suc i < length bs \<Longrightarrow> prev_hash (header (bs ! Suc i)) = hash_hex X (bs ! i)" for i
      using assms(5) by (simp add: branch_def linked_def)
    have "\<not> Suc k < length bs"
    proof
      assume s: "Suc k < length bs"
      then have "prev_hash (header (bs ! Suc k)) = hash_hex X b" using link k(2) by simp
      moreover have "bs ! Suc k \<noteq> b" using calculation assms(4) by auto
      moreover have "unat (height (bs ! Suc k)) = Suc k"
        using assms(5) s by (auto simp: branch_def numbered_def)
      then have "height (bs ! Suc k) \<noteq> 0" by auto
      ultimately show False using old [of "bs ! Suc k"] s assms(1) by (auto simp: fresh_leaf_def)
    qed
    then have "bs \<noteq> []" "k = length bs - 1" using k(1) by auto
    then obtain bs0 where bs: "bs = bs0 @ [b]"
      using k(2) by (metis append_butlast_last_id last_conv_nth)
    have nb: "numbered bs" using assms(5) by (simp add: branch_def)
    have "b \<notin> set bs0" using numbered_distinct [OF nb] by (simp add: bs)
    moreover have ne: "bs0 \<noteq> []" using nb assms(3) by (auto simp: bs numbered_def unat_eq_0)
    ultimately show ?thesis
      using branch_butlast [of X "insert_block X b w c" bs0 b] assms(5) old
      by (auto simp: bs branch_def stored_def list_all_iff)
  qed
qed

lemma insert_checked:
  assumes "chain_ok X c" "branches_checked X c" "fresh_leaf X b c" "height b \<noteq> 0"
    and "hm_get (all_blocks c) (hash_hex X b) = None"
    and "hm_get (all_blocks c) (prev_hash (header b)) = Some p"
    and "block_validate X b (hash_hex X p) = Inr ()"
    and "validate_block_against_parent X now c b (prev_hash (header b)) = Inr ()"
  shows "branches_checked X (insert_block X b w c)"
  unfolding branches_checked_def
proof (intro allI impI)
  fix bs assume "branch X (insert_block X b w c) bs"
  moreover have "prev_hash (header b) \<noteq> hash_hex X b" using assms(5,6) by auto
  ultimately consider "branch X c bs"
    | bs0 where "bs = bs0 @ [b]" "branch X c bs0" "prev_hash (header b) = hash_hex X (last bs0)"
    using branch_insert [OF assms(3,5,4)] by blast
  then show "fully_checked X (network_magic (insert_block X b w c)) bs"
  proof cases
    case 1
    then show ?thesis using assms(2) by (simp add: branches_checked_def insert_block_def)
  next
    case 2
    have "p = last bs0" using 2(2,3) assms(6) by (simp add: branch_def stored_def list_all_iff)
    then have "checked_block X (network_magic c) bs0 b"
      using validated_checked [OF assms(1) 2(2,3) _ assms(8)] assms(7) by simp
    moreover have "fully_checked X (network_magic c) bs0" using assms(2) 2(2) by (simp add: branches_checked_def)
    ultimately show ?thesis by (simp add: 2(1) insert_block_def fully_checked_append1)
  qed
qed

text \<open>Switching chains and saving leave the stored blocks and the network alone.\<close>

lemma activate_core:
  assumes "activate_chain X h c = (r, c')"
  shows "all_blocks c' = all_blocks c \<and> network_magic c' = network_magic c"
proof (cases "chain_to_hash c h")
  case (Inr bs)
  obtain r1 c1 where c1: "rebuild_active_state X bs c = (r1, c1)" by fastforce
  then have s1: "all_blocks c1 = all_blocks c" "network_magic c1 = network_magic c"
    by (auto simp: rebuild_active_state_def split: prod.splits sum.splits)
  obtain r2 c2 where c2: "store_save_blocks X (blocks c1) c1 = (r2, c2)" by fastforce
  then have s2: "all_blocks c2 = all_blocks c" "network_magic c2 = network_magic c"
    using store_save_blocks_core [OF c2] s1 by auto
  obtain r3 c3 where c3: "store_save_tip X (hash_hex X (tip c2)) c2 = (r3, c3)" by fastforce
  then have s3: "all_blocks c3 = all_blocks c" "network_magic c3 = network_magic c"
    using store_save_tip_core [OF c3] s2 by auto
  have "c' = c \<or> c' = c1 \<or> c' = c2 \<or> c' = c3"
    using assms Inr c1 c2 c3 by (cases r1; cases r2) (auto simp: activate_chain_def split: if_splits)
  with s1 s2 s3 show ?thesis by auto
qed (use assms in \<open>simp add: activate_chain_def\<close>)

text \<open>The stored blocks after \<open>add_block\<close>: some of those before, or of those and the block.\<close>

lemma add_block_state:
  assumes ok: "hm_ok (all_blocks c)" and add: "add_block X now b c = (r, c')"
  obtains (kept) "network_magic c' = network_magic c" "hm_ok (all_blocks c')"
      "\<And>h b'. hm_get (all_blocks c') h = Some b' \<Longrightarrow> hm_get (all_blocks c) h = Some b'"
  | (inserted) p w where "hm_get (all_blocks c) (hash_hex X b) = None"
      "hm_get (all_blocks c) (prev_hash (header b)) = Some p"
      "block_validate X b (hash_hex X p) = Inr ()"
      "validate_block_against_parent X now c b (prev_hash (header b)) = Inr ()"
      "network_magic c' = network_magic c" "hm_ok (all_blocks c')"
      "\<And>h b'. hm_get (all_blocks c') h = Some b' \<Longrightarrow> hm_get (all_blocks (insert_block X b w c)) h = Some b'"
  using add
proof (cases rule: add_block_cases)
  case (refused s)
  then show thesis using ok by (intro kept) simp_all
next
  case (stored p pw w s c2)
  have c2: "all_blocks c2 = all_blocks (insert_block X b w c)" "network_magic c2 = network_magic c"
    by (simp_all add: stored(7) insert_block_def)
  obtain c3 where out: "c' = c2 \<or> c' = c3 \<or> c' = prune_stale_orphans X c3"
    and c3: "all_blocks c3 = all_blocks c2" "network_magic c3 = network_magic c2"
  proof (cases "hm_get (chain_work c2) (hash_hex X (tip c2))")
    case None
    with stored(8) that [of c2] show ?thesis by simp
  next
    case (Some t)
    obtain ar c3 where a: "(if t < w then activate_chain X (hash_hex X b) c2 else (Inr (), c2)) = (ar, c3)"
      by fastforce
    then have "c' = c3 \<or> c' = prune_stale_orphans X c3"
      using stored(8) Some by (cases ar) simp_all
    moreover have "all_blocks c3 = all_blocks c2 \<and> network_magic c3 = network_magic c2"
      using a activate_core [of X "hash_hex X b" c2 ar c3] by (auto split: if_splits)
    ultimately show ?thesis using that by blast
  qed
  have "hm_ok (all_blocks c3)" using ok by (simp add: c3 c2 insert_block_def)
  then have "hm_get (all_blocks (prune_stale_orphans X c3)) h = Some b' \<Longrightarrow> hm_get (all_blocks c3) h = Some b'" for h b'
    by (auto simp: prune_stale_orphans_def Let_def hm_get_retain split: if_splits option.splits)
  moreover have "network_magic (prune_stale_orphans X c3) = network_magic c3"
    by (simp add: prune_stale_orphans_def Let_def)
  moreover have "hm_ok (all_blocks (prune_stale_orphans X c3))"
    using \<open>hm_ok (all_blocks c3)\<close> by (simp add: prune_stale_orphans_def Let_def)
  moreover note \<open>hm_ok (all_blocks c3)\<close>
  ultimately show thesis
    using out unfolding c3 c2 by (intro inserted [OF stored(1-4)]) (auto simp only: c3 c2)
qed

lemma add_block_stored:
  assumes "hm_ok (all_blocks c)" "add_block X now b c = (r, c')"
  shows "network_magic c' = network_magic c"
    and "hm_get (all_blocks c') h = Some x \<Longrightarrow> hm_get (all_blocks c) h = Some x \<or> x = b"
proof -
  have "network_magic c' = network_magic c \<and> (hm_get (all_blocks c') h = Some x \<longrightarrow> hm_get (all_blocks c) h = Some x \<or> x = b)"
    using assms
  proof (cases rule: add_block_state)
    case (inserted p w)
    show ?thesis using inserted(5) inserted(7) [of h x] by (auto simp: insert_block_def split: if_splits)
  qed simp
  then show "network_magic c' = network_magic c"
    "hm_get (all_blocks c') h = Some x \<Longrightarrow> hm_get (all_blocks c) h = Some x \<or> x = b" by blast+
qed

text \<open>A new block is a leaf when only the active chain is stored.\<close>

lemma leaf_of_active:
  assumes ok: "chain_ok X c" and act: "\<And>h b. hm_get (all_blocks c) h = Some b \<Longrightarrow> b \<in> set (blocks c)"
    and new: "hm_get (all_blocks c) (hash_hex X b) = None"
  shows "fresh_leaf X b c"
  unfolding fresh_leaf_def
proof (intro allI impI)
  fix h b' assume get: "hm_get (all_blocks c) h = Some b'" and h0: "height b' \<noteq> 0"
  have n: "numbered (blocks c)" "linked X (blocks c)" "stored X (all_blocks c) (blocks c)"
    using ok by (auto simp: chain_ok_def active_ok_def)
  obtain i where i: "i < length (blocks c)" "b' = blocks c ! i" using act [OF get] by (auto simp: in_set_conv_nth)
  have "unat (height b') = i" using i n(1) by (simp add: numbered_def)
  then obtain j where j: "i = Suc j" using h0 by (cases i) (auto simp: unat_eq_0)
  then have "prev_hash (header b') = hash_hex X (blocks c ! j)" using i n(2) by (simp add: linked_def)
  moreover have "hm_get (all_blocks c) (hash_hex X (blocks c ! j)) = Some (blocks c ! j)"
    using n(3) i j by (simp add: stored_def list_all_iff)
  ultimately show "prev_hash (header b') \<noteq> hash_hex X b" using new by auto
qed

lemma add_block_checked:
  assumes "chain_ok X c" "branches_checked X c" "fresh_leaf X b c" "height b \<noteq> 0"
    and "add_block X now b c = (r, c')"
  shows "branches_checked X c'"
proof -
  have "hm_ok (all_blocks c)" using assms(1) by (simp add: chain_ok_def all_ok_def)
  from this assms(5) show ?thesis
  proof (cases rule: add_block_state)
    case kept
    then show ?thesis by (intro branches_checked_sub [OF assms(2)])
  next
    case (inserted p w)
    show ?thesis
      by (rule branches_checked_sub [OF insert_checked [OF assms(1-4) inserted(1-4), of w]])
        (simp_all only: inserted(5,7), simp add: insert_block_def)
  qed
qed

lemma genesis_checked: "branches_checked X (from_genesis_with_magic X g s magic)"
  unfolding branches_checked_def
proof (intro allI impI)
  let ?c = "from_genesis_with_magic X g s magic"
  fix bs assume b: "branch X ?c bs"
  have "all_blocks ?c = [(hash_hex X g, g)]" by (simp add: from_genesis_with_magic_def Let_def hm_insert_def)
  then have "set bs \<subseteq> {g}" "distinct bs"
    using b numbered_distinct by (auto simp: branch_def stored_def list_all_iff hm_get_def split: if_splits)
  then have "length bs \<le> 1" by (metis card.empty card_insert_disjoint card_mono distinct_card finite.emptyI finite.insertI empty_iff One_nat_def)
  then show "fully_checked X (network_magic ?c) bs" by (simp add: fully_checked_def)
qed

interpretation checked: guarded_system "fresh_chain X" "chain_step X"
  "\<lambda>c. chain_ok X c \<and> branches_checked X c" for X
proof
  show "fresh_chain X c \<Longrightarrow> chain_ok X c \<and> branches_checked X c" for c
    by (auto simp: fresh_chain_def chain_ok_genesis genesis_checked)
  fix c c'
  assume "chain_step X c c'" and inv: "chain_ok X c \<and> branches_checked X c"
  then show "chain_ok X c' \<and> branches_checked X c'"
  proof (elim chain_stepE)
    fix b now r assume "fresh_leaf X b c" "height b \<noteq> 0" "add_block X now b c = (r, c')"
    then show ?thesis using add_block_ok [of X c b now r c'] add_block_checked [of X c b now r c'] inv by simp
  next
    fix tx sr assume "submit_transaction X tx c = (sr, c')"
    from submit_core [OF this] obtain mp where "c' = c\<lparr>chain_mempool := mp\<rparr>" by blast
    with inv show ?thesis using branches_checked_sub [of X c c'] by simp
  qed
qed

lemma reachable_checked:
  assumes "fresh_chain X c0" "(chain_step X)\<^sup>*\<^sup>* c0 c"
  shows "chain_ok X c" "fully_checked X (network_magic c) (blocks c)"
  using checked.reachable_inv [OF assms] by (auto simp: branches_checked_def branch_def chain_ok_def active_ok_def)

text \<open>A chain of two blocks.\<close>

lemma demo_second:
  obtains c where "add_block demo_lib 1700000100 demo_next demo_chain = (Inr (), c)"
    "(chain_step demo_lib)\<^sup>*\<^sup>* demo_chain c" "blocks c = [demo_gen, demo_next]"
proof -
  obtain w m where wm: "checked_add (block_work 0x207fffff) (block_work (bits (header demo_next))) = Some w"
    "checked_add (total_minted demo_chain) (coinbase_value demo_next) = Some m"
    using demo_next_fits by blast
  have pl: "hm_get (all_blocks demo_chain) (hash_hex demo_lib demo_next) = None"
    "hm_get (chain_work demo_chain) (hash_hex demo_lib (tip demo_chain)) = Some (block_work 0x207fffff)"
    "prev_hash (header demo_next) = hash_hex demo_lib (tip demo_chain)"
    using demo_next_hash by (simp_all add: demo_chain_fields demo_next_def Let_def)
  obtain c where c: "add_block demo_lib 1700000100 demo_next demo_chain = (Inr (), c)"
    "blocks c = blocks demo_chain @ [demo_next]"
    using extend_tip [OF demo_chain_ok(1) demo_chain_fields(3) pl(1,3) demo_next_leaf(2)
        mined_block_valid [OF demo_chain_ok(1) demo_mined demo_chain_fields(4) demo_next_fits(1,2)] pl(2) wm] by blast
  then have "chain_step demo_lib demo_chain c"
    using block_arrives [OF demo_next_leaf c(1)] by simp
  then have r: "(chain_step demo_lib)\<^sup>*\<^sup>* demo_chain c" by simp
  have bs: "blocks c = [demo_gen, demo_next]" using c(2) by (simp add: demo_chain_fields)
  from that [OF c(1) r bs] show thesis .
qed

text \<open>C3: the active chain is valid: in every state a node reaches from its genesis block, each block
  after the first has passed every check against the blocks before it: it names its parent, meets
  its target and the difficulty due, keeps the limits of size, has its Merkle root, a timestamp in
  range, a coinbase within the reward left by the cap plus the fees, and transactions that were
  acceptable in order on the outputs of those blocks.\<close>

theorem active_chain_fully_checked:
  assumes "fresh_chain X c0" "(chain_step X)\<^sup>*\<^sup>* c0 c" "0 < k" "k < length (blocks c)"
  shows "checked_block X (network_magic c) (take k (blocks c)) (blocks c ! k)"
  using reachable_checked(2) [OF assms(1,2)] assms(3,4) by (simp add: fully_checked_def)

theorem active_chain_fully_checked_witness:
  "\<exists>c. (chain_step demo_lib)\<^sup>*\<^sup>* demo_chain c \<and> blocks c = [demo_gen, demo_next]
     \<and> checked_block demo_lib (network_magic c) [demo_gen] demo_next"
proof -
  obtain c where r: "(chain_step demo_lib)\<^sup>*\<^sup>* demo_chain c" "blocks c = [demo_gen, demo_next]"
    using demo_second by blast
  from active_chain_fully_checked [OF demo_chain_ok(3) r(1), of 1] r show ?thesis by auto
qed

section \<open>Young chains\<close>

text \<open>Sets of outputs that all come from coinbases.\<close>

definition coinbase_backed :: "utxo_set \<Rightarrow> bool" where
  "coinbase_backed us \<longleftrightarrow> (\<forall>h i. utxo_get us h i \<noteq> None \<longrightarrow> hm_get (coinbase_heights us) h \<noteq> None)"

lemma backed_refuses:
  assumes "coinbase_backed us" "unat h < 100" "tx_acceptable X tx us magic h"
  shows "inputs tx = [] \<and> outputs tx = []"
proof -
  have "is_immature_coinbase us (prev_tx_hash i) h"
    if "utxo_get us (prev_tx_hash i) (prev_index i) \<noteq> None" for i
    using assms(1,2) that
    by (auto simp: coinbase_backed_def is_immature_coinbase_def COINBASE_MATURITY_def word_less_nat_alt
        unat_saturating_sub split: option.splits)
  then have ins: "inputs tx = []"
    using assms(3) by (cases "inputs tx") (auto simp: tx_acceptable_def input_ok_def split: option.splits)
  then have "outputs_total tx = 0" using assms(3) by (simp add: tx_acceptable_def inputs_total_def outpoints_def)
  then have "outputs tx = []"
    using assms(3) by (cases "outputs tx") (auto simp: tx_acceptable_def outputs_total_def)
  with ins show ?thesis by simp
qed

lemma backed_apply:
  assumes "coinbase_backed us" "is_coinbase tx \<or> inputs tx = [] \<and> outputs tx = []"
  shows "coinbase_backed (apply_transaction X tx us)"
  unfolding coinbase_backed_def
proof (intro allI impI)
  fix h i assume g: "utxo_get (apply_transaction X tx us) h i \<noteq> None"
  let ?u = "utxos us"
  have keys: "hm_get m k \<noteq> None \<longleftrightarrow> k \<in> fst ` set m" for m :: "(string, tx_output) hmap" and k
    by (simp add: hm_get_def map_of_eq_None_iff)
  have "utxos (apply_transaction X tx us) = fold (\<lambda>(k, out). hm_insert k out) (created_entries X tx) ?u"
    using assms(2) by (auto simp: apply_transaction_def Let_def spent_keys_def)
  then have "utxo_key h i \<in> fst ` set (created_entries X tx) \<union> fst ` set ?u"
    using g keys_fold_insert [of "created_entries X tx" ?u] unfolding utxo_get_def keys by auto
  moreover have "h = txid_hex X tx" if "utxo_key h i \<in> fst ` set (created_entries X tx)"
    using that by (auto simp: created_entries_nth)
  moreover have "outputs tx \<noteq> []" if "utxo_key h i \<in> fst ` set (created_entries X tx)"
    using that by (auto simp: created_entries_def)
  moreover have "hm_get (coinbase_heights us) h \<noteq> None" if "utxo_key h i \<in> fst ` set ?u"
    using assms(1) that unfolding coinbase_backed_def utxo_get_def keys by blast
  moreover have "coinbase_heights (apply_transaction X tx us) =
      (if is_coinbase tx then hm_insert (txid_hex X tx) (coinbase_height (coinbase_extra (hd (inputs tx)))) (coinbase_heights us)
       else coinbase_heights us)"
    by (simp add: apply_transaction_def Let_def)
  ultimately show "hm_get (coinbase_heights (apply_transaction X tx us)) h \<noteq> None"
    using assms(2) by (cases "is_coinbase tx"; cases "utxo_key h i \<in> fst ` set ?u") simp_all
qed

lemma backed_fold:
  "coinbase_backed us \<Longrightarrow> list_all (\<lambda>tx. is_coinbase tx \<or> inputs tx = [] \<and> outputs tx = []) txs \<Longrightarrow>
     coinbase_backed (fold (apply_transaction X) txs us)"
  by (induction txs arbitrary: us) (simp_all add: backed_apply)

lemma young_backed:
  assumes "fully_checked X magic bs" "numbered bs" "bs \<noteq> []" "list_all is_coinbase (transactions (hd bs))"
    and "length bs \<le> 100" "replay X bs utxo_default 0 = Inr (us, m)"
  shows "coinbase_backed us"
  using assms
proof (induction bs arbitrary: us m rule: rev_induct)
  case (snoc b bs)
  obtain us0 m0 where r: "replay X bs utxo_default 0 = Inr (us0, m0)" "us = apply_block X b us0"
    using snoc.prems(6) by (auto simp: replay_append try_res_Inr)
  have "coinbase_backed us0 \<and> list_all (\<lambda>tx. is_coinbase tx \<or> inputs tx = [] \<and> outputs tx = []) (transactions b)"
  proof (cases "bs = []")
    case True
    then have "us0 = utxo_default" using r(1) by simp
    with True snoc.prems(4) show ?thesis
      by (auto simp: coinbase_backed_def utxo_get_def utxo_default_def list_all_iff)
  next
    case False
    have fc: "fully_checked X magic bs" "checked_block X magic bs b"
      using snoc.prems(1) False by (simp_all add: fully_checked_append1)
    then have b0: "coinbase_backed us0"
      using False snoc.prems(2,4,5) r(1) by (intro snoc.IH) (auto simp: numbered_append1)
    note cb = fc(2)
    have young: "unat (height b) < 100" using snoc.prems(2,5) by (simp add: numbered_append1)
    have "list_all (\<lambda>tx. tx_acceptable X tx us0 magic (height b)) (tl (transactions b))"
      using cb r(1) by (auto simp: checked_block_def)
    then have "list_all (\<lambda>tx. inputs tx = [] \<and> outputs tx = []) (tl (transactions b))"
      using backed_refuses [OF b0 young, of X _ magic] unfolding list_all_iff by blast
    moreover have "transactions b \<noteq> []" "is_coinbase (hd (transactions b))"
      using cb by (auto simp: checked_block_def block_validate_def split: if_splits)
    ultimately show ?thesis using b0 by (cases "transactions b") (auto simp: list_all_iff)
  qed
  then show ?case unfolding r(2) apply_block_def by (auto intro: backed_fold)
qed simp

text \<open>The genesis block stays the only stored block of height 0.\<close>

interpretation rooted: guarded_system "\<lambda>c. fresh_chain X c \<and> blocks c = [g]" "chain_step X"
  "\<lambda>c. chain_ok X c \<and> (\<forall>h b. hm_get (all_blocks c) h = Some b \<longrightarrow> height b = 0 \<longrightarrow> b = g)" for X g
proof
  show "chain_ok X c \<and> (\<forall>h b. hm_get (all_blocks c) h = Some b \<longrightarrow> height b = 0 \<longrightarrow> b = g)"
    if "fresh_chain X c \<and> blocks c = [g]" for c
  proof -
    have "chain_ok X c" using that by (auto simp: fresh_chain_def chain_ok_genesis)
    with that show ?thesis by (auto simp: fresh_chain_def from_genesis_with_magic_def Let_def split: if_splits)
  qed
  fix c c'
  assume "chain_step X c c'"
    and inv: "chain_ok X c \<and> (\<forall>h b. hm_get (all_blocks c) h = Some b \<longrightarrow> height b = 0 \<longrightarrow> b = g)"
  then show "chain_ok X c' \<and> (\<forall>h b. hm_get (all_blocks c') h = Some b \<longrightarrow> height b = 0 \<longrightarrow> b = g)"
  proof (elim chain_stepE)
    fix b now r assume s: "fresh_leaf X b c" "height b \<noteq> 0" "add_block X now b c = (r, c')"
    have "hm_ok (all_blocks c)" using inv by (simp add: chain_ok_def all_ok_def)
    from add_block_stored(2) [OF this s(3)]
    have "\<forall>h b'. hm_get (all_blocks c') h = Some b' \<longrightarrow> hm_get (all_blocks c) h = Some b' \<or> b' = b" by blast
    with inv s add_block_ok [of X c b now r c'] show ?thesis by metis
  next
    fix tx sr assume "submit_transaction X tx c = (sr, c')"
    from submit_core [OF this] inv show ?thesis by auto
  qed
qed

lemma genesis_kept:
  assumes "fresh_chain X c0" "blocks c0 = [g]" "(chain_step X)\<^sup>*\<^sup>* c0 c"
  shows "hd (blocks c) = g"
proof -
  have act: "blocks c \<noteq> []" "numbered (blocks c)" "stored X (all_blocks c) (blocks c)"
    using reachable_checked(1) [OF assms(1,3)] by (auto simp: chain_ok_def active_ok_def)
  have "\<forall>h b. hm_get (all_blocks c) h = Some b \<longrightarrow> height b = 0 \<longrightarrow> b = g"
    using rooted.reachable_inv [of X c0 g c] assms by blast
  moreover have "height (hd (blocks c)) = 0" "hm_get (all_blocks c) (hash_hex X (hd (blocks c))) = Some (hd (blocks c))"
    using act by (cases "blocks c"; auto simp: numbered_def stored_def unat_eq_0)+
  ultimately show ?thesis by blast
qed

lemma young_refuses:
  assumes "fresh_chain X c0" "blocks c0 = [g]" "list_all is_coinbase (transactions g)"
    and "(chain_step X)\<^sup>*\<^sup>* c0 c" "unat (chain_height c) < 100"
  shows "\<exists>e. submit_transaction X tx c = (Inl e, c)"
proof -
  note ok = reachable_checked [OF assms(1,4)]
  have act: "blocks c \<noteq> []" "numbered (blocks c)" "stored X (all_blocks c) (blocks c)"
    "replay X (blocks c) utxo_default 0 = Inr (chain_utxos c, total_minted c)"
    using ok(1) by (auto simp: chain_ok_def active_ok_def)
  have "hd (blocks c) = g" by (rule genesis_kept [OF assms(1,2,4)])
  moreover have "length (blocks c) \<le> 100"
    using assms(5) numbered_last [OF act(2,1)] act(1) by (simp add: chain_height_def tip_def)
  ultimately have "coinbase_backed (chain_utxos c)"
    using young_backed [OF ok(2) act(2,1) _ _ act(4)] assms(3) by simp
  note none = backed_refuses [OF this assms(5)]
  show ?thesis
  proof (cases "validate_tx X tx c")
    case (Inl e)
    then show ?thesis by (simp add: submit_transaction_def)
  next
    case (Inr fee)
    then have acc: "tx_acceptable X tx (chain_utxos c) (network_magic c) (chain_height c)"
      "unat fee = inputs_total (chain_utxos c) tx - outputs_total tx"
      unfolding validate_tx_def validate_tx_Inr by auto
    then have "fee = 0" using none [OF acc(1)] by (simp add: inputs_total_def outpoints_def unat_eq_0)
    with Inr show ?thesis
      by (cases c) (simp add: submit_transaction_def add_with_fee_def MIN_FEE_ARKES_def)
  qed
qed

text \<open>Below height 100 no payment is possible: on a chain that starts with a genesis block of
  coinbases only, every transaction submitted before height 100 is refused and leaves the node as
  it is, whoever signs it, because every output is that of a coinbase and none is mature.\<close>

theorem young_chain_refuses_payments:
  assumes "fresh_chain X c0" "blocks c0 = [g]" "list_all is_coinbase (transactions g)"
    and "(chain_step X)\<^sup>*\<^sup>* c0 c" "unat (chain_height c) < 100"
  shows "\<exists>e. submit_transaction X tx c = (Inl e, c)"
  by (rule young_refuses [OF assms])

theorem young_chain_refuses_payments_witness:
  "unat (chain_height demo_chain) < 100 \<and> (\<exists>e. submit_transaction demo_lib demo_cb demo_chain = (Inl e, demo_chain))"
proof -
  have "list_all is_coinbase (transactions demo_gen)" by (simp add: demo_gen_def demo_cb_def)
  moreover have h: "unat (chain_height demo_chain) < 100"
    by (simp add: chain_height_def demo_chain_fields) (simp add: demo_gen_def)
  ultimately show ?thesis
    using young_chain_refuses_payments [OF demo_chain_ok(3) demo_chain_fields(2) _ rtranclp.rtrancl_refl] by blast
qed

end
