(* ===== verification/Deep_Chain.thy ===== *)
theory Deep_Chain
  imports Chain_Validity
begin

text \<open>
  Chains of any length below the first change of difficulty, for the witnesses of statements on old
  blocks: with a hash that shows the timestamp of a header, a node on the regtest target mines one
  block after the other (\<open>mine_block\<close> and \<open>add_block\<close> of \<open>src/blockchain/chain.rs\<close>).
\<close>

section \<open>A hash that shows the timestamp\<close>

definition deep_sha :: "bytes \<Rightarrow> bytes" where
  "deep_sha d = (if length d = 89 then replicate 4 0 @ take 8 (drop 68 d) @ replicate 20 0
     else take 32 (d @ replicate 32 0))"

definition deep_lib :: "(bytes \<Rightarrow> bytes option) store_lib" where
  "deep_lib = demo_lib\<lparr>lib_sha256 := deep_sha\<rparr>"

lemma length_hex_32: "length (hex_32_or_bytes X s) = 32"
  by (auto simp: hex_32_or_bytes_def Let_def min_def split: option.splits)

lemma deep_header_hash: "header_hash deep_lib h = replicate 4 0 @ u64_le (timestamp h) @ replicate 20 0"
proof -
  have len: "length (pow_bytes deep_lib h) = 89" by (simp add: pow_bytes_def length_hex_32)
  have "take 8 (drop 68 (pow_bytes deep_lib h)) = u64_le (timestamp h)"
    by (simp add: pow_bytes_def length_hex_32)
  then show ?thesis
    using len by (simp add: header_hash_def hash256_def deep_lib_def) (simp add: deep_sha_def)
qed

lemma deep_hash_inject: "hash_hex deep_lib b = hash_hex deep_lib b' \<Longrightarrow> timestamp (header b) = timestamp (header b')"
proof -
  assume "hash_hex deep_lib b = hash_hex deep_lib b'"
  then have "demo_hex_encode (header_hash deep_lib (header b)) = demo_hex_encode (header_hash deep_lib (header b'))"
    by (simp add: hash_hex_def header_hash_hex_def hash_to_hex_def) (simp add: deep_lib_def demo_store_lib_defs)
  then have "header_hash deep_lib (header b) = header_hash deep_lib (header b')"
    by (metis demo_hex_roundtrip option.inject)
  then have "u64_le (timestamp (header b)) = u64_le (timestamp (header b'))" by (simp add: deep_header_hash)
  then show ?thesis by (rule u64le.enc_eq_iff [THEN iffD1])
qed

lemma deep_meets: "bits h = 0x207fffff \<Longrightarrow> meets_target deep_lib h"
proof -
  assume b: "bits h = 0x207fffff"
  have hh: "header_hash deep_lib h = 0 # replicate 3 0 @ u64_le (timestamp h) @ replicate 20 0"
    by (simp add: deep_header_hash numeral_eq_Suc)
  have "be_nat (header_hash deep_lib h) < 1 * 256 ^ 31"
    using be_nat_bound [of "replicate 3 0 @ u64_le (timestamp h) @ replicate 20 0"] unfolding hh by (simp add: be_nat_Cons)
  also have "\<dots> \<le> be_nat (bits_to_target (bits h))"
    unfolding bits_to_target_value b by (simp add: bits_exp_div bits_mantissa_mod)
  finally show ?thesis
    using hash_le_target_nat [of "header_hash deep_lib h" "bits_to_target (bits h)"]
    by (simp add: meets_target_def deep_header_hash)
qed

section \<open>Mining on and on\<close>

definition deep_time :: "nat \<Rightarrow> u64" where
  "deep_time n = 1700000000 + 100 * word_of_nat n"

lemma unat_deep_time: "n < 2016 \<Longrightarrow> unat (deep_time n) = 1700000000 + 100 * n"
  by (simp add: deep_time_def unat_word_ariths unat_of_nat)

definition deep :: "nat \<Rightarrow> (bytes \<Rightarrow> bytes option) blockchain \<Rightarrow> bool" where
  "deep n c \<longleftrightarrow> chain_ok deep_lib c \<and> (\<forall>cs. saves deep_lib (chain_store c) cs) \<and> chain_mempool c = mempool_new
     \<and> length (blocks c) = Suc n \<and> (\<forall>i \<le> n. timestamp (header (blocks c ! i)) = deep_time i)
     \<and> (\<forall>b \<in> set (blocks c). bits (header b) = 0x207fffff)
     \<and> unat (total_minted c) \<le> Suc n * 32188184932
     \<and> (\<forall>h b. hm_get (all_blocks c) h = Some b \<longrightarrow> b \<in> set (blocks c))"

definition deep_chain :: "(bytes \<Rightarrow> bytes option) blockchain" where
  "deep_chain = from_genesis_with_magic deep_lib demo_gen None REGTEST_MAGIC"

lemma deep_start: "deep 0 deep_chain"
proof -
  have g: "height demo_gen = 0" "timestamp (header demo_gen) = 1700000000" "bits (header demo_gen) = 0x207fffff"
    by (simp_all add: demo_gen_def)
  have v: "coinbase_value demo_gen = block_reward 0"
    by (rule coinbase_only_value) (simp add: demo_gen_def demo_cb_def)
  have c: "chain_store deep_chain = None" "chain_mempool deep_chain = mempool_new" "blocks deep_chain = [demo_gen]"
    "total_minted deep_chain = block_reward 0"
    "hm_get (all_blocks deep_chain) h = Some b \<Longrightarrow> b = demo_gen" for h b
    by (auto simp: deep_chain_def from_genesis_with_magic_def Let_def v split: if_splits)
  moreover have "chain_ok deep_lib deep_chain" unfolding deep_chain_def by (rule chain_ok_genesis(1) [OF g(1)])
  ultimately show ?thesis by (auto simp: deep_def saves_def g deep_time_def unat_block_reward)
qed

lemma deep_other_time:
  assumes "deep n c" "Suc n < 2016" "b \<in> set (blocks c)"
  shows "timestamp (header b) \<noteq> deep_time (Suc n)"
proof -
  obtain i where "i < length (blocks c)" "blocks c ! i = b" using assms(3) by (auto simp: in_set_conv_nth)
  then have "i \<le> n" "timestamp (header b) = deep_time i" using assms(1) by (auto simp: deep_def)
  then show ?thesis using unat_deep_time [of i] unat_deep_time [of "Suc n"] assms(2) by auto
qed

lemma deep_new_leaf:
  assumes "deep n c" "Suc n < 2016" "timestamp (header b) = deep_time (Suc n)"
  shows "hm_get (all_blocks c) (hash_hex deep_lib b) = None" "fresh_leaf deep_lib b c"
proof -
  have ne: "hash_hex deep_lib x \<noteq> hash_hex deep_lib b" if "x \<in> set (blocks c)" for x
    using deep_hash_inject [of x b] deep_other_time [OF assms(1,2) that] assms(3) by auto
  have all: "all_ok deep_lib (all_blocks c)" and st: "hm_get (all_blocks c) h = Some x \<Longrightarrow> x \<in> set (blocks c)" for h x
    using assms(1) by (auto simp: deep_def chain_ok_def)
  show new: "hm_get (all_blocks c) (hash_hex deep_lib b) = None"
    using ne st all_okD(1) [OF all, of "hash_hex deep_lib b"] by (metis not_Some_eq)
  show "fresh_leaf deep_lib b c" using assms(1) st by (intro leaf_of_active [OF _ _ new]) (simp_all add: deep_def)
qed

lemma deep_median:
  assumes "deep n c" "n < 2016"
  shows "unat (median_past_time c) \<le> 1700000000 + 100 * n"
proof -
  let ?ts = "sort (map (\<lambda>b. timestamp (header b)) (take 11 (rev (blocks c))))"
  have "blocks c \<noteq> []" using assms(1) by (auto simp: deep_def)
  then have "?ts ! (length ?ts div 2) \<in> set ?ts" by (intro nth_mem) (cases "blocks c", auto)
  then obtain b where b: "b \<in> set (blocks c)" "median_past_time c = timestamp (header b)"
    by (auto simp: median_past_time_def median_past_time_for_blocks_def Let_def dest!: in_set_takeD)
  then obtain i where "i < length (blocks c)" "blocks c ! i = b" by (auto simp: in_set_conv_nth)
  then have "i \<le> n" "median_past_time c = deep_time i" using assms(1) b(2) by (auto simp: deep_def)
  then show ?thesis using assms(2) by (simp add: unat_deep_time)
qed

lemma deep_height:
  assumes "deep n c" "Suc n < 2016"
  shows "unat (height (tip c) + 1) = Suc n" "next_bits c = Some 0x207fffff"
proof -
  have len: "length (blocks c) = Suc n" and tip: "tip c \<in> set (blocks c)" "unat (height (tip c)) = n"
    using assms(1) chain_ok_tip(2) [of deep_lib c] by (auto simp: deep_def tip_def intro!: last_in_set)
  show h: "unat (height (tip c) + 1) = Suc n" using assms(2) tip(2) by (simp add: unat_word_ariths)
  have "unat ((height (tip c) + 1) mod DIFFICULTY_ADJUSTMENT_INTERVAL) = Suc n"
    using assms(2) by (simp add: unat_mod h DIFFICULTY_ADJUSTMENT_INTERVAL_def)
  then have "(height (tip c) + 1) mod DIFFICULTY_ADJUSTMENT_INTERVAL \<noteq> 0" by (metis nat.distinct(1) unat_0)
  then show "next_bits c = Some 0x207fffff"
    using tip(1) len assms(1) by (auto simp: next_bits_def next_bits_for_blocks_def Let_def tip_def deep_def)
qed

lemma deep_mined:
  assumes d: "deep n c" and n: "Suc n < 2016"
  obtains b where "mine_block deep_lib (deep_time (Suc n)) ''ab'' c = Some b"
    "timestamp (header b) = deep_time (Suc n)" "height b \<noteq> 0" "bits (header b) = 0x207fffff"
    "block_validate deep_lib b (hash_hex deep_lib (tip c)) = Inr ()"
    "validate_block_against_parent deep_lib (deep_time (Suc n)) c b (hash_hex deep_lib (tip c)) = Inr ()"
proof -
  let ?now = "deep_time (Suc n)"
  have med: "median_past_time c < ?now" "\<not> ?now < median_past_time c + 1"
    using deep_median [OF d] n by (simp_all add: word_less_nat_alt unat_deep_time unat_word_ariths)
  then have time: "next_block_timestamp ?now c = ?now" by (simp add: next_block_timestamp_def max_def)
  have "mine_block_header deep_lib hd = Some hd" if "bits hd = 0x207fffff" for hd
    using deep_meets [OF that] by (simp add: mine_block_header.simps)
  then obtain b where mine: "mine_block deep_lib ?now ''ab'' c = Some b" and ts: "timestamp (header b) = ?now"
    by (auto simp: mine_block_def deep_height(2) [OF assms] Let_def time)
  have pool: "chain_mempool c = mempool_new" and ok: "chain_ok deep_lib c" using d by (simp_all add: deep_def)
  have size: "block_bytes deep_lib b \<le> MAX_BLOCK_BYTES"
    by (simp add: block_bytes_def MAX_BLOCK_BYTES_def deep_lib_def demo_store_lib_defs)
  have "validate_timestamp (timestamp (header b)) (median_past_time c) ?now"
    using med n by (simp add: validate_timestamp_def ts word_le_nat_alt unat_word_ariths unat_deep_time)
  note valid = mined_block_valid [OF ok mine pool size this]
  have "height b \<noteq> 0" "bits (header b) = 0x207fffff"
    using mined_block_shape(1,3) [OF mine pool] deep_height [OF assms] by auto
  from that [OF mine ts this valid] show thesis .
qed

lemma deep_work:
  assumes "deep n c"
  obtains t where "hm_get (chain_work c) (hash_hex deep_lib (tip c)) = Some t" "unat t = 2 * Suc n"
proof -
  have parts: "work_ok (all_blocks c) (chain_work c)" "all_ok deep_lib (all_blocks c)"
    "stored deep_lib (all_blocks c) (blocks c)" "numbered (blocks c)" "linked deep_lib (blocks c)" "blocks c \<noteq> []"
    using assms by (auto simp: deep_def chain_ok_def active_ok_def)
  obtain t where t: "hm_get (chain_work c) (hash_hex deep_lib (tip c)) = Some t"
    "unat t = sum_list (map (\<lambda>b. unat (block_work (bits (header b)))) (blocks c))"
    using work_sum [OF parts] unfolding tip_def by blast
  have "map (\<lambda>b. unat (block_work (bits (header b)))) (blocks c) = map (\<lambda>b. 2) (blocks c)"
    using assms by (intro map_cong) (simp_all add: deep_def regtest_work)
  then have "unat t = sum_list (map (\<lambda>b. 2) (blocks c))" using t(2) by (simp only:)
  then have "unat t = 2 * Suc n" using assms by (simp add: sum_list_triv deep_def)
  from that [OF t(1) this] show thesis .
qed

lemma pool_purge_new: "pool_purge X bs mempool_new = mempool_new"
proof -
  have "fold (\<lambda>tx. pool_remove X (txid_hex X tx)) txs mempool_new = mempool_new" for txs
    by (induction txs) (simp_all add: pool_remove_def mempool_new_def)
  then show ?thesis unfolding pool_purge_def by (induction bs) simp_all
qed

lemma deep_extends:
  assumes d: "deep n c" and n: "Suc n < 2016" and ts: "timestamp (header b) = deep_time (Suc n)"
    and b: "bits (header b) = 0x207fffff"
    and c': "add_block deep_lib now b c = (Inr (), c')" "blocks c' = blocks c @ [b]" "chain_ok deep_lib c'"
      "chain_mempool c' = mempool_new" "\<And>cs. saves deep_lib (chain_store c') cs"
      "unat (total_minted c') \<le> Suc (Suc n) * 32188184932"
  shows "deep (Suc n) c'"
proof -
  have len: "length (blocks c) = Suc n" using d by (simp add: deep_def)
  have "timestamp (header (blocks c' ! i)) = deep_time i" if "i \<le> Suc n" for i
    using that d len ts by (cases "i = Suc n") (auto simp: c'(2) deep_def nth_append)
  moreover have "hm_ok (all_blocks c)" using d by (simp add: deep_def chain_ok_def all_ok_def)
  then have "x \<in> set (blocks c')" if "hm_get (all_blocks c') h = Some x" for h x
    using add_block_stored(2) [OF _ c'(1) that] d c'(2) by (auto simp: deep_def)
  ultimately show ?thesis using c' len d b unfolding deep_def by auto
qed

lemma deep_step:
  assumes d: "deep n c" and n: "Suc n < 2016"
  obtains now b c' where "add_block deep_lib now b c = (Inr (), c')" "fresh_leaf deep_lib b c" "height b \<noteq> 0"
    "blocks c' = blocks c @ [b]" "deep (Suc n) c'"
proof -
  let ?X = deep_lib and ?now = "deep_time (Suc n)"
  have ok: "chain_ok ?X c" and pool: "chain_mempool c = mempool_new" using d by (simp_all add: deep_def)
  obtain b where mine: "mine_block ?X ?now ''ab'' c = Some b" and ts: "timestamp (header b) = ?now"
    and hb: "height b \<noteq> 0" "bits (header b) = 0x207fffff"
    and valid: "block_validate ?X b (hash_hex ?X (tip c)) = Inr ()"
      "validate_block_against_parent ?X ?now c b (hash_hex ?X (tip c)) = Inr ()"
    by (rule deep_mined [OF assms])
  note shape = mined_block_shape [OF mine pool] and new = deep_new_leaf [OF d n ts]
  obtain t where t: "hm_get (chain_work c) (hash_hex ?X (tip c)) = Some t" "unat t = 2 * Suc n" by (rule deep_work [OF d])
  obtain w where w: "checked_add t (block_work (bits (header b))) = Some w"
    using t(2) n by (simp add: checked_add_def regtest_work hb(2))
  define v where "v = capped_block_reward c (height b)"
  have v: "coinbase_value b = v" unfolding v_def by (rule coinbase_only_value) (use shape(3,4) in simp)
  have "unat v \<le> unat (block_reward (height b))" by (simp add: v_def capped_block_reward_def unat_min)
  also have "\<dots> \<le> 32188184932" unfolding unat_block_reward by (rule div_le_dividend)
  finally have le: "unat (total_minted c) + unat v \<le> Suc (Suc n) * 32188184932" using d by (simp add: deep_def)
  then obtain m where m: "checked_add (total_minted c) (coinbase_value b) = Some m" "unat m = unat (total_minted c) + unat v"
    using n by (simp add: checked_add_def v unat_word_ariths)
  have sv: "saves ?X (chain_store c) cs" for cs using d by (simp add: deep_def)
  note ext = extend_tip_full [OF ok sv _ new(1) shape(2) hb(1) valid t(1) w m(1)]
  obtain c' where c': "add_block ?X ?now b c = (Inr (), c')" "blocks c' = blocks c @ [b]" "total_minted c' = m"
    "chain_mempool c' = mempool_new"
    using ext [OF subset_refl] by (auto simp: pool pool_purge_new)
  have "saves ?X (chain_store c') cs" for cs
  proof -
    have "set (blocks c @ [b]) \<subseteq> set (blocks c @ [b] @ cs)" by auto
    with ext [OF this] c'(1) show ?thesis by (auto simp: saves_def)
  qed
  moreover have "chain_ok ?X c'" using add_block_ok [OF ok new(2) hb(1) c'(1)] by simp
  ultimately have "deep (Suc n) c'" using deep_extends [OF d n ts hb(2) c'(1,2)] c'(3,4) m(2) le by simp
  from that [OF c'(1) new(2) hb(1) c'(2) this] show thesis .
qed

end
