(* ===== verification/Finality.thy ===== *)
theory Finality
  imports Deep_Chain
begin

text \<open>
  How deep a reorganisation can reach (\<open>add_block\<close>, \<open>activate_chain\<close> and \<open>prune_stale_orphans\<close> of
  \<open>src/blockchain/chain.rs\<close>). After every accepted block the blocks 200 and more below the tip that
  are not on the active chain are dropped, so that no branch can start there: a switch of chains
  replaces blocks of the last 200 heights only.
\<close>

section \<open>What pruning leaves\<close>

text \<open>Below the cutoff only active blocks are stored.\<close>

definition final_ok :: "'d blockchain \<Rightarrow> bool" where
  "final_ok c \<longleftrightarrow> (\<forall>h b. hm_get (all_blocks c) h = Some b \<longrightarrow> unat (height b) + 200 < length (blocks c) \<longrightarrow> b \<in> set (blocks c))"

lemma active_length:
  assumes "chain_ok X c"
  shows "length (blocks c) = Suc (unat (chain_height c))"
proof -
  have "blocks c \<noteq> []" using assms by (simp add: chain_ok_def active_ok_def)
  then show ?thesis using chain_ok_tip(2) [OF assms] by (cases "blocks c") (simp_all add: chain_height_def)
qed

lemma prune_final:
  assumes "chain_ok X c"
  shows "final_ok (prune_stale_orphans X c)"
  unfolding final_ok_def
proof (intro allI impI)
  let ?c = "prune_stale_orphans X c"
  fix h b
  assume get: "hm_get (all_blocks ?c) h = Some b" and low: "unat (height b) + 200 < length (blocks ?c)"
  note len = active_length [OF assms]
  have ge: "\<not> chain_height c < FINALITY_DEPTH"
    using low len by (simp add: FINALITY_DEPTH_def word_less_nat_alt)
  have cut: "unat (chain_height c - FINALITY_DEPTH) = unat (chain_height c) - 200"
    using ge by (simp add: unat_sub FINALITY_DEPTH_def word_less_nat_alt word_le_nat_alt)
  have "hm_ok (all_blocks c)" using assms by (simp add: chain_ok_def all_ok_def)
  moreover have "\<not> chain_height c - FINALITY_DEPTH < height b"
    using low len by (simp add: word_less_nat_alt cut)
  ultimately obtain b' where b': "b' \<in> set (blocks c)" "h = hash_hex X b'" "hm_get (all_blocks c) h = Some b"
    using get ge by (auto simp: prune_stale_orphans_def Let_def hm_get_retain split: if_splits option.splits)
  then have "b = b'" using assms by (simp add: chain_ok_def active_ok_def stored_def list_all_iff)
  with b'(1) show "b \<in> set (blocks ?c)" by simp
qed

section \<open>Switching\<close>

lemma numbered_prefix:
  assumes "numbered bs" "numbered cs" "n \<le> length bs" "\<And>i. i < n \<Longrightarrow> bs ! i \<in> set cs"
  shows "take n bs = take n cs"
proof -
  have at: "i < length cs \<and> cs ! i = bs ! i" if i: "i < n" for i
  proof -
    obtain j where j: "j < length cs" "cs ! j = bs ! i" using assms(4) [OF i] by (auto simp: in_set_conv_nth)
    moreover have "unat (height (bs ! i)) = i" "unat (height (cs ! j)) = j"
      using assms(1-3) i j(1) by (simp_all add: numbered_def)
    ultimately show ?thesis by simp
  qed
  then have "n \<le> length cs" by (metis not_le_imp_less order_less_irrefl)
  then show ?thesis using assms(3) at by (intro nth_equalityI) simp_all
qed

abbreviation work_of :: "block list \<Rightarrow> nat" where
  "work_of bs \<equiv> sum_list (map (\<lambda>b. unat (block_work (bits (header b)))) bs)"

text \<open>A branch that outweighs the active chain leaves it within the last 200 blocks: the difficulty of
  a block is determined by the blocks before it, so one block deep below the tip is not enough.\<close>

lemma heavier_branch_shares:
  assumes ok: "chain_ok X c" "branches_checked X c" "final_ok c"
    and bs: "branch X c bs" "numbered (bs @ [b])" "next_bits_for_blocks bs = Some (bits (header b))"
    and heavier: "work_of (blocks c) < work_of (bs @ [b])"
  shows "take (length (blocks c) - 200) (bs @ [b]) = take (length (blocks c) - 200) (blocks c)"
proof -
  let ?n = "length (blocks c) - 200"
  have act: "numbered (blocks c)" "branch X c (blocks c)" using ok(1) by (auto simp: chain_ok_def active_ok_def branch_def)
  have nb: "numbered bs" "bs \<noteq> []" "stored X (all_blocks c) bs" using bs(1) by (simp_all add: branch_def)
  have low: "bs ! i \<in> set (blocks c)" if "i < ?n" "i < length bs" for i
  proof -
    have "hm_get (all_blocks c) (hash_hex X (bs ! i)) = Some (bs ! i)" "unat (height (bs ! i)) = i"
      using nb that(2) by (simp_all add: stored_def list_all_length numbered_def)
    with ok(3) that(1) show ?thesis unfolding final_ok_def by simp
  qed
  show ?thesis
  proof (cases "?n \<le> length bs")
    case True
    then have "take ?n bs = take ?n (blocks c)" using low by (intro numbered_prefix [OF nb(1) act(1)]) simp_all
    with True show ?thesis by simp
  next
    case False
    let ?k = "length bs"
    have pre: "take ?k bs = take ?k (blocks c)" using low False by (intro numbered_prefix [OF nb(1) act(1)]) simp_all
    have k: "?k < length (blocks c)" "0 < ?k" using False nb(2) by simp_all
    have "fully_checked X (network_magic c) (blocks c)" using ok(2) act(2) by (simp add: branches_checked_def)
    then have "checked_block X (network_magic c) (take ?k (blocks c)) (blocks c ! ?k)" using k by (simp add: fully_checked_def)
    then have "bits (header (blocks c ! ?k)) = bits (header b)" using bs(3) pre by (simp add: checked_block_def)
    then have "work_of (bs @ [b]) = work_of (take ?k (blocks c) @ [blocks c ! ?k])" using pre by simp
    also have "\<dots> = work_of (take (Suc ?k) (blocks c))" using k(1) by (simp add: take_Suc_conv_app_nth)
    also have "\<dots> \<le> work_of (take (Suc ?k) (blocks c)) + work_of (drop (Suc ?k) (blocks c))" by simp
    also have "\<dots> = work_of (blocks c)" by (simp flip: sum_list_append map_append)
    finally show ?thesis using heavier by simp
  qed
qed

lemma store_errors:
  "store_save_block X b c = (Inl e, c') \<Longrightarrow> \<exists>s. e = StoreFailed s"
  "store_save_tip X h c = (Inl e, c') \<Longrightarrow> \<exists>s. e = StoreFailed s"
  by (auto simp: store_save_block_def store_save_tip_def map_err_def split: option.splits prod.splits sum.splits)

lemma store_blocks_errors: "store_save_blocks X bs c = (Inl e, c') \<Longrightarrow> \<exists>s. e = StoreFailed s"
proof (induction bs arbitrary: c)
  case (Cons b bs)
  obtain r c1 where "store_save_block X b c = (r, c1)" by fastforce
  then show ?case using Cons store_errors(1) [of X b c] by (cases r) auto
qed simp

lemma activate_errors:
  assumes ok: "chain_ok X c" and walk: "chain_to_hash c h = Inr bs" and act: "activate_chain X h c = (Inl e, c')"
  shows "e = MintOverflow \<or> (\<exists>s. e = StoreFailed s)"
proof -
  have ne: "bs \<noteq> []" using chain_to_hash_Inr(1) [OF _ walk] ok by (auto simp: chain_ok_def)
  obtain r1 c1 where c1: "rebuild_active_state X bs c = (r1, c1)" by fastforce
  obtain r2 c2 where c2: "store_save_blocks X (blocks c1) c1 = (r2, c2)" by fastforce
  have "r1 = Inl e \<or> r2 = Inl e \<or> store_save_tip X (hash_hex X (tip c2)) c2 = (Inl e, c')"
    using act walk ne c1 c2 by (cases r1; cases r2) (auto simp: activate_chain_def)
  then show ?thesis
    using rebuild_ok(3) [OF ok walk c1] store_blocks_errors [of X "blocks c1" c1 e c2] c2
      store_errors(2) [of X "hash_hex X (tip c2)" c2 e c'] by auto
qed

text \<open>One step: the switch, if there is one, and the pruning.\<close>

lemma switch_final:
  assumes ok: "chain_ok X c" "branches_checked X c" "final_ok c"
    and new: "fresh_leaf X b c" "height b \<noteq> 0" "hm_get (all_blocks c) (hash_hex X b) = None"
    and par: "hm_get (all_blocks c) (prev_hash (header b)) = Some p"
      "validate_block_against_parent X now c b (prev_hash (header b)) = Inr ()"
    and wk: "hm_get (chain_work c) (prev_hash (header b)) = Some pw"
      "checked_add pw (block_work (bits (header b))) = Some w"
    and cur: "hm_get (chain_work (insert_block X b w c)) (hash_hex X (tip c)) = Some t"
    and act: "(if t < w then activate_chain X (hash_hex X b) (insert_block X b w c)
               else (Inr (), insert_block X b w c)) = (r, c')"
  shows "r \<noteq> Inl MintOverflow \<Longrightarrow> (\<And>s. r \<noteq> Inl (StoreFailed s)) \<Longrightarrow> r = Inr () \<and> chain_ok X c'
      \<and> (blocks c' = blocks c \<or> last (blocks c') = b \<and> blocks c' \<noteq> [] \<and> work_of (blocks c) < work_of (blocks c'))
      \<and> take (length (blocks c) - 200) (blocks c') = take (length (blocks c) - 200) (blocks c)"
proof -
  assume r: "r \<noteq> Inl MintOverflow" "\<And>s. r \<noteq> Inl (StoreFailed s)"
  let ?c2 = "insert_block X b w c" and ?ph = "prev_hash (header b)"
  have hp: "unat (height b) = Suc (unat (height p))"
    by (rule unat_succ_height [OF validated_context(1) [OF par(2,1)] new(2)])
  obtain bs us m where v: "parent_context X c ?ph = Inr (bs, us, m)" "next_bits_for_blocks bs = Some (bits (header b))"
    using par(2) unfolding validate_block_Inr by blast
  then have walk: "chain_to_hash c ?ph = Inr bs"
    using ok(1) by (auto simp: parent_context_slow try_res_Inr)
  have all: "all_ok X (all_blocks c)" using ok(1) by (simp add: chain_ok_def)
  note bs = chain_to_hash_Inr [OF all walk]
  have ok2: "chain_ok X ?c2" by (rule chain_ok_insert [OF ok(1) new(3) par(1) hp wk new(1)])
  have br: "branch X c bs" using bs by (simp add: branch_def)
  have last: "last bs = p" "?ph = hash_hex X p" using bs(2) par(1) all_okD(1) [OF all par(1)] by simp_all
  have walk2: "chain_to_hash ?c2 (hash_hex X b) = Inr (bs @ [b])"
    by (rule chain_to_hash_insert [OF ok(1) new(3) walk]) (simp add: last(1) hp)
  show ?thesis
  proof (cases "t < w")
    case False
    then show ?thesis using act ok2 by (auto simp: insert_block_def)
  next
    case True
    note a = activate_ok [OF ok2 walk2, of r c'] and e = activate_errors [OF ok2 walk2]
    have "activate_chain X (hash_hex X b) ?c2 = (r, c')" using act True by simp
    then have c': "chain_ok X c'" "blocks c' = bs @ [b]" "r = Inr ()"
      using a e r by (cases r; auto)+
    have "hash_hex X (tip c) \<noteq> hash_hex X b" using chain_ok_tip(1) [OF ok(1)] new(3) by auto
    then have t: "hm_get (chain_work c) (hash_hex X (tip c)) = Some t" using cur by (simp add: insert_block_def)
    have wok: "work_ok (all_blocks c) (chain_work c)" using ok(1) by (simp add: chain_ok_def)
    have "unat t = work_of (blocks c)"
      using work_sum [OF wok all, of "blocks c"] ok(1) t by (auto simp: chain_ok_def active_ok_def tip_def)
    moreover have "unat pw = work_of bs"
      using work_sum [OF wok all bs(5,3,4,1)] wk(1) last by simp
    moreover have "unat w = unat pw + unat (block_work (bits (header b)))" using checked_add_SomeD [OF wk(2)] by simp
    ultimately have hv: "work_of (blocks c) < work_of (bs @ [b])" using True by (simp add: word_less_nat_alt)
    have nb: "numbered (bs @ [b])" using ok2 by (intro chain_to_hash_Inr(3) [OF _ walk2, of X]) (simp add: chain_ok_def)
    from heavier_branch_shares [OF ok br nb v(2) hv] c' hv show ?thesis by simp
  qed
qed

lemma validate_ignores_store:
  "validate_block_against_parent X now (c\<lparr>chain_store := s\<rparr>) b h = validate_block_against_parent X now c b h"
proof -
  let ?c = "c\<lparr>chain_store := s\<rparr>"
  have fields: "all_blocks ?c = all_blocks c" "network_magic ?c = network_magic c" by simp_all
  have "chain_to_hash ?c h = chain_to_hash c h" by (simp add: chain_to_hash_def)
  then have ctx: "parent_context X ?c h = parent_context X c h" by (simp add: parent_context_def tip_def)
  have sub: "validate_coinbase_subsidy_with_state X ?c b = validate_coinbase_subsidy_with_state X c b"
    unfolding validate_coinbase_subsidy_with_state_def fields ..
  show ?thesis unfolding validate_block_against_parent_def fields ctx sub ..
qed

lemma add_block_final:
  assumes ok: "chain_ok X c" "branches_checked X c" "final_ok c"
    and new: "fresh_leaf X b c" "height b \<noteq> 0" "add_block X now b c = (r, c')"
    and r: "r \<noteq> Inl MintOverflow" "\<And>s. r \<noteq> Inl (StoreFailed s)"
  shows "final_ok c' \<and> (blocks c' = blocks c \<or> last (blocks c') = b \<and> blocks c' \<noteq> [] \<and> work_of (blocks c) < work_of (blocks c'))
    \<and> take (length (blocks c) - 200) (blocks c') = take (length (blocks c) - 200) (blocks c)"
  using new(3)
proof (cases rule: add_block_cases)
  case (refused s)
  then show ?thesis using ok(3) by (simp add: final_ok_def)
next
  case (stored p pw w s c2)
  let ?c1 = "c\<lparr>chain_store := s\<rparr>"
  have c1: "chain_ok X ?c1" "branches_checked X ?c1" "final_ok ?c1" "fresh_leaf X b ?c1"
    using ok new(1) branches_checked_sub [OF ok(2), of ?c1] by (simp_all add: final_ok_def fresh_leaf_def)
  have tip2: "tip c2 = tip ?c1" by (simp add: stored(7) insert_block_def tip_def)
  obtain t where t: "hm_get (chain_work c2) (hash_hex X (tip ?c1)) = Some t"
    using chain_ok_tip(3) [OF c1(1)] by (cases "hash_hex X (tip ?c1) = hash_hex X b") (auto simp: stored(7) insert_block_def)
  obtain ar c3 where act: "(if t < w then activate_chain X (hash_hex X b) c2 else (Inr (), c2)) = (ar, c3)"
    by fastforce
  have out: "(r, c') = (case ar of Inl e \<Rightarrow> (Inl e, c3) | Inr _ \<Rightarrow> (Inr (), prune_stale_orphans X c3))"
    using stored(8) unfolding tip2 t option.case act by (cases ar) simp_all
  then have "ar \<noteq> Inl MintOverflow" "ar \<noteq> Inl (StoreFailed e)" for e using r by auto
  moreover have "validate_block_against_parent X now ?c1 b (prev_hash (header b)) = Inr ()"
    using stored(4) by (simp add: validate_ignores_store)
  ultimately have c3: "ar = Inr ()" "chain_ok X c3" "blocks c3 = blocks c \<or> last (blocks c3) = b \<and> blocks c3 \<noteq> [] \<and> work_of (blocks c) < work_of (blocks c3)"
    "take (length (blocks c) - 200) (blocks c3) = take (length (blocks c) - 200) (blocks c)"
    using switch_final [OF c1(1-4) new(2) _ _ _ _ stored(6) t [unfolded stored(7)] act [unfolded stored(7)], of p now]
      stored(1,2,5) by auto
  then have "c' = prune_stale_orphans X c3" using out by simp
  then show ?thesis using c3(3,4) prune_final [OF c3(2)] by simp
qed

section \<open>Reachable states\<close>

text \<open>The steps of a node whose store does not fail and whose minted total does not overflow.\<close>

inductive steady_step :: "('d, 'x) store_lib_scheme \<Rightarrow> 'd blockchain \<Rightarrow> 'd blockchain \<Rightarrow> bool" for X where
  block_taken: "add_block X now b c = (r, c') \<Longrightarrow> fresh_leaf X b c \<Longrightarrow> height b \<noteq> 0 \<Longrightarrow>
     r \<noteq> Inl MintOverflow \<Longrightarrow> (\<forall>e. r \<noteq> Inl (StoreFailed e)) \<Longrightarrow> steady_step X c c'"
| tx_taken: "submit_transaction X tx c = (sr, c') \<Longrightarrow> steady_step X c c'"

inductive_cases steady_stepE: "steady_step X c c'"

lemma steady_is_chain_step: "steady_step X c c' \<Longrightarrow> chain_step X c c'"
  by (auto elim!: steady_stepE intro: chain_step.intros)

lemma steady_step_final:
  assumes "steady_step X c c'" "chain_ok X c" "branches_checked X c" "final_ok c"
  shows "final_ok c' \<and> (blocks c' = blocks c \<or> work_of (blocks c) < work_of (blocks c'))
    \<and> take (length (blocks c) - 200) (blocks c') = take (length (blocks c) - 200) (blocks c)"
  using assms(1)
proof cases
  case (block_taken now b r)
  then show ?thesis using add_block_final [OF assms(2-4), of b now r c'] by blast
next
  case (tx_taken tx sr)
  then have "all_blocks c' = all_blocks c" "blocks c' = blocks c" using submit_core [of X tx c sr c'] by auto
  then show ?thesis using assms(4) by (simp add: final_ok_def)
qed

interpretation steady: guarded_system "fresh_chain X" "steady_step X"
  "\<lambda>c. (chain_ok X c \<and> branches_checked X c) \<and> final_ok c" for X
proof
  show "fresh_chain X c \<Longrightarrow> (chain_ok X c \<and> branches_checked X c) \<and> final_ok c" for c
    by (auto simp: fresh_chain_def chain_ok_genesis genesis_checked)
      (simp add: final_ok_def from_genesis_with_magic_def Let_def)
  show "steady_step X c c' \<Longrightarrow> (chain_ok X c \<and> branches_checked X c) \<and> final_ok c \<Longrightarrow>
      (chain_ok X c' \<and> branches_checked X c') \<and> final_ok c'" for c c'
    using checked.step_inv [of X c c'] steady_is_chain_step steady_step_final by blast
qed

text \<open>C5: no reorganisation reaches below the finality depth. In every reachable state of a node, whatever
  block or payment arrives next, the active chain keeps all its blocks but the last 200; only these can
  be replaced. For a deeper switch a branch would have to start at a block 200 or more below the tip,
  but after every accepted block the stored blocks of these heights are those of the active chain
  alone, and a single new block on one of them never outweighs the chain, as its difficulty is the one
  the chain's own block of that height had.
\<close>

theorem reorg_depth_bounded:
  assumes "fresh_chain X c0" "(steady_step X)\<^sup>*\<^sup>* c0 c" "steady_step X c c'"
  shows "take (length (blocks c) - 200) (blocks c') = take (length (blocks c) - 200) (blocks c)
    \<and> (\<forall>h b. hm_get (all_blocks c') h = Some b \<longrightarrow> unat (height b) + 200 < length (blocks c') \<longrightarrow> b \<in> set (blocks c'))"
  using steady_step_final [OF assms(3)] steady.reachable_inv [OF assms(1,2)] unfolding final_ok_def by blast

text \<open>The witness is a chain of 301 blocks, of which the first 101 are final, and one block more.\<close>

lemma deep_run: "n < 2016 \<Longrightarrow> \<exists>c. (steady_step deep_lib)\<^sup>*\<^sup>* deep_chain c \<and> deep n c"
proof (induction n)
  case 0
  then show ?case using deep_start by blast
next
  case (Suc n)
  then obtain c where c: "(steady_step deep_lib)\<^sup>*\<^sup>* deep_chain c" "deep n c" by auto
  obtain now b c' where "add_block deep_lib now b c = (Inr (), c')" "fresh_leaf deep_lib b c" "height b \<noteq> 0" "deep (Suc n) c'"
    by (rule deep_step [OF c(2) Suc.prems])
  then have "steady_step deep_lib c c'" "deep (Suc n) c'" by (simp_all add: block_taken [of _ _ _ _ "Inr ()"])
  with c(1) show ?case by (meson rtranclp.rtrancl_into_rtrancl)
qed

theorem reorg_depth_bounded_witness:
  "\<exists>c c'. (steady_step deep_lib)\<^sup>*\<^sup>* deep_chain c \<and> steady_step deep_lib c c'
     \<and> length (blocks c) = 301 \<and> length (blocks c') = 302 \<and> take 101 (blocks c') = take 101 (blocks c)"
proof -
  obtain c where c: "(steady_step deep_lib)\<^sup>*\<^sup>* deep_chain c" "deep 300 c" using deep_run [of 300] by auto
  obtain now b c' where a: "add_block deep_lib now b c = (Inr (), c')" "fresh_leaf deep_lib b c" "height b \<noteq> 0"
    "blocks c' = blocks c @ [b]"
    by (rule deep_step [OF c(2)]) simp
  then have s: "steady_step deep_lib c c'" by (simp add: block_taken [of _ _ _ _ "Inr ()"])
  have "height demo_gen = 0" by (simp add: demo_gen_def)
  then have "fresh_chain deep_lib deep_chain" unfolding fresh_chain_def deep_chain_def by blast
  moreover have "length (blocks c) = 301" using c(2) by (simp add: deep_def)
  ultimately have "take (301 - 200) (blocks c') = take (301 - 200) (blocks c)" "length (blocks c) = 301"
    using reorg_depth_bounded [OF _ c(1) s] by (simp_all only:)
  then show ?thesis using c(1) s a(4) by (intro exI [of _ c] exI [of _ c']) simp
qed

text \<open>A block on a branch that leaves the chain deeper than that is answered with \<open>Ok\<close>, but it is neither
  active nor stored afterwards, so that its children are refused for their unknown parent.\<close>

lemma deep_fork_dropped:
  assumes "fresh_chain X c0" "(steady_step X)\<^sup>*\<^sup>* c0 c"
    and b: "add_block X now b c = (Inr (), c')" "fresh_leaf X b c" "height b \<noteq> 0"
    and new: "hm_get (all_blocks c) (hash_hex X b) = None" "unat (height b) + 200 < length (blocks c)"
  shows "blocks c' = blocks c \<and> hm_get (all_blocks c') (hash_hex X b) \<noteq> Some b"
proof -
  have inv: "chain_ok X c" "branches_checked X c" "final_ok c" using steady.reachable_inv [OF assms(1,2)] by auto
  have f: "final_ok c'" "blocks c' = blocks c \<or> last (blocks c') = b \<and> blocks c' \<noteq> []"
    "take (length (blocks c) - 200) (blocks c') = take (length (blocks c) - 200) (blocks c)"
    using add_block_final [OF inv b(2,3,1)] by auto
  have num: "numbered (blocks c')" "stored X (all_blocks c) (blocks c)"
    using inv(1) add_block_ok [OF inv(1) b(2,3,1)] by (simp_all add: chain_ok_def active_ok_def)
  have out: "b \<notin> set (blocks c)" using num(2) new(1) by (auto simp: stored_def list_all_iff)
  have same: "blocks c' = blocks c"
  proof (rule ccontr)
    let ?k = "length (blocks c) - 200" and ?j = "unat (height b)"
    assume "blocks c' \<noteq> blocks c"
    then have l: "blocks c' \<noteq> []" "last (blocks c') = b" using f(2) by auto
    then have "?j = length (blocks c') - 1" using numbered_last [OF num(1)] by simp
    then have j: "?j < length (blocks c')" "blocks c' ! ?j = b" using l by (simp_all add: last_conv_nth)
    have "b = take ?k (blocks c') ! ?j" using j(2) new(2) by simp
    also have "\<dots> = blocks c ! ?j" unfolding f(3) using new(2) by simp
    finally show False using out new(2) by (metis nth_mem add_lessD1)
  qed
  with f(1) new(2) out show ?thesis unfolding final_ok_def by auto
qed

end
