(* ===== verification/Ledger.thy ===== *)
theory Ledger
  imports Finality
begin

text \<open>
  What a node promises to those who read its chain, as a specification: a ledger, which is a list of
  checked blocks on one genesis block that changes only to a list of more work and keeps what is
  final. The states of \<open>Blockchain\<close> in \<open>src/blockchain/chain.rs\<close>, with their maps, indexes, side
  branches, mempool and store, refine it, and their outputs and minted total are functions of it.
\<close>

section \<open>The specification\<close>

record ledger =
  ledger_magic :: u32
  ledger_blocks :: "block list"

inductive ledger_step :: "'x block_lib_scheme \<Rightarrow> ledger \<Rightarrow> ledger \<Rightarrow> bool" for X where
  unchanged: "ledger_step X l l"
| heavier: "ledger_magic l' = ledger_magic l \<Longrightarrow> hd (ledger_blocks l') = hd (ledger_blocks l) \<Longrightarrow>
     take (length (ledger_blocks l) - 200) (ledger_blocks l') = take (length (ledger_blocks l) - 200) (ledger_blocks l) \<Longrightarrow>
     work_of (ledger_blocks l) < work_of (ledger_blocks l') \<Longrightarrow>
     linked X (ledger_blocks l') \<Longrightarrow> numbered (ledger_blocks l') \<Longrightarrow>
     fully_checked X (ledger_magic l) (ledger_blocks l') \<Longrightarrow> ledger_step X l l'"

text \<open>Along a run of the specification the work only grows, so that a chain that was left never comes
  back, and the genesis block stays.\<close>

lemma ledger_run:
  assumes "(ledger_step X)\<^sup>*\<^sup>* l l'"
  shows "l' = l \<or> work_of (ledger_blocks l) < work_of (ledger_blocks l')"
    and "hd (ledger_blocks l') = hd (ledger_blocks l)"
  using assms by (induction rule: rtranclp_induct) (auto elim!: ledger_step.cases)

section \<open>The refinement\<close>

definition ledger_of :: "'d blockchain \<Rightarrow> ledger" where
  "ledger_of c = \<lparr>ledger_magic = network_magic c, ledger_blocks = blocks c\<rparr>"

definition ledger_inv :: "'x block_lib_scheme \<Rightarrow> block \<Rightarrow> 'd blockchain \<Rightarrow> bool" where
  "ledger_inv X g c \<longleftrightarrow> ((chain_ok X c \<and> branches_checked X c) \<and> final_ok c)
     \<and> (chain_ok X c \<and> (\<forall>h b. hm_get (all_blocks c) h = Some b \<longrightarrow> height b = 0 \<longrightarrow> b = g))"

lemma ledger_inv_hd:
  assumes "ledger_inv X g c"
  shows "blocks c \<noteq> [] \<and> hd (blocks c) = g"
proof -
  have "blocks c \<noteq> []" "numbered (blocks c)" "stored X (all_blocks c) (blocks c)"
    using assms by (auto simp: ledger_inv_def chain_ok_def active_ok_def)
  then have "hm_get (all_blocks c) (hash_hex X (hd (blocks c))) = Some (hd (blocks c))" "height (hd (blocks c)) = 0"
    by (auto simp: stored_def list_all_iff numbered_def hd_conv_nth unat_eq_0)
  with \<open>blocks c \<noteq> []\<close> assms show ?thesis unfolding ledger_inv_def by blast
qed

lemma ledger_inv_checked:
  assumes "ledger_inv X g c"
  shows "linked X (blocks c)" "numbered (blocks c)" "fully_checked X (network_magic c) (blocks c)"
  using assms by (auto simp: ledger_inv_def branches_checked_def branch_def chain_ok_def active_ok_def)

lemma ledger_inv_init:
  assumes "fresh_chain X c" "blocks c = [g]"
  shows "ledger_inv X g c"
proof -
  obtain g' s magic where c: "height g' = 0" "c = from_genesis_with_magic X g' s magic"
    using assms(1) by (auto simp: fresh_chain_def)
  then have "g' = g" using assms(2) by (simp add: from_genesis_with_magic_def Let_def)
  moreover have "hm_get (all_blocks c) h = Some b \<longleftrightarrow> b = g' \<and> h = hash_hex X g'" "blocks c = [g']" for h b
    by (auto simp: c(2) from_genesis_with_magic_def Let_def)
  moreover have "chain_ok X c" "branches_checked X c" using c by (simp_all add: chain_ok_genesis genesis_checked)
  ultimately show ?thesis by (auto simp: ledger_inv_def final_ok_def)
qed

lemma ledger_inv_step:
  assumes "steady_step X c c'" "ledger_inv X g c"
  shows "ledger_inv X g c'"
  using steady.step_inv [OF assms(1)] rooted.step_inv [OF steady_is_chain_step [OF assms(1)], of g] assms(2)
  unfolding ledger_inv_def by blast

lemma steady_step_magic:
  assumes "steady_step X c c'" "chain_ok X c"
  shows "network_magic c' = network_magic c"
  using assms(1)
proof cases
  case (block_taken now b r)
  have "hm_ok (all_blocks c)" using assms(2) by (simp add: chain_ok_def all_ok_def)
  from add_block_stored(1) [OF this block_taken(1)] show ?thesis .
next
  case (tx_taken tx sr)
  then show ?thesis using submit_core [of X tx c sr c'] by auto
qed

interpretation ledger: simulating_system "\<lambda>c. fresh_chain X c \<and> blocks c = [g]" "steady_step X"
  "ledger_inv X g" "ledger_step X" ledger_of for X g
proof
  show "fresh_chain X c \<and> blocks c = [g] \<Longrightarrow> ledger_inv X g c" for c
    by (blast intro: ledger_inv_init)
  show "steady_step X c c' \<Longrightarrow> ledger_inv X g c \<Longrightarrow> ledger_inv X g c'" for c c' by (rule ledger_inv_step)
  show "ledger_step X (ledger_of c) (ledger_of c')" if s: "steady_step X c c'" and i: "ledger_inv X g c" for c c'
  proof (cases "blocks c' = blocks c")
    case True
    then show ?thesis using steady_step_magic [OF s] i by (simp add: ledger_of_def ledger_inv_def unchanged)
  next
    case False
    note i' = ledger_inv_step [OF s i]
    have "chain_ok X c" "branches_checked X c" "final_ok c" using i by (simp_all add: ledger_inv_def)
    note f = steady_step_final [OF s this] and m = steady_step_magic [OF s \<open>chain_ok X c\<close>]
    show ?thesis
      using f False m ledger_inv_hd [OF i] ledger_inv_hd [OF i'] ledger_inv_checked [OF i']
      by (intro heavier) (simp_all add: ledger_of_def)
  qed
qed

text \<open>C4: a node is a ledger. Every run of a node from its genesis block is, seen through its active
  chain, a run of the specification: each arriving block or payment leaves the ledger as it is or
  replaces it by a chain of strictly more work with the same genesis block, every block of which has
  passed the checks against the blocks before it, and which differs in the last 200 blocks only.
  The unspent outputs and the minted total the node keeps are those of the replay of the ledger, so
  they do not depend on the branches and switches it went through.\<close>

theorem node_refines_ledger:
  assumes "fresh_chain X c0" "blocks c0 = [g]" "(steady_step X)\<^sup>*\<^sup>* c0 c"
  shows "(ledger_step X)\<^sup>*\<^sup>* (ledger_of c0) (ledger_of c)
    \<and> replay X (ledger_blocks (ledger_of c)) utxo_default 0 = Inr (chain_utxos c, total_minted c)
    \<and> (\<forall>c'. steady_step X c c' \<longrightarrow> ledger_step X (ledger_of c) (ledger_of c'))"
proof -
  have i: "ledger_inv X g c" using ledger.reachable_inv [of X c0 g c] assms by simp
  then have "replay X (ledger_blocks (ledger_of c)) utxo_default 0 = Inr (chain_utxos c, total_minted c)"
    by (simp add: ledger_inv_def chain_ok_def active_ok_def ledger_of_def)
  moreover have "(ledger_step X)\<^sup>*\<^sup>* (ledger_of c0) (ledger_of c)"
    using ledger.run_sim [OF assms(3), of g] assms(1,2) by simp
  ultimately show ?thesis using ledger.step_sim [OF _ i] by blast
qed

theorem node_refines_ledger_witness:
  "\<exists>c. (steady_step demo_lib)\<^sup>*\<^sup>* demo_chain c \<and> blocks c = [demo_gen, demo_next]
     \<and> (ledger_step demo_lib)\<^sup>*\<^sup>* (ledger_of demo_chain) (ledger_of c)
     \<and> replay demo_lib [demo_gen, demo_next] utxo_default 0 = Inr (chain_utxos c, total_minted c)"
proof -
  obtain c where c: "add_block demo_lib 1700000100 demo_next demo_chain = (Inr (), c)" "blocks c = [demo_gen, demo_next]"
    using demo_second by blast
  then have s: "(steady_step demo_lib)\<^sup>*\<^sup>* demo_chain c"
    using demo_next_leaf by (intro r_into_rtranclp block_taken [of _ _ _ _ "Inr ()"]) simp_all
  from node_refines_ledger [OF demo_chain_ok(3) demo_chain_fields(2) s] s c(2) show ?thesis
    by (auto simp: ledger_of_def)
qed

end
