(* ===== verification/Convergence.thy ===== *)
theory Convergence
  imports Finality
begin

text \<open>
  Two nodes that receive the same blocks (\<open>add_block\<close> of \<open>src/blockchain/chain.rs\<close>). As long as the
  chain is too short for pruning, the stored blocks are those that were delivered, whatever their
  order, and the choice of the active chain depends on them alone, up to chains of equal work.
\<close>

section \<open>Delivery\<close>

text \<open>Blocks taken one after the other, each at the time of its arrival; \<open>None\<close> when one is refused.\<close>

fun take_blocks :: "('d, 'x) store_lib_scheme \<Rightarrow> (u64 \<times> block) list \<Rightarrow> 'd blockchain \<Rightarrow> 'd blockchain option"
where
  "take_blocks X [] c = Some c"
| "take_blocks X ((now, b) # es) c =
     (case add_block X now b c of
        (Inl e, c') \<Rightarrow> None
      | (Inr _, c') \<Rightarrow> take_blocks X es c')"

text \<open>A chain below the finality depth: nothing was pruned, so that every parent is stored.\<close>

definition shallow :: "'x tx_lib_scheme \<Rightarrow> 'd blockchain \<Rightarrow> bool" where
  "shallow X c \<longleftrightarrow> chain_ok X c \<and> tip_best X c
     \<and> (\<forall>h b. hm_get (all_blocks c) h = Some b \<longrightarrow> unat (height b) < 200
          \<and> (height b \<noteq> 0 \<longrightarrow> hm_get (all_blocks c) (prev_hash (header b)) \<noteq> None))"

lemma shallow_genesis:
  assumes "height g = 0"
  shows "shallow X (from_genesis_with_magic X g s magic)"
  using chain_ok_genesis [OF assms, of X s magic] assms
  by (simp add: shallow_def) (simp add: from_genesis_with_magic_def Let_def)

lemma shallow_leaf:
  assumes "shallow X c" "hm_get (all_blocks c) (hash_hex X b) = None"
  shows "fresh_leaf X b c"
  using assms unfolding shallow_def fresh_leaf_def by metis

lemma prune_shallow: "chain_height c < FINALITY_DEPTH \<Longrightarrow> prune_stale_orphans X c = c"
  by (simp add: prune_stale_orphans_def Let_def)

text \<open>An accepted block is stored, unless its hash is known, and nothing else changes in the store.\<close>

lemma add_block_shallow:
  assumes sh: "shallow X c" and low: "unat (height b) < 200" and add: "add_block X now b c = (Inr u, c')"
  shows "shallow X c' \<and> (\<forall>h. hm_get (all_blocks c') h =
    (if h = hash_hex X b \<and> hm_get (all_blocks c) h = None then Some b else hm_get (all_blocks c) h))"
  using add
proof (cases rule: add_block_cases)
  case (refused s)
  then have "hm_get (all_blocks c) (hash_hex X b) \<noteq> None" by simp
  with refused(1) sh show ?thesis by (auto simp: shallow_def tip_best_def tip_def)
next
  case (stored p pw w s c2)
  let ?h = "hash_hex X b"
  have ok: "chain_ok X c" "tip_best X c" and lowc: "hm_get (all_blocks c) h = Some x \<Longrightarrow> unat (height x) < 200" for h x
    using sh by (auto simp: shallow_def)
  have hb: "height b \<noteq> 0"
  proof
    assume "height b = 0"
    then have "height p + 1 = 0" using validated_context(1) [OF stored(4,2)] by simp
    then have "unat (height p + 1) = 0" by simp
    then show False using lowc [OF stored(2)] by (simp add: unat_word_ariths)
  qed
  have ok': "chain_ok X c'" "tip_best X c'"
    using add_block_ok [OF ok(1) shallow_leaf [OF sh stored(1)] hb add] ok(2) by simp_all
  obtain t where t: "hm_get (chain_work c2) (hash_hex X (tip c2)) = Some t"
    using stored(8) by (cases "hm_get (chain_work c2) (hash_hex X (tip c2))") simp_all
  obtain ar c3 where act: "(if t < w then activate_chain X ?h c2 else (Inr (), c2)) = (ar, c3)" by fastforce
  have c': "c' = prune_stale_orphans X c3" using stored(8) unfolding t option.case act by (cases ar) simp_all
  have "all_blocks c3 = all_blocks c2" using act activate_core [of X ?h c2 ar c3] by (auto split: if_splits)
  then have c3: "all_blocks c3 = hm_insert ?h b (all_blocks c)" by (simp add: stored(7) insert_block_def)
  have hm: "hm_ok (all_blocks c3)" using ok(1) by (simp add: c3 chain_ok_def all_ok_def)
  have low3: "unat (height x) < 200" if "hm_get (all_blocks c3) h = Some x" for h x
    using that low lowc by (auto simp: c3 split: if_splits)
  have "hm_get (all_blocks c3) (hash_hex X (tip c3)) = Some (tip c3)"
    using chain_ok_tip(1) [OF ok'(1)] hm unfolding c'
    by (auto simp: prune_stale_orphans_def Let_def hm_get_retain tip_def split: if_splits option.splits)
  then have "chain_height c3 < FINALITY_DEPTH"
    using low3 by (simp add: chain_height_def FINALITY_DEPTH_def word_less_nat_alt)
  then have all': "all_blocks c' = hm_insert ?h b (all_blocks c)" by (simp add: c' c3 prune_shallow)
  have "shallow X c'"
    using ok' low sh stored(2) unfolding shallow_def all' by (auto split: if_splits)
  then show ?thesis using stored(1) by (simp add: all')
qed

lemma take_blocks_shallow:
  assumes "take_blocks X es c = Some c'" "shallow X c" "\<forall>b \<in> set (map snd es). unat (height b) < 200"
    and "inj_on (hash_hex X) (S \<union> set (map snd es))"
    and "\<And>h x. hm_get (all_blocks c) h = Some x \<longleftrightarrow> x \<in> S \<and> h = hash_hex X x"
  shows "shallow X c' \<and>
    (\<forall>h x. hm_get (all_blocks c') h = Some x \<longleftrightarrow> x \<in> S \<union> set (map snd es) \<and> h = hash_hex X x)"
  using assms
proof (induction es arbitrary: c S)
  case (Cons e es)
  obtain now b where e: "e = (now, b)" by fastforce
  obtain u c1 where add: "add_block X now b c = (Inr u, c1)" and rest: "take_blocks X es c1 = Some c'"
    using Cons.prems(1) e by (auto split: prod.splits sum.splits)
  have c1: "shallow X c1" "hm_get (all_blocks c1) h =
      (if h = hash_hex X b \<and> hm_get (all_blocks c) h = None then Some b else hm_get (all_blocks c) h)" for h
    using add_block_shallow [OF Cons.prems(2) _ add] Cons.prems(3) e by simp_all
  have inj: "x = b" if "x \<in> S" "hash_hex X x = hash_hex X b" for x
    using that Cons.prems(4) e by (auto simp: inj_on_def)
  have "hm_get (all_blocks c1) h = Some x \<longleftrightarrow> x \<in> insert b S \<and> h = hash_hex X x" for h x
  proof (cases "b \<in> S")
    case True
    then have "hm_get (all_blocks c) (hash_hex X b) = Some b" using Cons.prems(5) by simp
    then show ?thesis using True Cons.prems(5) [of h x] by (auto simp: c1(2) insert_absorb)
  next
    case False
    then have "hm_get (all_blocks c) (hash_hex X b) = None"
      using inj Cons.prems(5) [of "hash_hex X b"] by (cases "hm_get (all_blocks c) (hash_hex X b)") (simp, metis)
    then show ?thesis using False inj [of x] Cons.prems(5) [of h x] by (auto simp: c1(2))
  qed
  then show ?case using Cons.IH [OF rest c1(1), of "insert b S"] Cons.prems(3,4) e by simp
qed simp

section \<open>Convergence\<close>

lemma same_stored_work:
  assumes "shallow X c" "shallow X c'" "\<And>h. hm_get (all_blocks c) h = hm_get (all_blocks c') h"
  shows "branch X c' (blocks c)" "work_of (blocks c) \<le> work_of (blocks c')"
proof -
  show b: "branch X c' (blocks c)"
    using assms by (auto simp: shallow_def chain_ok_def active_ok_def branch_def stored_def list_all_iff)
  then have "chain_to_hash c' (hash_hex X (last (blocks c))) = Inr (blocks c)"
    unfolding branch_def by (intro chain_to_hash_build) simp_all
  then show "work_of (blocks c) \<le> work_of (blocks c')"
    using best_chain_work [of X c'] assms(2) by (simp add: shallow_def)
qed

lemma same_chain_same_state:
  assumes "chain_ok X c" "chain_ok X c'" "blocks c = blocks c'"
  shows "chain_utxos c = chain_utxos c' \<and> total_minted c = total_minted c'"
  using assms by (simp add: chain_ok_def active_ok_def)



end
