(* ===== verification/Supply.thy ===== *)
theory Supply
  imports Chain_Validity
begin

text \<open>
  The money supply: what the checks of \<open>src/blockchain/chain.rs\<close> and the updates of
  \<open>src/transaction/utxo.rs\<close> add up to over a whole chain. The value of all unspent outputs never
  exceeds the cap of \<open>MAX_SUPPLY_ARKES\<close>, on every chain whose transactions name no output twice
  (the code does not enforce this) and whose transaction ids do not collide with outputs spent
  in the same block.
\<close>

section \<open>Value of a set of outputs\<close>

lemma hm_sum_insert_le: "hm_sum f (hm_insert k v m) \<le> f v + hm_sum f m"
proof (induction m)
  case Nil
  then show ?case by (simp add: hm_insert_def hm_sum_def)
next
  case (Cons p m)
  obtain k' v' where p: "p = (k', v')" by (cases p)
  with Cons show ?case by (auto simp: hm_insert_def hm_sum_Cons)
qed

lemma hm_sum_fold_insert_le:
  "hm_sum f (fold (\<lambda>(k, v). hm_insert k v) kvs m) \<le> sum_list (map (f \<circ> snd) kvs) + hm_sum f m"
proof (induction kvs arbitrary: m)
  case (Cons p kvs)
  obtain k v where p: "p = (k, v)" by (cases p)
  show ?case using Cons.IH [of "hm_insert k v m"] hm_sum_insert_le [of f k v m] by (simp add: p)
qed simp

lemma total_coinbase_le:
  "is_coinbase tx \<Longrightarrow> utxo_total (apply_transaction X tx us) \<le> utxo_total us + outputs_total tx"
  using hm_sum_fold_insert_le [of "\<lambda>out. unat (out_value out)" "created_entries X tx" "utxos us"]
  by (simp add: utxo_total_def apply_transaction_def Let_def created_entries_total add.commute)

lemma total_spend_le:
  assumes "\<not> is_coinbase tx" "utxo_ok us" "distinct (outpoints tx)"
    and present: "list_all (\<lambda>(h, i). utxo_get us h i \<noteq> None) (outpoints tx)"
  shows "utxo_total (apply_transaction X tx us) + inputs_total us tx \<le> utxo_total us + outputs_total tx"
proof -
  let ?f = "\<lambda>out. unat (out_value out)"
  have "utxo_total (apply_transaction X tx us) \<le> outputs_total tx + hm_sum ?f (fold hm_remove (spent_keys tx) (utxos us))"
    using assms(1) hm_sum_fold_insert_le [of ?f "created_entries X tx" "fold hm_remove (spent_keys tx) (utxos us)"]
    by (simp add: utxo_total_def apply_transaction_def Let_def created_entries_total)
  with spent_total [OF assms(2-4)] show ?thesis by (simp add: utxo_total_def)
qed

section \<open>Transactions of one block\<close>

text \<open>What the checks leave open: a transaction that names an output twice, and an id that collides
  with the transaction of an output spent in the same block.\<close>

definition plain_spends :: "'x tx_lib_scheme \<Rightarrow> block \<Rightarrow> bool" where
  "plain_spends X b \<longleftrightarrow> (\<forall>tx \<in> set (tl (transactions b)). distinct (outpoints tx)
     \<and> (\<forall>(h, i) \<in> set (outpoints tx). h \<notin> txid_hex X ` set (transactions b)))"

lemma tail_value:
  assumes "validate_transactions X magic ht txs usv = Inr ()" "utxo_ok us"
    and "\<forall>tx \<in> set txs. \<not> is_coinbase tx \<and> distinct (outpoints tx) \<and> length (outputs tx) \<le> 2 ^ 32
      \<and> set (outpoints tx) \<subseteq> P \<and> txid_hex X tx \<notin> fst ` P"
    and "\<forall>(h, i) \<in> P. utxo_get us h i = utxo_get usv h i
      \<and> (utxo_get usv h i = None \<or> utxo_get usv h i = utxo_get us0 h i)"
  shows "utxo_total (fold (apply_transaction X) txs us) + sum_list (map (inputs_total us0) txs)
    \<le> utxo_total us + sum_list (map outputs_total txs)"
  using assms
proof (induction txs arbitrary: us usv)
  case (Cons tx txs)
  obtain fee where v: "validate_tx_with_utxo X tx usv magic ht = Inr fee"
    "validate_transactions X magic ht txs (apply_transaction X tx usv) = Inr ()"
    using Cons.prems(1) by (auto simp: try_res_Inr)
  have pres: "list_all (\<lambda>(h, i). utxo_get usv h i \<noteq> None) (outpoints tx)"
    using v(1) acceptable_inputs_present by (auto simp: validate_tx_Inr)
  have tx: "\<not> is_coinbase tx" "distinct (outpoints tx)" "length (outputs tx) \<le> 2 ^ 32"
    "set (outpoints tx) \<subseteq> P" "txid_hex X tx \<notin> fst ` P"
    using Cons.prems(3) by auto
  have same: "utxo_get us h i = utxo_get usv h i" "utxo_get us h i = utxo_get us0 h i"
    if "(h, i) \<in> set (outpoints tx)" for h i
    using that pres Cons.prems(4) tx(4) by (fastforce simp: list_all_iff)+
  have ins: "inputs_total us tx = inputs_total us0 tx"
    unfolding inputs_total_def by (intro arg_cong [of _ _ sum_list] map_cong) (auto simp: same(2))
  have "list_all (\<lambda>(h, i). utxo_get us h i \<noteq> None) (outpoints tx)"
    using pres same(1) by (auto simp: list_all_iff)
  then have step: "utxo_total (apply_transaction X tx us) + inputs_total us tx \<le> utxo_total us + outputs_total tx"
    by (rule total_spend_le [OF tx(1) Cons.prems(2) tx(2)])
  have "\<forall>(h, i) \<in> P. utxo_get (apply_transaction X tx us) h i = utxo_get (apply_transaction X tx usv) h i
      \<and> (utxo_get (apply_transaction X tx usv) h i = None \<or> utxo_get (apply_transaction X tx usv) h i = utxo_get us0 h i)"
    using Cons.prems(4) tx(1,5) by (force simp: utxo_get_apply [OF tx(3)])
  then have "utxo_total (fold (apply_transaction X) txs (apply_transaction X tx us)) + sum_list (map (inputs_total us0) txs)
    \<le> utxo_total (apply_transaction X tx us) + sum_list (map outputs_total txs)"
    using Cons.prems(2,3) by (intro Cons.IH [OF v(2)]) auto
  with step ins show ?case by simp
qed simp

text \<open>A coinbase names the output number \<open>2^32 - 1\<close>, which no transaction of a valid block has: a
  second coinbase in a block is therefore never acceptable.\<close>

definition last_free :: "utxo_set \<Rightarrow> bool" where
  "last_free us \<longleftrightarrow> (\<forall>h. utxo_get us h (- 1) = None)"

lemma last_free_apply:
  "last_free us \<Longrightarrow> length (outputs tx) \<le> 50000 \<Longrightarrow> last_free (apply_transaction X tx us)"
  by (simp add: last_free_def utxo_get_apply unat_max_word)

lemma good_fold:
  "utxo_ok us \<Longrightarrow> last_free us \<Longrightarrow> \<forall>tx \<in> set txs. length (outputs tx) \<le> 50000 \<Longrightarrow>
     utxo_ok (fold (apply_transaction X) txs us) \<and> last_free (fold (apply_transaction X) txs us)"
  by (induction txs arbitrary: us) (simp_all add: last_free_apply)

lemma acceptable_not_coinbase:
  assumes "last_free us" "tx_acceptable X tx us magic h"
  shows "\<not> is_coinbase tx"
  using assms by (auto simp: is_coinbase_def tx_acceptable_def input_ok_def last_free_def split: list.splits)

lemma valid_sizes:
  assumes "block_validate X b ph = Inr ()" "tx \<in> set (transactions b)"
  shows "length (outputs tx) \<le> 50000"
proof -
  have "length (inputs tx) + length (outputs tx) \<le> block_utxo_ops b"
    unfolding block_utxo_ops_def using assms(2) by (intro member_le_sum_list) auto
  moreover have "block_utxo_ops b \<le> 50000"
    using assms(1) by (auto simp: block_validate_def MAX_BLOCK_UTXO_OPS_def split: if_splits)
  ultimately show ?thesis by simp
qed

lemma fees_inputs:
  assumes "list_all (\<lambda>tx. tx_acceptable X tx us magic h) txs"
  shows "fees_total us txs + sum_list (map outputs_total txs) = sum_list (map (inputs_total us) txs)"
  using assms by (induction txs) (auto simp: fees_total_def tx_acceptable_def)

text \<open>The transactions after the coinbase of a block spend outputs from before the block only.\<close>

lemma block_tail:
  assumes acc: "list_all (\<lambda>tx. tx_acceptable X tx us magic (height b)) txs" and good: "last_free us"
    and plain: "plain_spends X b" and t: "transactions b = cb # txs"
    and sz: "\<forall>tx \<in> set (transactions b). length (outputs tx) \<le> 50000"
    and P: "P = (\<Union>tx \<in> set txs. set (outpoints tx))"
  shows "(h, i) \<in> P \<Longrightarrow> h \<notin> txid_hex X ` set (transactions b)"
    and "\<forall>tx \<in> set txs. \<not> is_coinbase tx \<and> distinct (outpoints tx) \<and> length (outputs tx) \<le> 2 ^ 32
      \<and> set (outpoints tx) \<subseteq> P \<and> txid_hex X tx \<notin> fst ` P"
proof -
  have ids: "h \<notin> txid_hex X ` set (transactions b)" if "(h, i) \<in> P" for h i
  proof -
    from that obtain tx where "tx \<in> set txs" "(h, i) \<in> set (outpoints tx)" by (auto simp: P)
    then show ?thesis using plain unfolding plain_spends_def t list.sel by fast
  qed
  then show "(h, i) \<in> P \<Longrightarrow> h \<notin> txid_hex X ` set (transactions b)" .
  show "\<forall>tx \<in> set txs. \<not> is_coinbase tx \<and> distinct (outpoints tx) \<and> length (outputs tx) \<le> 2 ^ 32
      \<and> set (outpoints tx) \<subseteq> P \<and> txid_hex X tx \<notin> fst ` P"
  proof
    fix tx assume tx: "tx \<in> set txs"
    have "tx_acceptable X tx us magic (height b)" using tx acc by (simp add: list_all_iff)
    then have "\<not> is_coinbase tx" by (rule acceptable_not_coinbase [OF good])
    moreover have "txid_hex X tx \<notin> fst ` P" using ids tx by (force simp: t)
    moreover have "length (outputs tx) \<le> 2 ^ 32" using sz tx by (auto simp: t)
    ultimately show "\<not> is_coinbase tx \<and> distinct (outpoints tx) \<and> length (outputs tx) \<le> 2 ^ 32
      \<and> set (outpoints tx) \<subseteq> P \<and> txid_hex X tx \<notin> fst ` P"
      using tx plain by (auto simp: plain_spends_def t P)
  qed
qed

lemma block_value:
  assumes chk: "checked_block X magic bs b" and us: "replay X bs utxo_default 0 = Inr (us, m)"
    and good: "utxo_ok us" "last_free us" and plain: "plain_spends X b"
    and cap: "utxo_total us \<le> 31415926 * 10 ^ 9"
  shows "utxo_total (apply_block X b us) + fees_total us (tl (transactions b)) \<le> utxo_total us + unat (coinbase_value b)"
    and "unat (coinbase_value b) \<le> (31415926 * 10 ^ 9 - unat m) + fees_total us (tl (transactions b))"
    and "utxo_ok (apply_block X b us)" "last_free (apply_block X b us)"
proof -
  let ?F = "fees_total us (tl (transactions b))"
  have v: "block_validate X b (hash_hex X (last bs)) = Inr ()" using chk by (simp add: checked_block_def)
  have c: "list_all (\<lambda>tx. tx_acceptable X tx us magic (height b)) (tl (transactions b))"
    "unat (coinbase_value b) \<le> min (unat (block_reward (height b))) (31415926 * 10 ^ 9 - unat m) + ?F"
    "validate_transactions X magic (height b) (tl (transactions b)) us = Inr ()"
    using chk us by (auto simp: checked_block_def)
  obtain cb txs where t: "transactions b = cb # txs" "is_coinbase cb"
    using v by (cases "transactions b") (auto simp: block_validate_def split: if_splits)
  have sz: "\<forall>tx \<in> set (transactions b). length (outputs tx) \<le> 50000" using valid_sizes [OF v] by blast
  define P where "P = (\<Union>tx \<in> set txs. set (outpoints tx))"
  have acc: "list_all (\<lambda>tx. tx_acceptable X tx us magic (height b)) txs" using c(1) by (simp add: t(1))
  note ids = block_tail(1) [OF acc good(2) plain t(1) sz P_def] and tl = block_tail(2) [OF acc good(2) plain t(1) sz P_def]
  have val: "validate_transactions X magic (height b) txs us = Inr ()" using c(3) by (simp add: t(1))
  have eq: "?F + sum_list (map outputs_total txs) = sum_list (map (inputs_total us) txs)"
    using fees_inputs [OF c(1)] by (simp add: t(1))
  have "utxo_total (fold (apply_transaction X) txs us) + sum_list (map (inputs_total us) txs)
      \<le> utxo_total us + sum_list (map outputs_total txs)"
    by (rule tail_value [OF val good(1) tl]) auto
  with eq have fees: "?F \<le> utxo_total us" by linarith
  then have "unat (coinbase_value b) \<noteq> 2 ^ 64 - 1" using c(2) cap by (simp add: min_def split: if_splits)
  then have cbv: "unat (coinbase_value b) = outputs_total cb"
    using unat_coinbase_value [OF t(1)] by (simp add: min_def split: if_splits)
  have "length (outputs cb) \<le> 2 ^ 32" using sz by (simp add: t(1))
  then have "\<forall>(h, i) \<in> P. utxo_get (apply_transaction X cb us) h i = utxo_get us h i \<and> (utxo_get us h i = None \<or> utxo_get us h i = utxo_get us h i)"
    using ids t(2) by (fastforce simp: utxo_get_apply t(1))
  then have "utxo_total (fold (apply_transaction X) txs (apply_transaction X cb us)) + sum_list (map (inputs_total us) txs)
      \<le> utxo_total (apply_transaction X cb us) + sum_list (map outputs_total txs)"
    using good(1) by (intro tail_value [OF val _ tl]) auto
  then show "utxo_total (apply_block X b us) + ?F \<le> utxo_total us + unat (coinbase_value b)"
    using eq cbv total_coinbase_le [OF t(2), of X us] by (simp add: apply_block_def t(1))
  show "unat (coinbase_value b) \<le> (31415926 * 10 ^ 9 - unat m) + ?F" using c(2) by linarith
  show "utxo_ok (apply_block X b us)" "last_free (apply_block X b us)"
    using good_fold [OF good sz, of X] by (simp_all add: apply_block_def)
qed

section \<open>The cap\<close>

lemma supply_bound:
  assumes "fully_checked X magic bs" "bs \<noteq> []" "\<forall>b \<in> set bs. plain_spends X b"
    and "transactions (hd bs) = [coinbase a r ht]" "unat r \<le> 31415926 * 10 ^ 9"
    and "replay X bs utxo_default 0 = Inr (us, m)"
  shows "utxo_ok us \<and> last_free us \<and> utxo_total us \<le> unat m \<and> utxo_total us \<le> 31415926 * 10 ^ 9"
  using assms
proof (induction bs arbitrary: us m rule: rev_induct)
  case (snoc b bs)
  obtain us0 m0 where r: "replay X bs utxo_default 0 = Inr (us0, m0)" "us = apply_block X b us0"
    "checked_add m0 (coinbase_value b) = Some m"
    using snoc.prems(6) by (auto simp: replay_append try_res_Inr)
  have m: "unat m = unat m0 + unat (coinbase_value b)" using r(3) by (simp add: checked_add_Inr)
  show ?case
  proof (cases "bs = []")
    case True
    then have "us0 = utxo_default" "m0 = 0" using r(1) by simp_all
    moreover have t: "transactions b = [coinbase a r ht]" using snoc.prems(4) True by simp
    moreover have "utxo_total utxo_default = 0" "last_free utxo_default"
      by (simp_all add: utxo_total_def utxo_default_def last_free_def utxo_get_def)
    moreover have "coinbase_value b = r" by (rule coinbase_only_value [OF t])
    moreover have "is_coinbase (coinbase a r ht)" "outputs_total (coinbase a r ht) = unat r"
      "length (outputs (coinbase a r ht)) \<le> 50000"
      by (simp_all add: coinbase_def is_coinbase_def outputs_total_def p2pkh_output_def)
    ultimately show ?thesis
      using total_coinbase_le [of "coinbase a r ht" X utxo_default] snoc.prems(5) m
      by (simp add: r(2) apply_block_def last_free_apply)
  next
    case False
    have fc: "fully_checked X magic bs" "checked_block X magic bs b"
      using snoc.prems(1) False by (simp_all add: fully_checked_append1)
    have ih: "utxo_ok us0" "last_free us0" "utxo_total us0 \<le> unat m0" "utxo_total us0 \<le> 31415926 * 10 ^ 9"
      using snoc.IH [OF fc(1) False _ _ _ r(1)] snoc.prems(3-5) False by simp_all
    note bv = block_value [OF fc(2) r(1) ih(1,2) _ ih(4)]
    have "plain_spends X b" using snoc.prems(3) by simp
    from bv [OF this] ih(3,4) m show ?thesis unfolding r(2) by linarith
  qed
qed simp


lemma demo_gen_is_genesis: "genesis_block_with_bits demo_lib REGTEST_GENESIS_BITS = Some demo_gen"
proof -
  have "meets_target demo_lib (header demo_gen)"
    by (rule sha_demo_meets [OF demo_lib_sha]) (simp_all add: demo_gen_def)
  then have "mine_block_header demo_lib (header demo_gen) = Some (header demo_gen)"
    by (simp add: mine_block_header.simps)
  then show ?thesis
    by (simp add: genesis_block_with_bits_def Let_def demo_gen_def demo_cb_def demo_hash_eq REGTEST_GENESIS_BITS_def)
qed


section \<open>Keys of the outputs\<close>

text \<open>The set of outputs is a map from texts: \<open>utxos_for\<close> takes the keys apart again.\<close>

lemma replay_keys:
  "hex_ok X \<Longrightarrow> keys_wf us \<Longrightarrow> utxo_ok us \<Longrightarrow> replay X bs us m = Inr (us', m') \<Longrightarrow> keys_wf us' \<and> utxo_ok us'"
proof (induction X bs us m rule: replay.induct)
  case (2 X b bs us minted)
  have "keys_wf (apply_block X b us) \<and> utxo_ok (apply_block X b us)"
    unfolding apply_block_def using "2.prems"(1-3) by (rule fold_apply_inv)
  with 2 show ?case by (auto simp: try_res_Inr split: option.splits)
qed simp

text \<open>C15: the keys of the unspent outputs are well typed in every reachable state: each is a transaction
  id, a colon and a 32-bit index, and no two are equal. So listing the outputs of an address never
  panics, lists unspent outputs of this address under their own outpoints only, and the listed
  values add up to the balance of the address.\<close>

theorem output_keys_well_typed:
  assumes "hex_ok X" "fresh_chain X c0" "(chain_step X)\<^sup>*\<^sup>* c0 c"
  shows "list_all (\<lambda>(k, _). \<exists>h i. CHR '':'' \<notin> set h \<and> k = utxo_key h i) (utxos (chain_utxos c))
    \<and> distinct (map fst (utxos (chain_utxos c)))
    \<and> (\<exists>us. utxos_for (chain_utxos c) a = Some us
         \<and> (\<forall>h i out. \<lparr>utxo_tx_hash = h, utxo_index = i, utxo_output = out\<rparr> \<in> set us \<longrightarrow>
              utxo_get (chain_utxos c) h i = Some out \<and> out_address out = a)
         \<and> sum_list (map (\<lambda>u. out_value (utxo_output u)) us) = balance_of c a)"
proof -
  have "chain_ok X c" using node.reachable_inv [OF assms(2,3)] by simp
  then have "replay X (blocks c) utxo_default 0 = Inr (chain_utxos c, total_minted c)"
    by (simp add: chain_ok_def active_ok_def)
  then have k: "keys_wf (chain_utxos c)" "utxo_ok (chain_utxos c)"
    using replay_keys [OF assms(1), of utxo_default "blocks c" 0] by auto
  from utxos_for_exact [OF k, of a] k show ?thesis
    unfolding balance_of_def keys_wf_def by (simp add: utxo_ok_def hm_ok_def)
qed

theorem output_keys_well_typed_witness:
  "\<exists>c us. (chain_step demo_lib)\<^sup>*\<^sup>* demo_chain c \<and> blocks c = [demo_gen, demo_next]
     \<and> utxos_for (chain_utxos c) ''ab'' = Some us
     \<and> sum_list (map (\<lambda>u. out_value (utxo_output u)) us) = balance_of c ''ab''"
proof -
  obtain c where r: "(chain_step demo_lib)\<^sup>*\<^sup>* demo_chain c" "blocks c = [demo_gen, demo_next]"
    using demo_second by blast
  from output_keys_well_typed [OF demo_store_lib_ok(2) demo_chain_ok(3) r(1), of "''ab''"] r show ?thesis by blast
qed

end
