(* ===== verification/Mining.thy ===== *)
theory Mining
  imports Supply
begin

text \<open>
  The way of a payment through the node: \<open>submit_transaction\<close> puts it into the mempool,
  \<open>mine_block\<close> takes the pool into a block and \<open>add_block\<close> accepts that block
  (\<open>src/blockchain/chain.rs\<close>, \<open>src/transaction/mempool.rs\<close>). Payments that spend different
  outputs are confirmed together; two payments that spend the same output, which the mempool also
  accepts, make every block the node mines invalid.
\<close>

section \<open>Later heights\<close>

text \<open>A transaction is checked at the height of the tip when it is submitted and one higher when
  it is mined; what is acceptable stays so.\<close>

lemma evaluate_later:
  "evaluate_script X s i sh t = Inr () \<Longrightarrow> t \<le> t' \<Longrightarrow> evaluate_script X s i sh t' = Inr ()"
proof (induction s)
  case (TimeLocked l s)
  then show ?case by (auto split: if_splits)
qed (simp_all add: evaluate_P2PKH_ok evaluate_P2MS_ok del: evaluate_script.simps)

lemma immature_later:
  "\<not> is_immature_coinbase us k h \<Longrightarrow> h \<le> h' \<Longrightarrow> \<not> is_immature_coinbase us k h'"
  by (auto simp: is_immature_coinbase_def word_less_nat_alt word_le_nat_alt unat_saturating_sub
      split: option.splits)

lemma acceptable_later:
  assumes "tx_acceptable X tx us magic h" "h \<le> h'" "unat h' * 600 < 2 ^ 64"
  shows "tx_acceptable X tx us magic h'"
proof -
  have le: "unat h \<le> unat h'" using assms(2) by (simp add: word_le_nat_alt)
  then have "unat (h * 600) = unat h * 600" "unat (h' * 600) = unat h' * 600"
    using assms(3) by (simp_all add: unat_word_ariths)
  then have t: "h * 600 \<le> h' * 600" using le by (simp add: word_le_nat_alt)
  have "input_ok X us sh h' (h' * 600) i" if "input_ok X us sh h (h * 600) i" for sh i
    using that immature_later [OF _ assms(2)] evaluate_later [OF _ t]
    by (auto simp: input_ok_def split: option.splits)
  with assms(1) show ?thesis by (auto simp: tx_acceptable_def list_all_iff)
qed

section \<open>Transactions that do not touch each other\<close>

definition unrelated :: "'x tx_lib_scheme \<Rightarrow> transaction list \<Rightarrow> bool" where
  "unrelated X txs \<longleftrightarrow> distinct (map (txid_hex X) txs) \<and> distinct (concat (map outpoints txs))
     \<and> (\<forall>tx \<in> set txs. \<not> is_coinbase tx \<and> length (outputs tx) \<le> 2 ^ 32
          \<and> fst ` set (outpoints tx) \<inter> txid_hex X ` set txs = {})"

lemma acceptable_cong:
  assumes "\<And>h i. (h, i) \<in> set (outpoints tx) \<Longrightarrow> utxo_get us' h i = utxo_get us h i"
    and "\<And>h i. (h, i) \<in> set (outpoints tx) \<Longrightarrow> hm_get (coinbase_heights us') h = hm_get (coinbase_heights us) h"
  shows "tx_acceptable X tx us' magic ht = tx_acceptable X tx us magic ht"
    and "inputs_total us' tx = inputs_total us tx"
proof -
  have i: "utxo_get us' (prev_tx_hash i) (prev_index i) = utxo_get us (prev_tx_hash i) (prev_index i)"
    "is_immature_coinbase us' (prev_tx_hash i) ht = is_immature_coinbase us (prev_tx_hash i) ht"
    if "i \<in> set (inputs tx)" for i
  proof -
    have "(prev_tx_hash i, prev_index i) \<in> set (outpoints tx)" using that by (auto simp: outpoints_def)
    with assms show "utxo_get us' (prev_tx_hash i) (prev_index i) = utxo_get us (prev_tx_hash i) (prev_index i)"
      "is_immature_coinbase us' (prev_tx_hash i) ht = is_immature_coinbase us (prev_tx_hash i) ht"
      by (simp_all add: is_immature_coinbase_def)
  qed
  show tot: "inputs_total us' tx = inputs_total us tx"
    unfolding inputs_total_alt by (intro arg_cong [of _ _ sum_list] map_cong) (simp_all add: input_value_def i)
  have "list_all (input_ok X us' s ht t) (inputs tx) = list_all (input_ok X us s ht t) (inputs tx)" for s t
    by (intro list_all_cong) (simp_all add: input_ok_def i)
  then show "tx_acceptable X tx us' magic ht = tx_acceptable X tx us magic ht"
    by (simp add: tx_acceptable_def tot)
qed

lemma apply_keeps_other:
  assumes "\<not> is_coinbase tx" "length (outputs tx) \<le> 2 ^ 32" "h \<noteq> txid_hex X tx" "(h, i) \<notin> set (outpoints tx)"
  shows "utxo_get (apply_transaction X tx us) h i = utxo_get us h i"
  using assms by (simp add: utxo_get_apply)

lemma apply_keeps_heights:
  "\<not> is_coinbase tx \<Longrightarrow> coinbase_heights (apply_transaction X tx us) = coinbase_heights us"
  by (simp add: apply_transaction_def Let_def)

lemma fold_keeps_other:
  assumes "\<forall>tx \<in> set txs. \<not> is_coinbase tx \<and> length (outputs tx) \<le> 2 ^ 32"
    "h \<notin> txid_hex X ` set txs" "\<forall>tx \<in> set txs. (h, i) \<notin> set (outpoints tx)"
  shows "utxo_get (fold (apply_transaction X) txs us) h i = utxo_get us h i"
  using assms by (induction txs arbitrary: us) (simp_all add: apply_keeps_other)

lemma unrelated_Cons:
  assumes "unrelated X (tx # txs)"
  shows "unrelated X txs" "\<not> is_coinbase tx" "length (outputs tx) \<le> 2 ^ 32"
    and "\<And>tx' h i. tx' \<in> set txs \<Longrightarrow> (h, i) \<in> set (outpoints tx') \<Longrightarrow> h \<noteq> txid_hex X tx \<and> (h, i) \<notin> set (outpoints tx)"
proof -
  show "unrelated X txs" "\<not> is_coinbase tx" "length (outputs tx) \<le> 2 ^ 32"
    using assms by (auto simp: unrelated_def)
  fix tx' h i assume t: "tx' \<in> set txs" "(h, i) \<in> set (outpoints tx')"
  have "fst ` set (outpoints tx') \<inter> txid_hex X ` set (tx # txs) = {}"
    and d: "set (outpoints tx) \<inter> set (concat (map outpoints txs)) = {}"
    using assms t(1) by (simp_all add: unrelated_def)
  moreover have "h \<in> fst ` set (outpoints tx')" using t(2) by force
  ultimately have "h \<noteq> txid_hex X tx" by (metis disjoint_iff imageI list.set_intros(1))
  then show "h \<noteq> txid_hex X tx \<and> (h, i) \<notin> set (outpoints tx)" using t d by auto
qed

lemma validate_unrelated:
  assumes "unrelated X txs" "list_all (\<lambda>tx. tx_acceptable X tx us magic ht) txs"
  shows "validate_transactions X magic ht txs us = Inr ()"
  using assms
proof (induction txs arbitrary: us)
  case (Cons tx txs)
  note u = unrelated_Cons [OF Cons.prems(1)]
  let ?us = "apply_transaction X tx us"
  have "tx_acceptable X tx' ?us magic ht = tx_acceptable X tx' us magic ht" if "tx' \<in> set txs" for tx'
    using u(4) [OF that] by (intro acceptable_cong apply_keeps_other [OF u(2,3)]) (simp_all add: apply_keeps_heights u(2))
  then have "validate_transactions X magic ht txs ?us = Inr ()"
    using Cons.prems(2) by (intro Cons.IH [OF u(1)]) (simp add: list_all_iff)
  moreover obtain fee where "validate_tx_with_utxo X tx us magic ht = Inr fee"
  proof -
    let ?f = "inputs_total us tx - outputs_total tx"
    have "unat (word_of_nat ?f :: u64) = ?f"
      using Cons.prems(2) unfolding unat_of_nat by (simp add: tx_acceptable_def less_imp_diff_less)
    with Cons.prems(2) that [of "word_of_nat ?f"] show ?thesis by (simp add: validate_tx_Inr)
  qed
  ultimately show ?case by simp
qed simp

lemma unrelated_result:
  assumes "unrelated X txs" "tx \<in> set txs"
  shows "k < length (outputs tx) \<Longrightarrow>
      utxo_get (fold (apply_transaction X) txs us) (txid_hex X tx) (word_of_nat k) = Some (outputs tx ! k)"
    and "(h, i) \<in> set (outpoints tx) \<Longrightarrow> utxo_get (fold (apply_transaction X) txs us) h i = None"
proof -
  obtain xs ys where s: "txs = xs @ tx # ys" using assms(2) by (auto simp: in_set_conv_decomp)
  let ?us = "fold (apply_transaction X) xs us"
  have ys: "\<forall>t \<in> set ys. \<not> is_coinbase t \<and> length (outputs t) \<le> 2 ^ 32" "txid_hex X tx \<notin> txid_hex X ` set ys"
    and tx: "\<not> is_coinbase tx" "length (outputs tx) \<le> 2 ^ 32" "fst ` set (outpoints tx) \<inter> txid_hex X ` set txs = {}"
    and d: "distinct (concat (map outpoints txs))"
    using assms(1) by (auto simp: unrelated_def s)
  have ids: "(txid_hex X tx, j) \<notin> set (outpoints t)" if "t \<in> set txs" for t j
    using assms that by (force simp: unrelated_def)
  show "utxo_get (fold (apply_transaction X) txs us) (txid_hex X tx) (word_of_nat k) = Some (outputs tx ! k)"
    if "k < length (outputs tx)"
  proof -
    have "unat (word_of_nat k :: u32) = k" using that tx(2) by (simp add: unat_of_nat)
    then show ?thesis
      using that tx fold_keeps_other [OF ys, of "word_of_nat k" "apply_transaction X tx ?us"] ids
      by (simp add: s utxo_get_apply)
  qed
  show "utxo_get (fold (apply_transaction X) txs us) h i = None" if "(h, i) \<in> set (outpoints tx)"
  proof -
    have "h \<notin> txid_hex X ` set txs" using tx(3) that by force
    then have "h \<notin> txid_hex X ` set ys" "h \<noteq> txid_hex X tx" by (auto simp: s)
    moreover have "\<forall>t \<in> set ys. (h, i) \<notin> set (outpoints t)" using d that by (auto simp: s)
    ultimately show ?thesis
      using that tx fold_keeps_other [OF ys(1), of h X i "apply_transaction X tx ?us"]
      by (simp add: s utxo_get_apply)
  qed
qed

lemma unrelated_mset:
  assumes "mset txs = mset txs'"
  shows "unrelated X txs = unrelated X txs'"
proof -
  have "mset (concat (map f txs)) = mset (concat (map f txs'))" for f :: "transaction \<Rightarrow> (string \<times> u32) list"
  proof -
    have "mset (concat (map f ts)) = (\<Sum>t \<in># mset ts. mset (f t))" for ts by (induction ts) simp_all
    then show ?thesis using assms by simp
  qed
  then have "distinct (concat (map outpoints txs)) = distinct (concat (map outpoints txs'))"
    by (rule mset_eq_imp_distinct_iff)
  moreover have "mset (map f txs) = mset (map f txs')" for f :: "transaction \<Rightarrow> string" using assms by simp
  then have "distinct (map (txid_hex X) txs) = distinct (map (txid_hex X) txs')"
    by (rule mset_eq_imp_distinct_iff)
  moreover have "set txs = set txs'" using assms by (rule mset_eq_setD)
  ultimately show ?thesis by (simp add: unrelated_def)
qed

section \<open>Filling the pool\<close>

text \<open>A row of submissions, all accepted.\<close>

primrec submit_all :: "'x tx_lib_scheme \<Rightarrow> transaction list \<Rightarrow> 'd blockchain \<Rightarrow> 'd blockchain option" where
  "submit_all X [] c = Some c"
| "submit_all X (tx # txs) c =
     (case submit_transaction X tx c of (Inl _, _) \<Rightarrow> None | (Inr _, c') \<Rightarrow> submit_all X txs c')"

lemma submit_accepted:
  assumes "submit_transaction X tx c = (Inr tid, c')"
  shows "tid = txid_hex X tx"
    "\<exists>fee. validate_tx X tx c = Inr fee \<and> c' = c\<lparr>chain_mempool := pool_insert X tx fee (chain_mempool c)\<rparr>"
  using assms by (auto simp: submit_transaction_def add_with_fee_def split: sum.splits if_splits)

lemma mset_insert_fresh: "hm_get m k = None \<Longrightarrow> mset (hm_insert k v m) = add_mset (k, v) (mset m)"
  by (induction m) (auto simp: hm_insert_def hm_get_def split: if_splits)

lemma pool_insert_fresh:
  assumes "hm_get (pool_txs mp) (txid_hex X tx) = None"
  shows "mset (map snd (pool_txs (pool_insert X tx fee mp))) = add_mset tx (mset (map snd (pool_txs mp)))"
    and "fee_for (pool_insert X tx fee mp) (txid_hex X tx) = fee"
    and "tid \<noteq> txid_hex X tx \<Longrightarrow> fee_for (pool_insert X tx fee mp) tid = fee_for mp tid
      \<and> hm_get (pool_txs (pool_insert X tx fee mp)) tid = hm_get (pool_txs mp) tid"
  using assms by (simp_all add: pool_insert_def Let_def mset_insert_fresh fee_for_def)

lemma submit_all_pool:
  assumes "submit_all X txs c = Some c'" "distinct (map (txid_hex X) txs)"
    "\<forall>tx \<in> set txs. hm_get (pool_txs (chain_mempool c)) (txid_hex X tx) = None"
  shows "\<exists>mp. c' = c\<lparr>chain_mempool := mp\<rparr>
    \<and> mset (map snd (pool_txs mp)) = mset (map snd (pool_txs (chain_mempool c))) + mset txs
    \<and> (\<forall>tid. tid \<notin> txid_hex X ` set txs \<longrightarrow> fee_for mp tid = fee_for (chain_mempool c) tid)
    \<and> (\<forall>tx \<in> set txs. validate_tx_with_utxo X tx (chain_utxos c) (network_magic c) (chain_height c)
         = Inr (fee_for mp (txid_hex X tx)))
    \<and> (mempool_ok X (chain_mempool c) \<longrightarrow> mempool_ok X mp)"
  using assms
proof (induction txs arbitrary: c)
  case Nil
  have "c = c\<lparr>chain_mempool := chain_mempool c\<rparr>" by simp
  with Nil show ?case by (intro exI [of _ "chain_mempool c"]) simp
next
  case (Cons tx txs)
  obtain tid c1 where s: "submit_transaction X tx c = (Inr tid, c1)" "submit_all X txs c1 = Some c'"
    using Cons.prems(1) by (auto split: prod.splits sum.splits)
  obtain fee where fee: "validate_tx X tx c = Inr fee"
    "c1 = c\<lparr>chain_mempool := pool_insert X tx fee (chain_mempool c)\<rparr>"
    using submit_accepted(2) [OF s(1)] by blast
  have h: "chain_height c1 = chain_height c" by (simp add: fee(2) chain_height_def tip_def)
  note f = pool_insert_fresh [of "chain_mempool c" X tx]
  have new: "hm_get (pool_txs (chain_mempool c)) (txid_hex X tx) = None" using Cons.prems(3) by simp
  have "\<forall>t \<in> set txs. hm_get (pool_txs (chain_mempool c1)) (txid_hex X t) = None"
  proof
    fix t assume t: "t \<in> set txs"
    then have "txid_hex X t \<noteq> txid_hex X tx" using Cons.prems(2) by (metis distinct.simps(2) image_eqI list.map(2) list.set_map)
    with f(3) [OF new this, of fee] Cons.prems(3) t
    show "hm_get (pool_txs (chain_mempool c1)) (txid_hex X t) = None" by (simp add: fee(2))
  qed
  moreover have "distinct (map (txid_hex X) txs)" using Cons.prems(2) by simp
  ultimately obtain mp where mp: "c' = c1\<lparr>chain_mempool := mp\<rparr>"
    "mset (map snd (pool_txs mp)) = mset (map snd (pool_txs (chain_mempool c1))) + mset txs"
    "\<forall>tid. tid \<notin> txid_hex X ` set txs \<longrightarrow> fee_for mp tid = fee_for (chain_mempool c1) tid"
    "\<forall>t \<in> set txs. validate_tx_with_utxo X t (chain_utxos c1) (network_magic c1) (chain_height c1)
         = Inr (fee_for mp (txid_hex X t))"
    "mempool_ok X (chain_mempool c1) \<longrightarrow> mempool_ok X mp"
    using Cons.IH [OF s(2)] by blast
  have "mempool_ok X (chain_mempool c) \<longrightarrow> mempool_ok X (chain_mempool c1)"
    using new by (simp add: fee(2) pool_insert_ok no_clash_def)
  moreover
  have "fee_for mp (txid_hex X tx) = fee" using mp(3) Cons.prems(2) f(2) [OF new] by (simp add: fee(2))
  ultimately show ?case
    using mp f [OF new] fee(1) h by (intro exI [of _ mp]) (auto simp: fee(2) validate_tx_def)
qed

lemma take_whole_pool:
  "length (pool_txs mp) \<le> n \<Longrightarrow> mset (pool_take X mp n) = mset (map snd (pool_txs mp))"
  by (simp add: pool_take_def)

lemma fold_fees:
  "unat (foldl (\<lambda>acc tx. saturating_add acc (f tx)) a txs) \<le> unat (a :: u64) + sum_list (map (\<lambda>tx. unat (f tx)) txs)"
proof (induction txs arbitrary: a)
  case (Cons tx txs)
  show ?case using Cons.IH [of "saturating_add a (f tx)"] by (simp add: unat_saturating_add)
qed simp

section \<open>Emptying the pool\<close>

lemma pool_remove_get:
  "hm_get (pool_txs (pool_remove X t mp)) tid = (if tid = t then None else hm_get (pool_txs mp) tid)"
  by (auto simp: pool_remove_def split: option.splits)

lemma pool_purge_get:
  "hm_get (pool_txs (pool_purge X bs mp)) tid =
     (if \<exists>b \<in> set bs. tid \<in> txid_hex X ` set (transactions b) then None else hm_get (pool_txs mp) tid)"
proof -
  have "hm_get (pool_txs (fold (\<lambda>tx. pool_remove X (txid_hex X tx)) txs mp)) tid =
      (if tid \<in> txid_hex X ` set txs then None else hm_get (pool_txs mp) tid)" for txs mp
    by (induction txs arbitrary: mp) (auto simp: pool_remove_get)
  then show ?thesis unfolding pool_purge_def by (induction bs arbitrary: mp) auto
qed

lemma hm_empty: "(\<And>k. hm_get m k = None) \<Longrightarrow> m = []"
proof (rule ccontr)
  assume none: "\<And>k. hm_get m k = None" and "m \<noteq> []"
  then obtain k v m' where "m = (k, v) # m'" by (cases m) auto
  with none [of k] show False by (simp add: hm_get_Cons)
qed

section \<open>Confirmation\<close>

lemma sum_list_mset: "mset xs = mset ys \<Longrightarrow> sum_list (map f xs) = (sum_list (map f ys) :: nat)"
  by (metis mset_map sum_mset_sum_list)

lemma submitted_pool:
  assumes "chain_mempool c = mempool_new" "submit_all X txs c = Some c1" "unrelated X txs"
  obtains mp where "c1 = c\<lparr>chain_mempool := mp\<rparr>" "mset (map snd (pool_txs mp)) = mset txs"
    "\<And>tx. tx \<in> set txs \<Longrightarrow> tx_acceptable X tx (chain_utxos c) (network_magic c) (chain_height c)
       \<and> unat (fee_for mp (txid_hex X tx)) = inputs_total (chain_utxos c) tx - outputs_total tx"
    "\<And>tid tx. hm_get (pool_txs mp) tid = Some tx \<Longrightarrow> tx \<in> set txs \<and> tid = txid_hex X tx"
proof -
  have "distinct (map (txid_hex X) txs)" using assms(3) by (simp add: unrelated_def)
  moreover have "\<forall>tx \<in> set txs. hm_get (pool_txs (chain_mempool c)) (txid_hex X tx) = None"
    by (simp add: assms(1) mempool_new_def)
  ultimately obtain mp where mp: "c1 = c\<lparr>chain_mempool := mp\<rparr>"
    "mset (map snd (pool_txs mp)) = mset (map snd (pool_txs (chain_mempool c))) + mset txs"
    "\<forall>tx \<in> set txs. validate_tx_with_utxo X tx (chain_utxos c) (network_magic c) (chain_height c)
         = Inr (fee_for mp (txid_hex X tx))" "mempool_ok X (chain_mempool c) \<longrightarrow> mempool_ok X mp"
    using submit_all_pool [OF assms(2)] by blast
  have ms: "mset (map snd (pool_txs mp)) = mset txs" using mp(2) by (simp add: assms(1) mempool_new_def)
  have acc: "tx_acceptable X tx (chain_utxos c) (network_magic c) (chain_height c)
       \<and> unat (fee_for mp (txid_hex X tx)) = inputs_total (chain_utxos c) tx - outputs_total tx"
    if "tx \<in> set txs" for tx
    using mp(3) that validate_tx_Inr by blast
  have keys: "tx \<in> set txs \<and> tid = txid_hex X tx" if "hm_get (pool_txs mp) tid = Some tx" for tid tx
  proof -
    have "mempool_ok X mp" using mp(4) mempool_ok_new [of X] by (simp add: assms(1))
    then have "tid = txid_hex X tx" using that unfolding mempool_ok_def by blast
    moreover have "tx \<in> set (map snd (pool_txs mp))" using hm_get_in_set [OF that] by force
    ultimately show ?thesis using mset_eq_setD [OF ms] by simp
  qed
  show thesis by (rule that [OF mp(1) ms acc keys])
qed

text \<open>The block that takes a pool of unrelated payments passes all checks.\<close>

lemma mined_pool_valid:
  assumes ok: "chain_ok X c" and sub: "chain_mempool c = mempool_new" "submit_all X txs c = Some c1"
    "unrelated X txs" "length txs \<le> 500" and mine: "mine_block X now a c1 = Some b"
    and size: "block_bytes X b \<le> MAX_BLOCK_BYTES" "block_utxo_ops b \<le> MAX_BLOCK_UTXO_OPS"
    and ts: "validate_timestamp (timestamp (header b)) (median_past_time c) now"
    and rng: "fees_total (chain_utxos c) txs < 2 ^ 64" "height b \<noteq> 0" "unat (height b) * 600 < 2 ^ 64"
  shows "block_validate X b (hash_hex X (tip c1)) = Inr ()"
    and "validate_block_against_parent X now c1 b (hash_hex X (tip c1)) = Inr ()"
    and "\<exists>cb sel. transactions b = cb # sel \<and> mset sel = mset txs"
proof -
  obtain mp where mp: "c1 = c\<lparr>chain_mempool := mp\<rparr>" "mset (map snd (pool_txs mp)) = mset txs"
    "\<And>tx. tx \<in> set txs \<Longrightarrow> tx_acceptable X tx (chain_utxos c) (network_magic c) (chain_height c)
       \<and> unat (fee_for mp (txid_hex X tx)) = inputs_total (chain_utxos c) tx - outputs_total tx"
    using submitted_pool [OF sub(1-3)] by blast
  define sel where "sel = pool_take X mp 500"
  have same: "tip c1 = tip c" "next_bits c1 = next_bits c" "median_past_time c1 = median_past_time c"
    "chain_utxos c1 = chain_utxos c" "network_magic c1 = network_magic c" "chain_mempool c1 = mp"
    "chain_ok X c1"
    using ok by (simp_all add: mp(1) tip_def next_bits_def median_past_time_def)
  have "length (pool_txs mp) = length txs" using mp(2) by (metis length_map size_mset)
  then have sel: "mset sel = mset txs" unfolding sel_def using take_whole_pool [of mp 500 X] sub(4) mp(2) by simp
  then have st: "set sel = set txs" "length sel = length txs" by (metis mset_eq_setD, metis size_mset)
  note f = mined_block_fields [OF mine, unfolded same(6), folded sel_def]
  show "\<exists>cb sel. transactions b = cb # sel \<and> mset sel = mset txs" using f(4) sel by blast
  have h: "chain_height c = height (tip c)" "height b = height (tip c) + 1" using f(3) by (simp_all add: chain_height_def same)
  then have "chain_height c \<le> height b"
    using unat_succ_height [of "height b" "height (tip c)"] rng(2) by (simp add: word_le_nat_alt)
  then have acc: "list_all (\<lambda>tx. tx_acceptable X tx (chain_utxos c1) (network_magic c1) (height b)) sel"
    using mp(3) acceptable_later [OF _ _ rng(3)] unfolding list_all_iff st same by blast
  have fee: "fees_total (chain_utxos c1) sel = fees_total (chain_utxos c) txs"
    unfolding fees_total_def same by (rule sum_list_mset [OF sel])
  let ?fees = "foldl (\<lambda>acc tx. saturating_add acc (fee_for mp (txid_hex X tx))) 0 sel"
  have "unat ?fees \<le> sum_list (map (\<lambda>tx. unat (fee_for mp (txid_hex X tx))) sel)"
    using fold_fees [of "\<lambda>tx. fee_for mp (txid_hex X tx)" 0 sel] by simp
  also have "\<dots> = fees_total (chain_utxos c1) sel"
    unfolding fees_total_def same using mp(3) st by (intro arg_cong [of _ _ sum_list] map_cong) auto
  finally have pay: "unat (saturating_add (capped_block_reward c1 (height b)) ?fees)
      \<le> unat (capped_block_reward c1 (height b)) + fees_total (chain_utxos c1) sel"
    by (simp add: unat_saturating_add)
  have "unrelated X sel" using sub(3) unrelated_mset [OF sel, of X] by simp
  then have val: "validate_transactions X (network_magic c1) (height b) sel (chain_utxos c1) = Inr ()"
    using acc by (rule validate_unrelated)
  have len: "length sel < MAX_BLOCK_TRANSACTIONS" using st(2) sub(4) by (simp add: MAX_BLOCK_TRANSACTIONS_def)
  show "block_validate X b (hash_hex X (tip c1)) = Inr ()"
    "validate_block_against_parent X now c1 b (hash_hex X (tip c1)) = Inr ()"
    using tip_block_valid [OF same(7) f(2,3,1,4,5,6) len size _ acc _ val pay] ts rng(1) fee same(3) by simp_all
qed

lemma confirmed:
  assumes "transactions b = cb # sel" "mset sel = mset txs" "unrelated X txs" "tx \<in> set txs"
  shows "k < length (outputs tx) \<Longrightarrow>
      utxo_get (apply_block X b us) (txid_hex X tx) (word_of_nat k) = Some (outputs tx ! k)"
    and "(h, i) \<in> set (outpoints tx) \<Longrightarrow> utxo_get (apply_block X b us) h i = None"
proof -
  have u: "unrelated X sel" "tx \<in> set sel" using assms(2-4) unrelated_mset mset_eq_setD by blast+
  show "k < length (outputs tx) \<Longrightarrow>
      utxo_get (apply_block X b us) (txid_hex X tx) (word_of_nat k) = Some (outputs tx ! k)"
    "(h, i) \<in> set (outpoints tx) \<Longrightarrow> utxo_get (apply_block X b us) h i = None"
    unfolding apply_block_def assms(1) by (simp_all add: unrelated_result [OF u])
qed


section \<open>Payments that spend the same output\<close>

lemma spent_invalid:
  assumes "utxo_get us h i = None" "tx \<in> set txs" "(h, i) \<in> set (outpoints tx)"
    and "\<forall>t \<in> set txs. length (outputs t) \<le> 2 ^ 32 \<and> txid_hex X t \<noteq> h"
  shows "validate_transactions X magic ht txs us \<noteq> Inr ()"
  using assms
proof (induction txs arbitrary: us)
  case (Cons t txs)
  show ?case
  proof (cases "t = tx")
    case True
    then have "\<not> tx_acceptable X t us magic ht"
      using acceptable_inputs_present [of X t us magic ht] Cons.prems(1,3) by (fastforce simp: list_all_iff)
    then show ?thesis by (auto simp: try_res_Inr validate_tx_Inr)
  next
    case False
    then have "validate_transactions X magic ht txs (apply_transaction X t us) \<noteq> Inr ()"
      using Cons.prems by (intro Cons.IH) (auto simp: utxo_get_apply)
    then show ?thesis by (auto simp: try_res_Inr)
  qed
qed simp

lemma conflict_invalid:
  assumes "tx1 \<in> set txs" "tx2 \<in> set txs" "tx1 \<noteq> tx2"
    and "(h, i) \<in> set (outpoints tx1)" "(h, i) \<in> set (outpoints tx2)"
    and "\<forall>t \<in> set txs. \<not> is_coinbase t \<and> length (outputs t) \<le> 2 ^ 32 \<and> txid_hex X t \<noteq> h"
  shows "validate_transactions X magic ht txs us \<noteq> Inr ()"
  using assms
proof (induction txs arbitrary: us)
  case (Cons t txs)
  have t: "\<not> is_coinbase t" "length (outputs t) \<le> 2 ^ 32" "txid_hex X t \<noteq> h" using Cons.prems(6) by simp_all
  have "validate_transactions X magic ht txs (apply_transaction X t us) \<noteq> Inr ()"
  proof (cases "t = tx1 \<or> t = tx2")
    case True
    then have "utxo_get (apply_transaction X t us) h i = None" using t Cons.prems(4,5) by (auto simp: utxo_get_apply)
    moreover obtain tx where "tx \<in> set txs" "(h, i) \<in> set (outpoints tx)" using True Cons.prems by auto
    ultimately show ?thesis using Cons.prems(6) by (intro spent_invalid [of _ h i tx]) simp_all
  next
    case False
    then show ?thesis using Cons.prems by (intro Cons.IH) auto
  qed
  then show ?case by (auto simp: try_res_Inr)
qed simp

lemma mined_conflict_refused:
  assumes "mine_block X now a c = Some b" "pool_len (chain_mempool c) \<le> 500"
    and "(id1, tx1) \<in> set (pool_txs (chain_mempool c))" "(id2, tx2) \<in> set (pool_txs (chain_mempool c))" "tx1 \<noteq> tx2"
    and "(h, i) \<in> set (outpoints tx1)" "(h, i) \<in> set (outpoints tx2)"
    and "\<forall>(tid, t) \<in> set (pool_txs (chain_mempool c)). \<not> is_coinbase t \<and> txid_hex X t \<noteq> h"
    and "add_block X now' b c = (r, c')"
  shows "(\<exists>s. c' = c\<lparr>chain_store := s\<rparr>) \<and> (r \<noteq> Inr () \<or> hm_get (all_blocks c) (hash_hex X b) \<noteq> None)"
  using assms(9)
proof (cases rule: add_block_cases)
  case (stored p pw w s c2)
  let ?sel = "pool_take X (chain_mempool c) 500"
  note f = mined_block_fields [OF assms(1)]
  have "mset ?sel = mset (map snd (pool_txs (chain_mempool c)))"
    using take_whole_pool assms(2) by (simp add: pool_len_def)
  then have sel: "set ?sel = snd ` set (pool_txs (chain_mempool c))" by (metis mset_eq_setD list.set_map)
  have "validate_transactions X (network_magic c) (height b) ?sel (chain_utxos c) = Inr ()"
    using stored(4) f(2,4) by (auto simp: validate_block_Inr parent_context_def)
  moreover have "length (outputs t) \<le> 2 ^ 32" if "t \<in> set ?sel" for t
    using valid_sizes [OF stored(3), of t] that f(4) by simp
  moreover have "tx1 \<in> set ?sel" "tx2 \<in> set ?sel" using assms(3,4) sel by force+
  moreover have "\<forall>t \<in> set ?sel. \<not> is_coinbase t \<and> txid_hex X t \<noteq> h" using assms(8) sel by fastforce
  ultimately show ?thesis using conflict_invalid [OF _ _ assms(5-7), of ?sel X] by blast
qed blast

text \<open>C36: two payments that spend the same output are both accepted into the mempool, and from then on
  every block the node mines is refused by its own checks, the chain and the mempool staying as
  they are, so that the next attempt fails as well. (The pool holds at most 500 transactions, and
  none of them creates the output in question.)\<close>

theorem conflicting_payments_stall_mining:
  assumes "submit_transaction X tx1 c = (Inr id1, c1)" "submit_transaction X tx2 c1 = (Inr id2, c2)"
    and "id1 \<noteq> id2" "(h, i) \<in> set (outpoints tx1) \<inter> set (outpoints tx2)"
    and "pool_len (chain_mempool c2) \<le> 500"
    and "\<forall>(tid, t) \<in> set (pool_txs (chain_mempool c2)). \<not> is_coinbase t \<and> txid_hex X t \<noteq> h"
    and "mine_block X now a c2 = Some b" "hm_get (all_blocks c2) (hash_hex X b) = None"
  shows "fst (add_block X now' b c2) \<noteq> Inr () \<and> blocks (snd (add_block X now' b c2)) = blocks c2
    \<and> chain_mempool (snd (add_block X now' b c2)) = chain_mempool c2"
proof -
  obtain r c' where add: "add_block X now' b c2 = (r, c')" by fastforce
  note s1 = submit_accepted [OF assms(1)] and s2 = submit_accepted [OF assms(2)]
  have "hm_get (pool_txs (chain_mempool c1)) id1 = Some tx1" "hm_get (pool_txs (chain_mempool c2)) id2 = Some tx2"
    using s1 s2 by (auto simp: pool_insert_def Let_def split: option.splits)
  moreover from this(1) have "hm_get (pool_txs (chain_mempool c2)) id1 = Some tx1"
    using s2 assms(3) by (auto simp: pool_insert_def Let_def split: option.splits)
  ultimately have "(id1, tx1) \<in> set (pool_txs (chain_mempool c2))" "(id2, tx2) \<in> set (pool_txs (chain_mempool c2))"
    by (auto intro: hm_get_in_set)
  moreover have "tx1 \<noteq> tx2" using assms(3) s1(1) s2(1) by auto
  ultimately have "(\<exists>s. c' = c2\<lparr>chain_store := s\<rparr>) \<and> r \<noteq> Inr ()"
    using mined_conflict_refused [OF assms(7,5) _ _ _ _ _ assms(6) add] assms(4,8) by blast
  then show ?thesis unfolding add by auto
qed

section \<open>A chain with an output to spend\<close>

text \<open>The chain of the witnesses: its first block grants 5000 to a key; the ids of the library of
  the witnesses are taken from the values of the outputs.\<close>

definition pay_lib :: "(bytes \<Rightarrow> bytes option) store_lib" where
  "pay_lib = demo_lib\<lparr>lib_bincode_tx := (\<lambda>tx. concat (map (\<lambda>out. u64_le (out_value out)) (outputs tx)))\<rparr>"

definition pay_addr :: string where
  "pay_addr = lib_hex_encode pay_lib (hybrid_pubkey_to_address pay_lib
     (ecdsa_public demo_key_pair) (dilithium_public demo_key_pair))"

definition grant :: transaction where
  "grant = tx_new [] [p2pkh_output pay_addr 5000]"

definition grant_gen :: block where
  "grant_gen = demo_gen\<lparr>transactions := [demo_cb, grant]\<rparr>"

definition grant_chain :: "(bytes \<Rightarrow> bytes option) blockchain" where
  "grant_chain = from_genesis_with_magic pay_lib grant_gen None 7"

definition pay_input :: "hybrid_signature \<Rightarrow> tx_input" where
  "pay_input sg = \<lparr>prev_tx_hash = txid_hex pay_lib grant, prev_index = 0, input_signature = sg,
     input_pubkey = public_key demo_key_pair, coinbase_extra = [], witnesses = []\<rparr>"

definition pay_unsigned :: "u64 \<Rightarrow> transaction" where
  "pay_unsigned v = tx_new [pay_input empty_signature] [p2pkh_output ''aa'' v]"

definition pay :: "u64 \<Rightarrow> transaction" where
  "pay v = tx_new [pay_input (the (hybrid_sign pay_lib demo_key_pair (sig_hash pay_lib 7 (pay_unsigned v))))]
     [p2pkh_output ''aa'' v]"

lemmas pay_lib_defs = pay_lib_def demo_store_lib_defs

lemma pay_lib_ok: "sha_ok pay_lib" "hex_ok pay_lib" "sign_ok pay_lib" "lib_sha256 pay_lib = demo_sha"
  by (simp_all add: sha_ok_def hex_ok_def sign_ok_def pay_lib_defs demo_hex_roundtrip demo_hex_shape)

lemma pay_id_inject:
  assumes "outputs tx = [out]" "outputs tx' = [out']" "txid_hex pay_lib tx = txid_hex pay_lib tx'"
  shows "out_value out = out_value out'"
proof -
  have "hash256 pay_lib (u64_le (out_value out)) = hash256 pay_lib (u64_le (out_value out'))"
    using assms(3) hash_to_hex_inject [OF pay_lib_ok(2)]
    by (simp add: txid_hex_def txid_def) (simp add: pay_lib_def assms(1,2))
  then have "u64_le (out_value out) ! k = u64_le (out_value out') ! k" if "k < 8" for k
    using demo_hash_nth [OF pay_lib_ok(4), of k "u64_le (out_value out)"]
      demo_hash_nth [OF pay_lib_ok(4), of k "u64_le (out_value out')"] that by simp
  then have "u64_le (out_value out) = u64_le (out_value out')" by (intro nth_equalityI) simp_all
  then show ?thesis by (simp add: u64le.enc_eq_iff)
qed

lemma pay_fields:
  "outputs (pay v) = [p2pkh_output ''aa'' v]" "outpoints (pay v) = [(txid_hex pay_lib grant, 0)]"
  "outputs grant = [p2pkh_output pay_addr 5000]" "outputs_total (pay v) = unat v"
  by (simp_all add: pay_def tx_new_def outpoints_def pay_input_def grant_def outputs_total_def p2pkh_output_def)

lemma pay_ids:
  "v \<noteq> 5000 \<Longrightarrow> txid_hex pay_lib (pay v) \<noteq> txid_hex pay_lib grant"
  "txid_hex pay_lib (pay v) = txid_hex pay_lib (pay v') \<longleftrightarrow> v = v'"
  "txid_hex pay_lib demo_cb \<noteq> txid_hex pay_lib grant"
proof -
  have "block_reward 0 \<noteq> 5000" using unat_block_reward [of 0] by (auto simp del: unat_block_reward)
  then show "v \<noteq> 5000 \<Longrightarrow> txid_hex pay_lib (pay v) \<noteq> txid_hex pay_lib grant"
    "txid_hex pay_lib (pay v) = txid_hex pay_lib (pay v') \<longleftrightarrow> v = v'"
    "txid_hex pay_lib demo_cb \<noteq> txid_hex pay_lib grant"
    using pay_id_inject [OF pay_fields(1) pay_fields(3)] pay_id_inject [OF pay_fields(1) pay_fields(1)]
      pay_id_inject [OF _ pay_fields(3), of demo_cb]
    by (auto simp: p2pkh_output_def demo_cb_def)
qed

lemma grant_utxos:
  "utxo_get (chain_utxos grant_chain) (txid_hex pay_lib grant) 0 = Some (p2pkh_output pay_addr 5000)"
  "hm_get (coinbase_heights (chain_utxos grant_chain)) (txid_hex pay_lib grant) = None"
proof -
  have us: "chain_utxos grant_chain = apply_transaction pay_lib grant (apply_transaction pay_lib demo_cb utxo_default)"
    by (simp add: grant_chain_def from_genesis_with_magic_def Let_def apply_block_def grant_gen_def)
  show "utxo_get (chain_utxos grant_chain) (txid_hex pay_lib grant) 0 = Some (p2pkh_output pay_addr 5000)"
    unfolding us by (simp add: utxo_get_apply pay_fields)
  have "\<not> is_coinbase grant" by (simp add: grant_def is_coinbase_def tx_new_def)
  then show "hm_get (coinbase_heights (chain_utxos grant_chain)) (txid_hex pay_lib grant) = None"
    unfolding us using pay_ids(3)
    by (simp add: apply_keeps_heights) (simp add: apply_transaction_def Let_def demo_cb_def utxo_default_def)
qed

lemma pay_acceptable:
  assumes "546 \<le> unat v" "unat v \<le> 5000"
  shows "tx_acceptable pay_lib (pay v) (chain_utxos grant_chain) 7 h"
    "inputs_total (chain_utxos grant_chain) (pay v) = 5000"
proof -
  have kp: "key_pair_wf pay_lib demo_key_pair"
    unfolding key_pair_wf_def demo_key_pair_def
    by (intro conjI exI [of _ "replicate 32 1"]) (simp_all add: pay_lib_defs)
  have sh: "sig_hash pay_lib 7 (pay v) = sig_hash pay_lib 7 (pay_unsigned v)"
    by (simp add: sig_hash_def sig_preimage_def pay_def pay_unsigned_def tx_new_def committed_input_def pay_input_def)
  let ?sg = "the (hybrid_sign pay_lib demo_key_pair (sig_hash pay_lib 7 (pay_unsigned v)))"
  have "hybrid_verify pay_lib ?sg (sig_hash pay_lib 7 (pay v)) (public_key demo_key_pair) = Inr ()"
    using sign_verifies [OF pay_lib_ok(3) kp, of "sig_hash pay_lib 7 (pay_unsigned v)"] unfolding sh by auto
  then have "evaluate_script pay_lib (P2PKH pay_addr) (pay_input ?sg) (sig_hash pay_lib 7 (pay v)) t = Inr ()" for t
    unfolding evaluate_P2PKH_ok by (simp add: pay_addr_def pay_input_def)
      (simp add: public_key_def demo_key_pair_def pay_lib_defs)
  then have "input_ok pay_lib (chain_utxos grant_chain) (sig_hash pay_lib 7 (pay v)) h t (pay_input ?sg)" for t
    by (simp add: input_ok_def effective_script_def p2pkh_output_def is_immature_coinbase_def pay_input_def
        grant_utxos [unfolded p2pkh_output_def])
  moreover show tot: "inputs_total (chain_utxos grant_chain) (pay v) = 5000"
    by (simp add: inputs_total_def pay_fields grant_utxos p2pkh_output_def)
  ultimately show "tx_acceptable pay_lib (pay v) (chain_utxos grant_chain) 7 h"
    using assms by (simp add: tx_acceptable_def pay_fields p2pkh_output_def) (simp add: pay_def tx_new_def)
qed

lemma submit_pay:
  assumes "546 \<le> unat v" "unat v \<le> 4000" "total_bytes mp \<le> 1000"
  shows "submit_transaction pay_lib (pay v) (grant_chain\<lparr>chain_mempool := mp\<rparr>) =
    (Inr (txid_hex pay_lib (pay v)), grant_chain\<lparr>chain_mempool := pool_insert pay_lib (pay v) (5000 - v) mp\<rparr>)"
proof -
  have "unat (5000 - v) = 5000 - unat v" using assms(2) by (simp add: unat_sub_if_size)
  then have "validate_tx pay_lib (pay v) (grant_chain\<lparr>chain_mempool := mp\<rparr>) = Inr (5000 - v)"
    using pay_acceptable [of v] assms
    by (simp add: validate_tx_def validate_tx_Inr pay_fields) (simp add: grant_chain_def from_genesis_with_magic_def Let_def)
  moreover have "\<not> 5000 - v < MIN_FEE_ARKES"
    using \<open>unat (5000 - v) = 5000 - unat v\<close> assms(2) by (simp add: MIN_FEE_ARKES_def word_less_nat_alt)
  moreover have "tx_size pay_lib (pay v) = 250" by (simp add: tx_size_def pay_lib_defs)
  ultimately show ?thesis using assms(3) by (simp add: submit_transaction_def add_with_fee_def MAX_MEMPOOL_BYTES_def)
qed

lemma grant_fields:
  "tip grant_chain = grant_gen" "blocks grant_chain = [grant_gen]" "chain_store grant_chain = None"
  "chain_mempool grant_chain = mempool_new" "total_minted grant_chain = block_reward 0"
  "median_past_time grant_chain = 1700000000" "next_bits grant_chain = Some 0x207fffff"
  "all_blocks grant_chain = [(hash_hex pay_lib grant_gen, grant_gen)]"
  "hm_get (chain_work grant_chain) (hash_hex pay_lib grant_gen) = Some (block_work 0x207fffff)"
  "height grant_gen = 0" "chain_ok pay_lib grant_chain"
  using coinbase_first_value [of grant_gen "replicate 40 (CHR ''0'')" "block_reward 0" 0 "[grant]"]
    chain_ok_genesis(1) [of grant_gen pay_lib None 7]
  by (simp_all add: grant_chain_def from_genesis_with_magic_def Let_def tip_def grant_gen_def hm_insert_def
      hm_get_Cons demo_gen_def demo_cb_def median_past_time_def median_past_time_for_blocks_def next_bits_def
      next_bits_for_blocks_def DIFFICULTY_ADJUSTMENT_INTERVAL_def)

lemma grant_mined:
  "\<exists>b. mine_block pay_lib 1700000100 ''ab'' (grant_chain\<lparr>chain_mempool := mp\<rparr>) = Some b
     \<and> hdr_version (header b) = 1 \<and> timestamp (header b) = 1700000100"
proof -
  let ?c = "grant_chain\<lparr>chain_mempool := mp\<rparr>"
  have same: "tip ?c = grant_gen" "next_bits ?c = Some 0x207fffff" "median_past_time ?c = 1700000000"
    using grant_fields(1,6,7) by (simp_all add: tip_def next_bits_def median_past_time_def)
  have "mine_block_header pay_lib h = Some h" if "hdr_version h = 1" "bits h = 0x207fffff" for h
    using sha_demo_meets [OF pay_lib_ok(4) that] by (simp add: mine_block_header.simps)
  then show ?thesis by (simp add: mine_block_def same Let_def next_block_timestamp_def)
qed

lemma grant_block_new:
  assumes "hdr_version (header b) = 1" "prev_hash (header b) = hash_hex pay_lib grant_gen"
  shows "hm_get (all_blocks grant_chain) (hash_hex pay_lib b) = None"
proof -
  have eq: "hash_hex pay_lib = hash_hex demo_lib"
    by (simp add: fun_eq_iff hash_hex_def header_hash_hex_def hash_to_hex_def header_hash_def hash256_def
        pow_bytes_def hex_32_or_bytes_def Let_def pay_lib_def)
  have g: "hash_hex pay_lib grant_gen = hash_hex demo_lib demo_gen"
    unfolding eq by (simp add: hash_hex_def grant_gen_def)
  have "header_hash demo_lib (header b) ! 4 = 1"
    using demo_hash_bytes(2) [OF assms(1), of "header_hash demo_lib (header demo_gen)"] assms(2)
      demo_gen_hash unfolding g by simp
  then have "hash_hex demo_lib b \<noteq> hash_hex demo_lib demo_gen"
    using demo_gen_hash(4) hash_to_hex_inject [OF demo_store_lib_ok(2)]
    by (auto simp: hash_hex_def header_hash_hex_def)
  then show ?thesis unfolding grant_fields(8) g by (simp add: hm_get_def eq)
qed

theorem conflicting_payments_stall_mining_witness:
  "\<exists>c1 c2 b. submit_transaction pay_lib (pay 4000) grant_chain = (Inr (txid_hex pay_lib (pay 4000)), c1)
     \<and> submit_transaction pay_lib (pay 3000) c1 = (Inr (txid_hex pay_lib (pay 3000)), c2)
     \<and> mine_block pay_lib 1700000100 ''ab'' c2 = Some b
     \<and> fst (add_block pay_lib 1700000100 b c2) \<noteq> Inr ()"
proof -
  define mp1 where "mp1 = pool_insert pay_lib (pay 4000) 1000 mempool_new"
  define mp2 where "mp2 = pool_insert pay_lib (pay 3000) 2000 mp1"
  have c: "grant_chain = grant_chain\<lparr>chain_mempool := mempool_new\<rparr>" using grant_fields(4) by simp
  have sz: "tx_size pay_lib tx = 250" for tx by (simp add: tx_size_def pay_lib_defs)
  have ne: "txid_hex pay_lib (pay 3000) \<noteq> txid_hex pay_lib (pay 4000)" by (simp add: pay_ids(2))
  have s1: "submit_transaction pay_lib (pay 4000) grant_chain =
      (Inr (txid_hex pay_lib (pay 4000)), grant_chain\<lparr>chain_mempool := mp1\<rparr>)"
    using submit_pay [of 4000 mempool_new] c by (simp add: mp1_def mempool_new_def)
  have s2: "submit_transaction pay_lib (pay 3000) (grant_chain\<lparr>chain_mempool := mp1\<rparr>) =
      (Inr (txid_hex pay_lib (pay 3000)), grant_chain\<lparr>chain_mempool := mp2\<rparr>)"
    using submit_pay [of 3000 mp1] by (simp add: mp2_def mp1_def pool_insert_def Let_def mempool_new_def sz)
  have pool: "pool_txs mp2 = [(txid_hex pay_lib (pay 4000), pay 4000), (txid_hex pay_lib (pay 3000), pay 3000)]"
    using ne by (simp add: mp2_def mp1_def pool_insert_def Let_def mempool_new_def hm_insert_def hm_get_def)
  have out: "(txid_hex pay_lib grant, 0) \<in> set (outpoints (pay 4000)) \<inter> set (outpoints (pay 3000))"
    by (simp add: pay_fields)
  have "\<not> is_coinbase (pay v)" for v
    using pay_fields(2) [of v] by (auto simp: is_coinbase_def outpoints_def split: list.splits)
  then have pooled: "\<forall>(tid, t) \<in> set (pool_txs (chain_mempool (grant_chain\<lparr>chain_mempool := mp2\<rparr>))).
      \<not> is_coinbase t \<and> txid_hex pay_lib t \<noteq> txid_hex pay_lib grant"
    by (simp add: pool pay_ids(1))
  obtain b where b: "mine_block pay_lib 1700000100 ''ab'' (grant_chain\<lparr>chain_mempool := mp2\<rparr>) = Some b"
    "hdr_version (header b) = 1"
    using grant_mined by blast
  have "prev_hash (header b) = hash_hex pay_lib grant_gen"
    using mined_block_fields(2) [OF b(1)] grant_fields(1) by (simp add: tip_def)
  then have new: "hm_get (all_blocks (grant_chain\<lparr>chain_mempool := mp2\<rparr>)) (hash_hex pay_lib b) = None"
    using grant_block_new [OF b(2)] by simp
  have "pool_len (chain_mempool (grant_chain\<lparr>chain_mempool := mp2\<rparr>)) \<le> 500" by (simp add: pool_len_def pool)
  from conflicting_payments_stall_mining [OF s1 s2 ne [symmetric] out this pooled b(1) new, of 1700000100] s1 s2 b(1)
  show ?thesis by blast
qed

text \<open>The block mined on the grant with one payment in the mempool.\<close>

lemma grant_block:
  assumes mp: "mp = pool_insert pay_lib (pay 4000) 1000 mempool_new"
  obtains b r where "mine_block pay_lib 1700000100 ''ab'' (grant_chain\<lparr>chain_mempool := mp\<rparr>) = Some b"
    "hdr_version (header b) = 1" "timestamp (header b) = 1700000100"
    "prev_hash (header b) = hash_hex pay_lib grant_gen" "height b = 1" "bits (header b) = 0x207fffff"
    "transactions b = [coinbase ''ab'' r 1, pay 4000]" "unat (block_reward 0) + unat r < 2 ^ 64"
proof -
  let ?c = "grant_chain\<lparr>chain_mempool := mp\<rparr>"
  obtain b where b: "mine_block pay_lib 1700000100 ''ab'' ?c = Some b" "hdr_version (header b) = 1"
    "timestamp (header b) = 1700000100"
    using grant_mined by blast
  have pool: "pool_txs mp = [(txid_hex pay_lib (pay 4000), pay 4000)]" "fee_for mp (txid_hex pay_lib (pay 4000)) = 1000"
    by (simp_all add: mp pool_insert_def Let_def mempool_new_def hm_insert_def hm_get_def fee_for_def)
  then have take: "pool_take pay_lib mp 500 = [pay 4000]" by (simp add: pool_take_def sort_by_def)
  define r where "r = saturating_add (capped_block_reward ?c 1) (1000 :: u64)"
  have tip: "tip ?c = grant_gen" "next_bits ?c = Some 0x207fffff" using grant_fields(1,7) by (simp_all add: tip_def next_bits_def)
  have "saturating_add 0 (1000 :: u64) = 1000" by (simp add: saturating_add_def)
  then have f: "prev_hash (header b) = hash_hex pay_lib grant_gen" "height b = 1" "bits (header b) = 0x207fffff"
    "transactions b = [coinbase ''ab'' r 1, pay 4000]"
    using mined_block_fields [OF b(1)] tip grant_fields(10) by (simp_all add: take pool(2) r_def)
  have "unat (capped_block_reward ?c 1) \<le> unat (block_reward 1)" by (simp add: capped_block_reward_def unat_min)
  then have "unat (block_reward 0) + unat r < 2 ^ 64" by (simp add: unat_block_reward r_def unat_saturating_add)
  from that [OF b f this] show thesis .
qed


end
