(* ===== verification/Reopen.thy ===== *)
theory Reopen
  imports Chain_Validity
begin

text \<open>
  Reopening a chain (\<open>open_for_network\<close>, \<open>from_blocks\<close> of \<open>src/blockchain/chain.rs\<close>): the blocks
  loaded from the store are added one by one to a chain of the genesis block. On the network whose
  magic that chain carries, this restores the active chain of any node that stored it; on the
  other networks the magic is set too late.
\<close>

section \<open>Adding a list of blocks\<close>

lemma add_blocks_append1:
  "add_blocks X clock n (bs @ [b]) c =
     try_st (add_blocks X clock n bs c) (\<lambda>_ c1. add_block X (clock (n + length bs)) b c1)"
proof (induction bs arbitrary: n c)
  case Nil
  show ?case by (cases "add_block X (clock n) b c"; cases "fst (add_block X (clock n) b c)") simp_all
next
  case (Cons a bs)
  show ?case by (cases "add_block X (clock n) a c"; cases "fst (add_block X (clock n) a c)") (simp_all add: Cons.IH)
qed

text \<open>The state after the first blocks of a list: they are the active chain and nothing else is stored.\<close>

definition holds_blocks ::
  "('d, 'x) store_lib_scheme \<Rightarrow> u32 \<Rightarrow> block list \<Rightarrow> block list \<Rightarrow> 'd blockchain \<Rightarrow> bool" where
  "holds_blocks X magic cs bs c \<longleftrightarrow> chain_ok X c \<and> network_magic c = magic \<and> blocks c = bs
     \<and> (\<forall>h b. hm_get (all_blocks c) h = Some b \<longrightarrow> b \<in> set bs) \<and> saves X (chain_store c) cs"

lemma holds_genesis:
  assumes "height g = 0" "saves X s cs"
  shows "holds_blocks X REGTEST_MAGIC cs [g] (from_genesis X g s)"
  using assms chain_ok_genesis [of g X s REGTEST_MAGIC]
  by (auto simp: holds_blocks_def from_genesis_def from_genesis_with_magic_def Let_def split: if_splits)

lemma prefix_shape:
  shows "numbered (bs @ cs) \<Longrightarrow> numbered bs" "linked X (bs @ cs) \<Longrightarrow> linked X bs"
  unfolding numbered_def linked_def by (metis length_append nth_append trans_less_add1,
    metis Suc_lessD length_append nth_append trans_less_add1)

lemma distinct_hashes:
  assumes "stored X all (bs @ b # cs)" "numbered (bs @ b # cs)" "b' \<in> set bs"
  shows "hash_hex X b' \<noteq> hash_hex X b"
proof
  assume "hash_hex X b' = hash_hex X b"
  moreover have "hm_get all (hash_hex X b') = Some b'" "hm_get all (hash_hex X b) = Some b"
    using assms(1,3) by (auto simp: stored_def list_all_iff)
  ultimately have "b = b'" by (metis option.inject)
  with numbered_distinct [OF assms(2)] assms(3) show False by auto
qed

lemma checked_valid:
  assumes "checked_block X magic bs b" "holds_blocks X magic cs bs c"
    and "timestamp (header b) \<le> now + 7200"
  shows "block_validate X b (hash_hex X (tip c)) = Inr ()"
    and "validate_block_against_parent X now c b (hash_hex X (tip c)) = Inr ()"
proof -
  have c: "chain_ok X c" "network_magic c = magic" "blocks c = bs" "tip c = last bs"
    using assms(2) by (auto simp: holds_blocks_def tip_def)
  then have r: "replay X bs utxo_default 0 = Inr (chain_utxos c, total_minted c)"
    by (auto simp: chain_ok_def active_ok_def)
  show v: "block_validate X b (hash_hex X (tip c)) = Inr ()"
    using assms(1) by (simp add: checked_block_def c(4))
  then have "transactions b \<noteq> []" by (auto simp: block_validate_def split: if_splits)
  with assms(1) have "validate_coinbase_subsidy_with_state X c b (total_minted c) (chain_utxos c) = Inr ()"
    unfolding subsidy_Inr by (auto simp: checked_block_def r c(2))
  moreover have "parent_context X c (hash_hex X (tip c)) = Inr (bs, chain_utxos c, total_minted c)"
    by (simp add: parent_context_def c(3))
  moreover have "validate_transactions X magic (height b) (tl (transactions b)) (chain_utxos c) = Inr ()"
    using assms(1) by (auto simp: checked_block_def r)
  ultimately show "validate_block_against_parent X now c b (hash_hex X (tip c)) = Inr ()"
    unfolding validate_block_Inr using chain_ok_tip(1) [OF c(1)] assms(1,3)
    by (auto simp: checked_block_def validate_timestamp_def c)
qed

text \<open>One more block of a chain some node holds: none of the checks can fail.\<close>

lemma extend_holds:
  assumes node: "chain_ok X c0" "blocks c0 = bs @ b # rest" and ne: "bs \<noteq> []"
    and now: "checked_block X magic bs b" "timestamp (header b) \<le> now + 7200"
    and c: "holds_blocks X magic (blocks c0) bs c"
  obtains c' where "add_block X now b c = (Inr (), c')" "holds_blocks X magic (blocks c0) (bs @ [b]) c'"
proof -
  let ?work = "\<lambda>bs. sum_list (map (\<lambda>b. unat (block_work (bits (header b)))) bs)"
  have all: "stored X (all_blocks c0) (bs @ b # rest)" "numbered (bs @ b # rest)" "linked X (bs @ b # rest)"
    using node by (auto simp: chain_ok_def active_ok_def)
  have cs: "chain_ok X c" "blocks c = bs" "\<And>h b. hm_get (all_blocks c) h = Some b \<Longrightarrow> b \<in> set bs"
    using c by (auto simp: holds_blocks_def)
  have pre: "stored X (all_blocks c0) (bs @ [b])" "numbered (bs @ [b])" "linked X (bs @ [b])"
    using all prefix_shape(1) [of "bs @ [b]" rest] prefix_shape(2) [of X "bs @ [b]" rest] by (simp_all add: stored_def)
  have par: "prev_hash (header b) = hash_hex X (tip c)" "height b \<noteq> 0"
    using pre(2,3) ne cs(2) by (auto simp: linked_append1 numbered_append1 tip_def)
  have new: "hm_get (all_blocks c) (hash_hex X b) = None"
    using cs(1,3) distinct_hashes [OF all(1,2)] unfolding chain_ok_def by (metis all_okD(1) not_Some_eq)
  have leaf: "fresh_leaf X b c" using cs(2,3) by (intro leaf_of_active [OF cs(1) _ new]) simp
  obtain w :: u128 where w: "unat w = ?work (bs @ [b])"
    using work_sum [of "all_blocks c0" "chain_work c0" X "bs @ [b]"] pre node(1) by (auto simp: chain_ok_def)
  obtain t where t: "hm_get (chain_work c) (hash_hex X (tip c)) = Some t" "unat t = ?work bs"
    using work_sum [of "all_blocks c" "chain_work c" X bs] cs(1,2) ne
    by (auto simp: chain_ok_def active_ok_def tip_def)
  then have w': "checked_add t (block_work (bits (header b))) = Some (t + block_work (bits (header b)))"
    using w unsigned_less [of w, where ?'a = nat] by (simp add: checked_add_def)
  obtain m where m: "checked_add (total_minted c) (coinbase_value b) = Some m"
    using node cs(1,2) by (auto simp: chain_ok_def active_ok_def replay_append try_res_Inr split: option.splits)
  obtain c' where c': "add_block X now b c = (Inr (), c')" "blocks c' = bs @ [b]" "saves X (chain_store c') (blocks c0)"
    using extend_tip_saving [OF cs(1) _ _ new par checked_valid [OF now(1) c now(2)] t(1) w' m, of "blocks c0"]
      c cs(2) node(2) by (auto simp: holds_blocks_def)
  have "chain_ok X c'" using add_block_ok [OF cs(1) leaf par(2) c'(1)] by simp
  moreover have hm: "hm_ok (all_blocks c)" using cs(1) by (simp add: chain_ok_def all_ok_def)
  have "network_magic c' = magic" "\<And>h x. hm_get (all_blocks c') h = Some x \<Longrightarrow> x \<in> set (bs @ [b])"
    using add_block_stored [OF hm c'(1)] cs(3) c by (auto simp: holds_blocks_def)
  ultimately show thesis using c' that unfolding holds_blocks_def by blast
qed

lemma add_blocks_restores:
  assumes "chain_ok X c0" "fully_checked X REGTEST_MAGIC (blocks c0)" "saves X s (blocks c0)"
    and "\<forall>b \<in> set (blocks c0). \<forall>n. timestamp (header b) \<le> clock n + 7200"
  shows "blocks c0 = g # bs @ rest \<Longrightarrow>
    \<exists>c. add_blocks X clock 0 bs (from_genesis X g s) = (Inr (), c)
      \<and> holds_blocks X REGTEST_MAGIC (blocks c0) (g # bs) c"
proof (induction bs arbitrary: rest rule: rev_induct)
  case Nil
  have "height g = 0" using assms(1) Nil by (auto simp: chain_ok_def active_ok_def numbered_def unat_eq_0)
  with holds_genesis [OF _ assms(3)] show ?case by simp
next
  case (snoc b bs)
  then obtain c where c: "add_blocks X clock 0 bs (from_genesis X g s) = (Inr (), c)"
    "holds_blocks X REGTEST_MAGIC (blocks c0) (g # bs) c"
    by fastforce
  have split: "blocks c0 = (g # bs) @ b # rest" using snoc.prems by simp
  have "checked_block X REGTEST_MAGIC (take (Suc (length bs)) (blocks c0)) (blocks c0 ! Suc (length bs))"
    using assms(2) split unfolding fully_checked_def by (elim allE [of _ "Suc (length bs)"]) simp
  then have "checked_block X REGTEST_MAGIC (g # bs) b" by (simp add: split)
  moreover have "timestamp (header b) \<le> clock (length bs) + 7200" using assms(4) split by simp
  ultimately obtain c' where "add_block X (clock (length bs)) b c = (Inr (), c')"
    "holds_blocks X REGTEST_MAGIC (blocks c0) ((g # bs) @ [b]) c'"
    by (rule extend_holds [OF assms(1) split list.distinct(2) _ _ c(2)])
  then show ?case by (simp add: add_blocks_append1 c(1))
qed

lemma load_heights_all:
  "\<forall>b \<in> set bs. load_block_by_height X d (height b) = Inr (Some b) \<Longrightarrow> load_heights X d (map height bs) = Inr bs"
  by (induction bs) simp_all

lemma numbered_heights:
  assumes "numbered bs"
  shows "map word_of_nat [0..<length bs] = map height bs"
proof (intro nth_equalityI)
  fix i assume "i < length (map word_of_nat [0..<length bs])"
  then have "i < length bs" "unat (height (bs ! i)) = i" using assms by (auto simp: numbered_def)
  moreover have "word_of_nat (unat (height (bs ! i))) = height (bs ! i)" by simp
  ultimately show "map word_of_nat [0..<length bs] ! i = map height bs ! i"
    by (simp only: nth_map length_upt nth_upt diff_zero add_0)
qed simp

text \<open>The store leads to the active chain: from the tip record, and height by height.\<close>

definition store_leads :: "('d, 'x) store_lib_scheme \<Rightarrow> 'd \<Rightarrow> 'd blockchain \<Rightarrow> bool" where
  "store_leads X d c \<longleftrightarrow> load_tip X d = Inr (Some (hash_hex X (tip c)))
     \<and> load_block_by_hash X d (hash_hex X (tip c)) = Inr (Some (tip c))
     \<and> (\<forall>b \<in> set (blocks c). load_block_by_height X d (height b) = Inr (Some b))"

lemma reopen_stored_chain:
  assumes "fresh_chain X c0" "(chain_step X)\<^sup>*\<^sup>* c0 c" "network_magic c = REGTEST_MAGIC"
    and "store_leads X d c" "saves X (Some d) (blocks c)"
    and "\<forall>b \<in> set (blocks c). \<forall>n. timestamp (header b) \<le> clock n + 7200"
  shows "\<exists>c'. open_for_network X clock d ''regtest'' = Some (Inr c') \<and> blocks c' = blocks c
    \<and> chain_utxos c' = chain_utxos c \<and> total_minted c' = total_minted c
    \<and> network_magic c' = network_magic c"
proof -
  note ok = reachable_checked [OF assms(1,2)]
  have act: "blocks c \<noteq> []" "numbered (blocks c)"
    "replay X (blocks c) utxo_default 0 = Inr (chain_utxos c, total_minted c)"
    using ok(1) by (auto simp: chain_ok_def active_ok_def)
  obtain g bs where g: "blocks c = g # bs" using act(1) by (cases "blocks c") auto
  obtain c1 where c1: "add_blocks X clock 0 bs (from_genesis X g (Some d)) = (Inr (), c1)"
    "holds_blocks X REGTEST_MAGIC (blocks c) (g # bs) c1"
    using add_blocks_restores [OF ok(1) _ assms(5,6), of g bs "[]"] ok(2) assms(3) g by auto
  then have b1: "blocks c1 = blocks c" "replay X (blocks c) utxo_default 0 = Inr (chain_utxos c1, total_minted c1)"
    using g by (auto simp: holds_blocks_def chain_ok_def active_ok_def)
  have "Suc (unat (height (tip c))) = length (blocks c)"
    using chain_ok_tip(2) [OF ok(1)] act(1) by simp
  then have "load_heights X d (map word_of_nat [0..<Suc (unat (height (tip c)))]) = Inr (blocks c)"
    using load_heights_all [of "blocks c" X d] numbered_heights [OF act(2)] assms(4) by (simp add: store_leads_def)
  moreover have "from_blocks X clock (blocks c) (Some d) = Inr c1" by (simp add: from_blocks_def g c1(1))
  ultimately have "open_for_network X clock d ''regtest'' = Some (Inr (c1\<lparr>network_magic := magic_for_network ''regtest''\<rparr>))"
    using assms(4) by (simp add: open_for_network_def store_leads_def)
  moreover have "magic_for_network ''regtest'' = REGTEST_MAGIC" by (simp add: magic_for_network_def)
  ultimately show ?thesis using b1 act(3) assms(3) by auto
qed

section \<open>What a switch leaves in the store\<close>

definition block_in :: "('d, 'x) store_lib_scheme \<Rightarrow> (bytes \<Rightarrow> bytes option) \<Rightarrow> block \<Rightarrow> bool" where
  "block_in X kv b \<longleftrightarrow> (\<exists>v. lib_block_ser X b = Some v \<and> kv (block_key (hash_hex X b)) = Some v)
     \<and> kv (height_key (height b)) = Some (as_bytes (hash_hex X b))"

text \<open>No two blocks of the list have the same hash or the same height.\<close>

definition apart :: "'x hash_lib_scheme \<Rightarrow> block list \<Rightarrow> bool" where
  "apart X bs \<longleftrightarrow> (\<forall>a \<in> set bs. \<forall>b \<in> set bs. hash_hex X a = hash_hex X b \<or> height a = height b \<longrightarrow> a = b)"

lemma apart_active: "chain_ok X c \<Longrightarrow> apart X (blocks c)"
proof -
  assume "chain_ok X c"
  then have "stored X (all_blocks c) (blocks c)" and n: "numbered (blocks c)"
    by (auto simp: chain_ok_def active_ok_def)
  then have "hash_hex X a = hash_hex X b \<Longrightarrow> a = b" if "a \<in> set (blocks c)" "b \<in> set (blocks c)" for a b
    using that unfolding stored_def list_all_iff by (metis option.inject)
  moreover have "height a = height b \<Longrightarrow> a = b" if "a \<in> set (blocks c)" "b \<in> set (blocks c)" for a b
    using that n unfolding numbered_def in_set_conv_nth by metis
  ultimately show ?thesis unfolding apart_def by blast
qed

lemma saved_blocks_in:
  assumes "db_ok X kv" "apart X cs" "set bs \<subseteq> set cs" "chain_store c = Some d"
    and "store_save_blocks X bs c = (Inr (), c')"
  shows "\<exists>d'. chain_store c' = Some d'
    \<and> (\<forall>a \<in> set cs. a \<in> set bs \<or> block_in X (kv d) a \<longrightarrow> block_in X (kv d') a)"
  using assms(3-5)
proof (induction bs arbitrary: c d)
  case (Cons b bs)
  obtain d1 where d1: "save_block X b d = (Inr (), d1)"
    and c1: "store_save_blocks X bs (c\<lparr>chain_store := Some d1\<rparr>) = (Inr (), c')"
    using Cons.prems(2,3) by (auto simp: store_save_block_def try_st_Inr split: prod.splits)
  obtain v where v: "lib_block_ser X b = Some v"
    "kv d1 = (kv d)(block_key (hash_hex X b) \<mapsto> v, height_key (height b) \<mapsto> as_bytes (hash_hex X b))"
    using save_block_kv [OF assms(1) d1] .
  have "block_in X (kv d1) a" if "a \<in> set cs" "a = b \<or> block_in X (kv d) a" for a
  proof (cases "a = b")
    case False
    then have "hash_hex X a \<noteq> hash_hex X b" "height a \<noteq> height b"
      using assms(2) that(1) Cons.prems(1) by (auto simp: apart_def)
    with that(2) False show ?thesis by (simp add: block_in_def v(2))
  qed (simp add: block_in_def v)
  moreover obtain d' where "chain_store c' = Some d'"
    "\<forall>a \<in> set cs. a \<in> set bs \<or> block_in X (kv d1) a \<longrightarrow> block_in X (kv d') a"
    using Cons.IH [OF _ _ c1, of d1] Cons.prems(1) by auto
  ultimately show ?case by auto
qed simp

lemma save_blocks_memory: "chain_store c = None \<Longrightarrow> store_save_blocks X bs c = (Inr (), c)"
  by (induction bs) (simp_all add: store_save_block_def)

lemma activate_leads:
  assumes lib: "db_ok X kv" "codec_ok X" "hex_ok X"
    and act: "activate_chain X h c = (Inr (), c')" "chain_store c' = Some d'" "apart X (blocks c')" "blocks c' \<noteq> []"
    and size: "\<forall>b \<in> set (blocks c'). \<forall>v. lib_block_ser X b = Some v \<longrightarrow> length v \<le> MAX_BLOCK_SIZE"
  shows "store_leads X d' c'"
proof -
  obtain bs c1 c2 where s: "rebuild_active_state X bs c = (Inr (), c1)"
    "store_save_blocks X (blocks c1) c1 = (Inr (), c2)"
    "store_save_tip X (hash_hex X (tip c2)) c2 = (Inr (), c')"
    using act(1) by (auto simp: activate_chain_def try_st_Inr split: sum.splits if_splits)
  have "chain_store c1 \<noteq> None"
  proof
    assume n: "chain_store c1 = None"
    then have "c2 = c1" using s(2) by (simp add: save_blocks_memory)
    with n s(3) act(2) show False by (simp add: store_save_tip_def)
  qed
  then obtain d where "chain_store c1 = Some d" by blast
  moreover have b: "blocks c2 = blocks c1" "blocks c' = blocks c1"
    using store_save_blocks_core [OF s(2)] store_save_tip_core [OF s(3)] by auto
  ultimately obtain d2 where d2: "chain_store c2 = Some d2" "\<forall>a \<in> set (blocks c'). block_in X (kv d2) a"
    using saved_blocks_in [OF lib(1) _ subset_refl _ s(2)] act(3) by auto
  then have d': "save_tip X (hash_hex X (tip c2)) d2 = (Inr (), d')"
    using s(3) act(2) by (auto simp: store_save_tip_def split: prod.splits)
  have kv: "kv d' = (kv d2)(tip_key \<mapsto> as_bytes (hash_hex X (tip c2)))" by (rule save_tip_kv [OF lib(1) d'])
  have load: "load_block_by_hash X d' (hash_hex X a) = Inr (Some a)"
    "load_block_by_height X d' (height a) = Inr (Some a)" if "a \<in> set (blocks c')" for a
  proof -
    have "block_in X (kv d') a" using d2(2) that by (simp add: block_in_def kv)
    then show hs: "load_block_by_hash X d' (hash_hex X a) = Inr (Some a)"
      using lib(2) size that by (auto simp: block_in_def load_block_by_hash_def get_or_kv [OF lib(1)] codec_ok_def)
    from \<open>block_in X (kv d') a\<close> hs show "load_block_by_height X d' (height a) = Inr (Some a)"
      by (simp add: block_in_def load_block_by_height_def get_or_kv [OF lib(1)] hash_hex_utf8 [OF lib(3)])
  qed
  have "tip c' \<in> set (blocks c')" "tip c' = tip c2"
    using act(4) b by (auto simp: tip_def)
  with load load_saved_tip [OF lib(1,3) d'] show ?thesis by (auto simp: store_leads_def)
qed

text \<open>A new tip comes from a switch of the chain.\<close>

lemma new_tip_leads:
  assumes lib: "db_ok X kv" "codec_ok X" "hex_ok X"
    and add: "add_block X now b c = (Inr (), c')" "tip c' \<noteq> tip c" "chain_store c' = Some d" "chain_ok X c'"
    and size: "\<forall>b \<in> set (blocks c'). \<forall>v. lib_block_ser X b = Some v \<longrightarrow> length v \<le> MAX_BLOCK_SIZE"
  shows "store_leads X d c'"
  using add(1)
proof (cases rule: add_block_cases)
  case (refused s)
  then show ?thesis using add(2) by (simp add: tip_def)
next
  case (stored p pw w s c2)
  have c2: "tip c2 = tip c" by (simp_all add: stored(7) insert_block_def tip_def)
  obtain t where "hm_get (chain_work c2) (hash_hex X (tip c2)) = Some t"
    using stored(8) by (cases "hm_get (chain_work c2) (hash_hex X (tip c2))") auto
  then obtain c3 where c3: "(if t < w then activate_chain X (hash_hex X b) c2 else (Inr (), c2)) = (Inr (), c3)"
    "c' = prune_stale_orphans X c3"
    using stored(8) [symmetric] by (auto simp: try_st_Inr)
  then have "t < w" using add(2) c2 by (auto split: if_splits)
  then have "activate_chain X (hash_hex X b) c2 = (Inr (), c3)" using c3(1) by simp
  moreover have "apart X (blocks c3)" "blocks c3 \<noteq> []" "chain_store c3 = Some d" "tip c3 = tip c'" "blocks c3 = blocks c'"
    using apart_active [OF add(4)] add(3,4) by (simp_all add: c3(2) prune_store chain_ok_def active_ok_def)
  ultimately show ?thesis
    using activate_leads [OF lib, of "hash_hex X b" c2 c3 d] size by (simp add: store_leads_def)
qed


text \<open>A chain keeps its store, whatever the outcome.\<close>

lemma store_kept:
  "store_save_block X b c = (r, c') \<Longrightarrow> chain_store c' = None \<longleftrightarrow> chain_store c = None"
  "store_save_tip X h c = (r, c') \<Longrightarrow> chain_store c' = None \<longleftrightarrow> chain_store c = None"
  "rebuild_active_state X bs c = (r, c') \<Longrightarrow> chain_store c' = chain_store c"
  by (auto simp: store_save_block_def store_save_tip_def rebuild_active_state_def split: option.splits prod.splits sum.splits)

lemma store_kept_blocks:
  "store_save_blocks X bs c = (r, c') \<Longrightarrow> chain_store c' = None \<longleftrightarrow> chain_store c = None"
proof (induction bs arbitrary: c)
  case (Cons b bs)
  obtain r1 c1 where "store_save_block X b c = (r1, c1)" by fastforce
  with Cons store_kept(1) [OF this] show ?case by (cases r1) auto
qed simp

lemma store_kept_activate:
  assumes "activate_chain X h c = (r, c')"
  shows "chain_store c' = None \<longleftrightarrow> chain_store c = None"
proof (cases "chain_to_hash c h")
  case (Inr bs)
  obtain r1 c1 where c1: "rebuild_active_state X bs c = (r1, c1)" by fastforce
  obtain r2 c2 where c2: "store_save_blocks X (blocks c1) c1 = (r2, c2)" by fastforce
  obtain r3 c3 where c3: "store_save_tip X (hash_hex X (tip c2)) c2 = (r3, c3)" by fastforce
  have "c' = c \<or> c' = c1 \<or> c' = c2 \<or> c' = c3"
    using assms Inr c1 c2 c3 by (cases r1; cases r2) (auto simp: activate_chain_def split: if_splits)
  then show ?thesis using store_kept(3) [OF c1] store_kept_blocks [OF c2] store_kept(2) [OF c3] by auto
qed (use assms in \<open>simp add: activate_chain_def\<close>)

lemma store_kept_add:
  assumes "add_block X now b c = (Inr (), c')"
  shows "chain_store c' = None \<longleftrightarrow> chain_store c = None"
proof (cases "hm_contains (all_blocks c) (hash_hex X b)")
  case True
  then show ?thesis using assms by (simp add: add_block_def)
next
  case False
  then show ?thesis
    using assms
    by (auto simp: add_block_def Let_def try_st_Inr prune_store dest!: store_kept(1) store_kept_activate
        split: if_splits sum.splits option.splits)
qed

text \<open>The chain of two blocks with a store in memory.\<close>

lemma demo_saves: "saves demo_lib s [demo_gen, demo_next]"
proof -
  have p: "put_or demo_lib k v e = (Inr (), e(k \<mapsto> v))" for k v e
    by (simp add: demo_store_lib_defs put_or_def)
  have "\<exists>v. lib_block_ser demo_lib demo_gen = Some v" "\<exists>v. lib_block_ser demo_lib demo_next = Some v"
    unfolding demo_next_child by (simp_all add: demo_store_lib_defs)
  then show ?thesis by (auto simp: saves_def save_block_def save_tip_def p)
qed

lemma demo_stored:
  obtains c where
    "add_block demo_lib 1700000100 demo_next (from_genesis demo_lib demo_gen (Some Map.empty)) = (Inr (), c)"
    "blocks c = [demo_gen, demo_next]"
proof -
  obtain cm where cm: "add_block demo_lib 1700000100 demo_next demo_chain = (Inr (), cm)"
    "(chain_step demo_lib)\<^sup>*\<^sup>* demo_chain cm" "blocks cm = [demo_gen, demo_next]"
    by (rule demo_second)
  note ok = reachable_checked [OF demo_chain_ok(3) cm(2)]
  have "hm_ok (all_blocks demo_chain)" using demo_chain_ok(1) by (simp add: chain_ok_def all_ok_def)
  from this cm(1) have m: "network_magic cm = REGTEST_MAGIC"
    by (cases rule: add_block_state) (simp_all add: demo_chain_def from_genesis_def from_genesis_with_magic_def Let_def)
  have ts: "\<forall>b \<in> set (blocks cm). \<forall>n. timestamp (header b) \<le> (\<lambda>_. 1700000100) n + 7200"
    by (simp add: cm(3)) (simp add: demo_gen_def demo_next_def Let_def)
  have "fully_checked demo_lib REGTEST_MAGIC (blocks cm)" "saves demo_lib (Some Map.empty) (blocks cm)"
    "blocks cm = demo_gen # [demo_next] @ []"
    using ok(2) m demo_saves by (simp_all add: cm(3))
  from add_blocks_restores [OF ok(1) this(1,2) ts this(3)]
  obtain c where "add_blocks demo_lib (\<lambda>_. 1700000100) 0 [demo_next]
      (from_genesis demo_lib demo_gen (Some Map.empty)) = (Inr (), c)"
    "holds_blocks demo_lib REGTEST_MAGIC (blocks cm) [demo_gen, demo_next] c"
    by blast
  with that show thesis by (auto simp: try_st_Inr holds_blocks_def)
qed


section \<open>The network magic while reloading\<close>

lemma add_block_Inr_validated:
  assumes "add_block X now b c = (Inr (), c')" "hm_get (all_blocks c) (hash_hex X b) = None"
  shows "\<exists>us. validate_transactions X (network_magic c) (height b) (tl (transactions b)) us = Inr ()"
proof -
  have "validate_block_against_parent X now c b (prev_hash (header b)) = Inr ()"
    using assms by (auto simp: add_block_def Let_def try_res_Inr split: if_splits sum.splits)
  then show ?thesis unfolding validate_block_Inr by blast
qed

lemma add_blocks_validated:
  assumes "hm_ok (all_blocks c)" "add_blocks X clock n bs c = (Inr (), c')" "i < length bs"
    and "hm_get (all_blocks c) (hash_hex X (bs ! i)) = None"
    and "\<forall>j < i. hash_hex X (bs ! j) \<noteq> hash_hex X (bs ! i)"
  shows "\<exists>us. validate_transactions X (network_magic c) (height (bs ! i)) (tl (transactions (bs ! i))) us = Inr ()"
  using assms
proof (induction bs arbitrary: n c i)
  case (Cons b bs)
  obtain c1 where c1: "add_block X (clock n) b c = (Inr (), c1)" "add_blocks X clock (n + 1) bs c1 = (Inr (), c')"
    using Cons.prems(2) by (cases "add_block X (clock n) b c"; cases "fst (add_block X (clock n) b c)") auto
  show ?case
  proof (cases i)
    case 0
    then show ?thesis using add_block_Inr_validated [OF c1(1)] Cons.prems(4) by simp
  next
    case (Suc k)
    let ?b = "bs ! k"
    have ne: "hash_hex X b \<noteq> hash_hex X ?b" using Cons.prems(5) Suc by force
    from Cons.prems(1) c1(1)
    have keep: "network_magic c1 = network_magic c \<and> hm_ok (all_blocks c1) \<and> hm_get (all_blocks c1) (hash_hex X ?b) = None"
    proof (cases rule: add_block_state)
      case kept
      then show ?thesis using Cons.prems(4) Suc by (metis nth_Cons_Suc not_Some_eq)
    next
      case (inserted p w)
      have "hm_get (all_blocks (insert_block X b w c)) (hash_hex X ?b) = None"
        using Cons.prems(4) Suc ne by (simp add: insert_block_def)
      with inserted(5-7) show ?thesis by (metis not_Some_eq)
    qed
    have "\<forall>j < k. hash_hex X (bs ! j) \<noteq> hash_hex X ?b" using Cons.prems(5) Suc by force
    with Cons.IH [of c1 "n + 1" k] keep c1(2) Cons.prems(3) Suc show ?thesis by simp
  qed
qed simp



end
