(* ===== verification/Sessions.thy ===== *)
theory Sessions
  imports Node Reopen
begin

text \<open>
  Sessions with peers (\<open>handle_peer\<close> and the tasks that run it, \<open>src/network/node.rs\<close>): the task
  that reads from the connection, the loop that takes what arrives from the peer and from the
  broadcast channel in any order, and what happens when it ends. Two such sessions joined together
  give a round of synchronisation between two nodes.
\<close>

section \<open>The session loop\<close>

text \<open>The reading task hands on what it receives, up to and including the first error.\<close>

fun reader_task :: "(string + message) list \<Rightarrow> (string + message) list" where
  "reader_task [] = []"
| "reader_task (Inl e # rs) = [Inl e]"
| "reader_task (Inr m # rs) = Inr m # reader_task rs"

text \<open>What \<open>select!\<close> can deliver: a message with the clock readings taken for it, an error of the
  reader, the end of its channel, a broadcast, a lag or the end of the broadcast channel. The
  tasks share the node: \<open>OtherTask\<close> is the state others leave between two turns of the loop.\<close>

datatype 'd peer_event =
    Incoming u64 nat nat message
  | ReadError string
  | ReaderGone
  | Broadcast relay_message
  | BroadcastLagged
  | BroadcastClosed
  | OtherTask "'d node"

datatype session_end = Finished | PeerReadError string | PeerError node_err

text \<open>\<open>None\<close>: the loop is still running after these events.\<close>

fun handle_peer ::
  "('d, 'x) store_lib_scheme \<Rightarrow> (message list \<Rightarrow> message \<Rightarrow> bool) \<Rightarrow> string \<Rightarrow> 'd peer_event list
     \<Rightarrow> 'd session \<Rightarrow> session_end option \<times> 'd session" where
  "handle_peer X W addr [] s = (None, s)"
| "handle_peer X W addr (Incoming now inst inst' msg # evs) s =
     (case handle_message X W now inst inst' addr msg s of
        (Inl e, s') \<Rightarrow> (Some (PeerError e), s')
      | (Inr _, s') \<Rightarrow> handle_peer X W addr evs s')"
| "handle_peer X W addr (ReadError e # evs) s = (Some (PeerReadError e), s)"
| "handle_peer X W addr (ReaderGone # evs) s = (Some Finished, s)"
| "handle_peer X W addr (Broadcast r # evs) s =
     (case handle_relay W addr r s of
        (Inl e, s') \<Rightarrow> (Some (PeerError e), s')
      | (Inr _, s') \<Rightarrow> handle_peer X W addr evs s')"
| "handle_peer X W addr (BroadcastLagged # evs) s = handle_peer X W addr evs s"
| "handle_peer X W addr (BroadcastClosed # evs) s = (Some Finished, s)"
| "handle_peer X W addr (OtherTask nd # evs) s = handle_peer X W addr evs (s\<lparr>se_node := nd\<rparr>)"

text \<open>The spawned tasks: the loop, and once it has ended the bookkeeping, whatever its result.\<close>

definition inbound_task ::
  "('d, 'x) store_lib_scheme \<Rightarrow> (message list \<Rightarrow> message \<Rightarrow> bool) \<Rightarrow> (string \<Rightarrow> string option \<Rightarrow> string option)
     \<Rightarrow> string \<Rightarrow> 'd peer_event list \<Rightarrow> 'd session \<Rightarrow> 'd node" where
  "inbound_task X W wr addr evs s =
     (case handle_peer X W addr evs s of
        (None, s') \<Rightarrow> se_node s' | (Some _, s') \<Rightarrow> close_inbound wr addr (se_node s'))"

definition outbound_task ::
  "('d, 'x) store_lib_scheme \<Rightarrow> (message list \<Rightarrow> message \<Rightarrow> bool) \<Rightarrow> (string \<Rightarrow> string option \<Rightarrow> string option)
     \<Rightarrow> string \<Rightarrow> 'd peer_event list \<Rightarrow> 'd session \<Rightarrow> 'd node" where
  "outbound_task X W wr addr evs s =
     (case handle_peer X W addr evs s of
        (None, s') \<Rightarrow> se_node s' | (Some _, s') \<Rightarrow> close_outbound wr addr (se_node s'))"

text \<open>The events of one reader: its messages, then its error if there was one.\<close>

definition reader_events :: "u64 \<Rightarrow> nat \<Rightarrow> (string + message) list \<Rightarrow> 'd peer_event list" where
  "reader_events now inst rs =
     map (\<lambda>r. case r of Inl e \<Rightarrow> ReadError e | Inr m \<Rightarrow> Incoming now inst inst m) (reader_task rs)"

lemma reader_events_messages [simp]:
  "reader_events now inst (map Inr ms) = map (Incoming now inst inst) ms"
  by (induction ms) (simp_all add: reader_events_def)

section \<open>Runs of a session\<close>

lemma handle_peer_append:
  "handle_peer X W addr (evs @ evs') s =
     (case handle_peer X W addr evs s of
        (None, s') \<Rightarrow> handle_peer X W addr evs' s' | (Some e, s') \<Rightarrow> (Some e, s'))"
  by (induction X W addr evs s rule: handle_peer.induct) (auto split: prod.splits sum.splits)

text \<open>The blocks that arrive do not overflow the minted total or precede a stored child, and the
  other tasks leave a node that satisfies the invariant.\<close>

fun events_admissible ::
  "('d, 'x) store_lib_scheme \<Rightarrow> (message list \<Rightarrow> message \<Rightarrow> bool) \<Rightarrow> string \<Rightarrow> 'd peer_event list
     \<Rightarrow> 'd session \<Rightarrow> bool" where
  "events_admissible X W addr [] s = True"
| "events_admissible X W addr (ev # evs) s =
     ((case ev of
         Incoming now inst inst' (BlockMsg b) \<Rightarrow> block_admissible X now b (node_chain (se_node s))
       | OtherTask nd \<Rightarrow> node_ok X nd | _ \<Rightarrow> True)
      \<and> (case handle_peer X W addr [ev] s of
           (None, s') \<Rightarrow> events_admissible X W addr evs s' | (Some _, s') \<Rightarrow> True))"

lemma handle_relay_node [simp]: "se_node (snd (handle_relay W addr r s)) = se_node s"
  by (simp add: handle_relay_def)

lemma handle_peer_event_ok:
  assumes "node_ok X (se_node s)" "events_admissible X W addr [ev] s"
  shows "node_ok X (se_node (snd (handle_peer X W addr [ev] s)))"
proof (cases ev)
  case (Incoming now inst inst' msg)
  have "\<And>b. msg = BlockMsg b \<Longrightarrow> block_admissible X now b (node_chain (se_node s))"
    using assms(2) Incoming by simp
  then have "node_ok X (se_node (snd (handle_message X W now inst inst' addr msg s)))"
    by (rule handle_message_ok [OF assms(1)])
  with Incoming show ?thesis by (auto split: prod.splits sum.splits)
next
  case (Broadcast r)
  then show ?thesis using assms(1) handle_relay_node [of W addr r s]
    by (simp split: prod.splits sum.splits del: handle_relay_node) (metis snd_conv)
qed (use assms in simp_all)

lemma handle_peer_ok:
  "node_ok X (se_node s) \<Longrightarrow> events_admissible X W addr evs s \<Longrightarrow>
     node_ok X (se_node (snd (handle_peer X W addr evs s)))"
proof (induction evs arbitrary: s)
  case (Cons ev evs)
  obtain r s' where h: "handle_peer X W addr [ev] s = (r, s')" by fastforce
  have "node_ok X (se_node s')"
    using handle_peer_event_ok [OF Cons.prems(1), of W addr ev] Cons.prems(2) h by (simp split: option.splits)
  then show ?case
    using Cons.IH [of s'] Cons.prems(2) h handle_peer_append [of X W addr "[ev]" evs s]
    by (cases r) simp_all
qed simp

lemma tasks_ok:
  assumes "node_ok X (se_node s)" "events_admissible X W addr evs s"
  shows "node_ok X (inbound_task X W wr addr evs s)" "node_ok X (outbound_task X W wr addr evs s)"
  using handle_peer_ok [OF assms]
  by (auto simp: inbound_task_def outbound_task_def close_ok split: prod.splits option.splits)

section \<open>Limits of one peer\<close>

text \<open>A limiter that has seen at most \<open>n\<close> events of one peer.\<close>

definition seen :: "string \<Rightarrow> nat \<Rightarrow> rate_limiter \<Rightarrow> bool" where
  "seen p n rl \<longleftrightarrow> rl_ok rl \<and> fst ` set (windows rl) \<subseteq> {p} \<and> length (rl_entry p rl) \<le> n"

lemma seen_new: "seen p 0 (rate_limiter_new m w)"
  by (simp add: seen_def rate_limiter_new_def rl_ok_def rl_entry_def)

lemma seen_no_eviction: "seen p n rl \<Longrightarrow> rl_evict p rl = rl"
  by (rule no_eviction [of rl "{p}"]) (auto simp: seen_def MAX_TRACKED_PEERS_def)

lemma seen_check:
  assumes "seen p n rl" "n < max_per_window rl"
  shows "\<exists>rl'. rl_check now p rl = (True, rl') \<and> seen p (Suc n) rl' \<and> max_per_window rl' = max_per_window rl"
proof -
  let ?ts = "filter (\<lambda>s. now - s < window_duration rl) (rl_entry p rl)"
  obtain a rl' where c: "rl_check now p rl = (a, rl')" by fastforce
  note e = check_entry [OF seen_no_eviction [OF assms(1)] c refl]
  have len: "length ?ts \<le> n" using assms(1) length_filter_le order_trans unfolding seen_def by blast
  then have "a" using check_no_eviction(1) [OF seen_no_eviction [OF assms(1)] c refl] assms(2) by simp
  moreover have "rl_ok rl'" using rl_ok_check [of rl now p] assms(1) c by (simp add: seen_def)
  ultimately show ?thesis using e(1,3,4) c len assms(1) by (auto simp: seen_def)
qed

text \<open>All events at one instant.\<close>

lemma instant_check:
  assumes "seen p n rl" "rl_entry p rl = replicate k t" "0 < window_duration rl"
  shows "\<exists>rl'. rl_check t p rl = (k < max_per_window rl, rl') \<and> seen p (Suc n) rl'
    \<and> rl_entry p rl' = replicate (if k < max_per_window rl then Suc k else k) t
    \<and> max_per_window rl' = max_per_window rl \<and> window_duration rl' = window_duration rl"
proof -
  have ts: "filter (\<lambda>s. t - s < window_duration rl) (rl_entry p rl) = replicate k t" using assms(2,3) by simp
  obtain a rl' where c: "rl_check t p rl = (a, rl')" by fastforce
  note e = check_entry [OF seen_no_eviction [OF assms(1)] c refl, unfolded ts]
  have "a = (k < max_per_window rl)"
    using check_no_eviction(1) [OF seen_no_eviction [OF assms(1)] c refl] by (simp add: ts)
  moreover have "rl_ok rl'" using rl_ok_check [of rl t p] assms(1) c by (simp add: seen_def)
  moreover have "replicate k t @ [t] = replicate (Suc k) t" by (simp add: replicate_append_same)
  ultimately show ?thesis using e c assms(1,2) by (auto simp: seen_def)
qed

section \<open>Blocks that arrive in order\<close>

definition limits_seen :: "string \<Rightarrow> nat \<Rightarrow> 'd node \<Rightarrow> bool" where
  "limits_seen p n nd \<longleftrightarrow> seen p n (rl_messages (rate_limiters nd)) \<and> max_per_window (rl_messages (rate_limiters nd)) = 100"

definition blocks_seen :: "string \<Rightarrow> nat \<Rightarrow> nat \<Rightarrow> 'd node \<Rightarrow> bool" where
  "blocks_seen p t k nd \<longleftrightarrow> seen p k (rl_blocks (rate_limiters nd))
     \<and> rl_entry p (rl_blocks (rate_limiters nd)) = replicate k t
     \<and> max_per_window (rl_blocks (rate_limiters nd)) = 10 \<and> 0 < window_duration (rl_blocks (rate_limiters nd))"

lemma limits_seen_new: "rate_limiters nd = node_rate_limiter_new \<Longrightarrow> limits_seen p 0 nd"
  by (simp add: limits_seen_def node_rate_limiter_new_def seen_new) (simp add: rate_limiter_new_def)

lemma blocks_seen_new: "rate_limiters nd = node_rate_limiter_new \<Longrightarrow> blocks_seen p t 0 nd"
  by (simp add: blocks_seen_def node_rate_limiter_new_def seen_new)
    (simp add: rate_limiter_new_def rl_entry_def from_secs_def)

text \<open>A message that is not a block, within the limit: the general limiter counts it.\<close>

lemma message_counted:
  assumes "limits_seen p n (se_node s)" "n < 100"
  obtains rl where "rl_check inst p (rl_messages (rate_limiters (se_node s))) = (True, rl)"
    "seen p (Suc n) rl" "max_per_window rl = 100"
  using seen_check [of p n "rl_messages (rate_limiters (se_node s))" inst] assms by (auto simp: limits_seen_def)

lemma block_event:
  assumes lim: "limits_seen p n (se_node s)" "n < 100" "blocks_seen p inst k (se_node s)"
    and c: "add_block X now b (node_chain (se_node s)) = (Inr (), c')"
  shows "10 \<le> k \<Longrightarrow> \<exists>s'. handle_message X W now inst inst p (BlockMsg b) s = (Inl BlockRateLimit, s')
      \<and> node_chain (se_node s') = node_chain (se_node s)"
    and "k < 10 \<Longrightarrow> \<exists>s'. handle_message X W now inst inst p (BlockMsg b) s = (Inr (), s')
      \<and> node_chain (se_node s') = c' \<and> limits_seen p (Suc n) (se_node s') \<and> blocks_seen p inst (Suc k) (se_node s')"
proof -
  obtain rl where rl: "rl_check inst p (rl_messages (rate_limiters (se_node s))) = (True, rl)"
    "seen p (Suc n) rl" "max_per_window rl = 100"
    by (rule message_counted [OF lim(1,2)])
  have "\<exists>rb. rl_check inst p (rl_blocks (rate_limiters (se_node s))) = (k < 10, rb) \<and> seen p (Suc k) rb
    \<and> rl_entry p rb = replicate (if k < 10 then Suc k else k) inst \<and> max_per_window rb = 10
    \<and> window_duration rb = window_duration (rl_blocks (rate_limiters (se_node s)))"
    using instant_check [of p k "rl_blocks (rate_limiters (se_node s))" k inst] lim(3) by (simp add: blocks_seen_def)
  then obtain rb where rb: "rl_check inst p (rl_blocks (rate_limiters (se_node s))) = (k < 10, rb)" "seen p (Suc k) rb"
    "rl_entry p rb = replicate (if k < 10 then Suc k else k) inst" "max_per_window rb = 10"
    "window_duration rb = window_duration (rl_blocks (rate_limiters (se_node s)))"
    by blast
  show "10 \<le> k \<Longrightarrow> \<exists>s'. handle_message X W now inst inst p (BlockMsg b) s = (Inl BlockRateLimit, s')
      \<and> node_chain (se_node s') = node_chain (se_node s)"
    by (simp add: handle_message_def on_block_def rl(1) rb(1) Let_def)
  show "k < 10 \<Longrightarrow> \<exists>s'. handle_message X W now inst inst p (BlockMsg b) s = (Inr (), s')
      \<and> node_chain (se_node s') = c' \<and> limits_seen p (Suc n) (se_node s') \<and> blocks_seen p inst (Suc k) (se_node s')"
    using lim(3) by (simp add: handle_message_def on_block_def rl rb Let_def c relay_def limits_seen_def blocks_seen_def)
qed

text \<open>The blocks that follow those of a node, sent by a peer that has them all: up to ten are added,
  the eleventh ends the session.\<close>

lemma blocks_arrive:
  assumes "chain_ok X c0" "fully_checked X magic (blocks c0)" "\<forall>b \<in> set (blocks c0). timestamp (header b) \<le> now + 7200"
    and "blocks c0 = bs @ new @ rest" "bs \<noteq> []" "holds_blocks X magic (blocks c0) bs (node_chain (se_node s))"
    and "limits_seen p n (se_node s)" "n + 10 - k < 100" "blocks_seen p inst k (se_node s)" "k \<le> 10"
  shows "\<exists>s'. handle_peer X W p (map (Incoming now inst inst) (map BlockMsg new)) s =
      (if k + length new \<le> 10 then None else Some (PeerError BlockRateLimit), s')
    \<and> blocks (node_chain (se_node s')) = bs @ take (10 - k) new"
  using assms(4-10)
proof (induction new arbitrary: bs s n k)
  case Nil
  then show ?case by (simp add: holds_blocks_def)
next
  case (Cons b new)
  have split: "blocks c0 = bs @ b # (new @ rest)" using Cons.prems(1) by simp
  have "checked_block X magic (take (length bs) (blocks c0)) (blocks c0 ! length bs)"
    using assms(2) Cons.prems(2) unfolding fully_checked_def by (elim allE [of _ "length bs"]) (simp add: split)
  then have chk: "checked_block X magic bs b" by (simp add: split)
  have ts: "timestamp (header b) \<le> now + 7200" using assms(3) by (simp add: split)
  obtain c' where c': "add_block X now b (node_chain (se_node s)) = (Inr (), c')"
    "holds_blocks X magic (blocks c0) (bs @ [b]) c'"
    by (rule extend_holds [OF assms(1) split Cons.prems(2) chk ts Cons.prems(3)])
  have n: "n < 100" using Cons.prems(5,7) by simp
  note ev = block_event [OF Cons.prems(4) n Cons.prems(6) c'(1), of W]
  show ?case
  proof (cases "k < 10")
    case False
    then obtain s' where "handle_message X W now inst inst p (BlockMsg b) s = (Inl BlockRateLimit, s')"
      "node_chain (se_node s') = node_chain (se_node s)"
      using ev(1) by auto
    with False Cons.prems(3,7) show ?thesis by (simp add: holds_blocks_def)
  next
    case True
    then obtain s' where s': "handle_message X W now inst inst p (BlockMsg b) s = (Inr (), s')"
      "node_chain (se_node s') = c'" "limits_seen p (Suc n) (se_node s')" "blocks_seen p inst (Suc k) (se_node s')"
      using ev(2) by auto
    have "Suc n + 10 - Suc k < 100" "Suc k \<le> 10" using Cons.prems(5) True by simp_all
    from Cons.IH [of "bs @ [b]" s' "Suc n" "Suc k", OF _ _ _ s'(3) this(1) s'(4) this(2)] c'(2) split s'(2)
    obtain s'' where "handle_peer X W p (map (Incoming now inst inst) (map BlockMsg new)) s' =
        (if Suc k + length new \<le> 10 then None else Some (PeerError BlockRateLimit), s'')"
      "blocks (node_chain (se_node s'')) = (bs @ [b]) @ take (10 - Suc k) new"
      by auto
    moreover have "take (10 - k) (b # new) = b # take (10 - Suc k) new" using True by (simp add: take_Cons')
    ultimately show ?thesis using s'(1) by simp
  qed
qed

section \<open>A round of synchronisation\<close>

text \<open>One round between two nodes, over a connection that loses nothing: the node behind receives
  the version message, and each side answers what the other sent.\<close>

definition answers ::
  "('d, 'x) store_lib_scheme \<Rightarrow> u64 \<Rightarrow> nat \<Rightarrow> string \<Rightarrow> message list \<Rightarrow> 'd node \<Rightarrow> session_end option \<times> 'd session" where
  "answers X now inst addr msgs nd =
     handle_peer X (\<lambda>_ _. True) addr (reader_events now inst (map Inr msgs)) \<lparr>se_node = nd, se_sent = []\<rparr>"

definition sync_round ::
  "('d, 'x) store_lib_scheme \<Rightarrow> u64 \<Rightarrow> (nat \<Rightarrow> nat) \<Rightarrow> string \<Rightarrow> string \<Rightarrow> 'd node \<Rightarrow> 'd node
     \<Rightarrow> session_end option \<times> 'd session" where
  "sync_round X now inst a b na nb =
     (let s1 = snd (answers X now (inst 0) a [version_message na ''arkos/0.1''] nb);
          s2 = snd (answers X now (inst 1) b (se_sent s1) na);
          s3 = snd (answers X now (inst 2) a (se_sent s2) (se_node s1));
          s4 = snd (answers X now (inst 3) b (se_sent s3) (se_node s2))
      in answers X now (inst 4) a (se_sent s4) (se_node s3))"

lemma answers_eq:
  "answers X now inst addr msgs nd =
     handle_peer X (\<lambda>_ _. True) addr (map (Incoming now inst inst) msgs) \<lparr>se_node = nd, se_sent = []\<rparr>"
  by (simp only: answers_def reader_events_messages)

lemma version_answer:
  assumes "limits_seen p n nd" "n < 100" "node_magic nd = node_magic na"
    and "chain_height (node_chain nd) < chain_height (node_chain na)" "block_locator X (node_chain nd) = Some loc"
  shows "\<exists>s. answers X now inst p [version_message na ''arkos/0.1''] nd = (None, s)
    \<and> se_sent s = [Verack, GetHeaders loc] \<and> node_chain (se_node s) = node_chain nd \<and> limits_seen p (Suc n) (se_node s)
    \<and> rl_blocks (rate_limiters (se_node s)) = rl_blocks (rate_limiters nd)"
proof -
  obtain rl where rl: "rl_check inst p (rl_messages (rate_limiters nd)) = (True, rl)"
    "seen p (Suc n) rl" "max_per_window rl = 100"
    using message_counted [of p n "\<lparr>se_node = nd, se_sent = []\<rparr>"] assms(1,2) by auto
  then show ?thesis
    using assms(3-5)
    by (simp add: answers_def reader_events_def handle_message_def version_message_def on_version_def send_def
        MAX_USER_AGENT_LEN_def Let_def limits_seen_def)
qed

lemma headers_answer:
  assumes "limits_seen p n nd" "Suc n < 100" "drop (locator_start (node_chain nd) loc) (blocks (node_chain nd)) = new" "new \<noteq> []"
  shows "\<exists>s. answers X now inst p [Verack, GetHeaders loc] nd = (None, s)
    \<and> se_sent s = [Headers (map header (take 2000 new))] \<and> node_chain (se_node s) = node_chain nd
    \<and> limits_seen p (Suc (Suc n)) (se_node s)"
proof -
  obtain rl where rl: "rl_check inst p (rl_messages (rate_limiters nd)) = (True, rl)"
    "seen p (Suc n) rl" "max_per_window rl = 100"
    using message_counted [of p n "\<lparr>se_node = nd, se_sent = []\<rparr>"] assms(1,2) by auto
  then obtain rl' where rl': "rl_check inst p rl = (True, rl')" "seen p (Suc (Suc n)) rl'" "max_per_window rl' = 100"
    using seen_check [of p "Suc n" rl inst] assms(2) by auto
  moreover have "locator_start (node_chain nd) loc < length (blocks (node_chain nd))" using assms(3,4) by auto
  ultimately show ?thesis
    using assms(3) rl
    by (simp add: answers_def reader_events_def handle_message_def on_get_headers_def send_def
        MAX_HEADERS_PER_RESPONSE_def Let_def limits_seen_def)
qed

lemma send_all_True: "send_all (\<lambda>_ _. True) ms s = (Inr (), s\<lparr>se_sent := se_sent s @ ms\<rparr>)"
  by (induction ms arbitrary: s) (simp_all add: send_def)

lemma getdata_answer:
  assumes "limits_seen p n nd" "n < 100" "headers_loop X (node_chain nd) None hs = items"
  shows "\<exists>s. answers X now inst p [Headers hs] nd = (None, s)
    \<and> se_sent s = map GetData (chunks 50 items) \<and> node_chain (se_node s) = node_chain nd
    \<and> limits_seen p (Suc n) (se_node s) \<and> rl_blocks (rate_limiters (se_node s)) = rl_blocks (rate_limiters nd)"
proof -
  obtain rl where rl: "rl_check inst p (rl_messages (rate_limiters nd)) = (True, rl)"
    "seen p (Suc n) rl" "max_per_window rl = 100"
    using message_counted [of p n "\<lparr>se_node = nd, se_sent = []\<rparr>"] assms(1,2) by auto
  then show ?thesis
    using assms(3)
    by (simp add: answers_def reader_events_def handle_message_def on_headers_def send_all_True
        MAX_GETDATA_INFLIGHT_def Let_def limits_seen_def)
qed

lemma getdata_loop:
  assumes "limits_seen p n (se_node s)" "n + length chs \<le> 100"
    and "\<forall>ch \<in> set chs. \<forall>item \<in> set ch. response (node_chain (se_node s)) item = Some (f item)"
  shows "\<exists>s'. handle_peer X (\<lambda>_ _. True) p (map (Incoming now inst inst) (map GetData chs)) s = (None, s')
    \<and> se_sent s' = se_sent s @ map f (concat chs)"
  using assms
proof (induction chs arbitrary: s n)
  case (Cons ch chs)
  have n: "n < 100" using Cons.prems(2) by simp
  obtain rl where rl: "rl_check inst p (rl_messages (rate_limiters (se_node s))) = (True, rl)"
    "seen p (Suc n) rl" "max_per_window rl = 100"
    by (rule message_counted [OF Cons.prems(1) n])
  have "List.map_filter (response (node_chain (se_node s))) ch = map f ch"
    using Cons.prems(3) by (induction ch) (simp_all add: List.map_filter_simps)
  then obtain s1 where s1: "handle_message X (\<lambda>_ _. True) now inst inst p (GetData ch) s = (Inr (), s1)"
    "se_sent s1 = se_sent s @ map f ch" "node_chain (se_node s1) = node_chain (se_node s)" "limits_seen p (Suc n) (se_node s1)"
    using rl by (simp add: handle_message_def on_get_data_def send_all_True Let_def limits_seen_def)
  from Cons.IH [OF s1(4)] Cons.prems(2,3) s1(1-3) show ?case by simp
qed simp

lemma count_chunks: "0 < n \<Longrightarrow> length (chunks n xs) * n < length xs + n"
proof (induction n xs rule: chunks.induct)
  case (1 n xs)
  show ?case
  proof (cases "xs = []")
    case False
    then have "length (chunks n (drop n xs)) * n < length (drop n xs) + n" using 1 by simp
    moreover have "chunks n xs = take n xs # chunks n (drop n xs)" using False 1(2) by (subst chunks.simps) simp
    moreover have "length xs = length (drop n xs) + min n (length xs)" by simp
    moreover have "drop n xs \<noteq> [] \<or> chunks n (drop n xs) = []" by (auto simp: chunks.simps [of n "[]"])
    ultimately show ?thesis using False by (cases "length xs \<le> n") (auto simp: chunks.simps [of n "[]"])
  qed (use 1(2) in \<open>simp add: chunks.simps\<close>)
qed

lemma prefix_locator:
  assumes "chain_ok X ca" "chain_ok X cb" "blocks ca = blocks cb @ new"
  shows "\<exists>loc. block_locator X cb = Some loc \<and> drop (locator_start ca loc) (blocks ca) = new"
proof -
  obtain "is" where is': "block_locator X cb = Some (hashes_at X (blocks cb) is)" "is \<noteq> []"
    "hd is = length (blocks cb) - 1"
    using block_locator_some [OF assms(2)] by blast
  have ne: "blocks cb \<noteq> []" using assms(2) by (simp add: chain_ok_def active_ok_def)
  then have l: "length (blocks cb) - 1 < length (blocks cb)" by simp
  have idx: "hm_get (block_index ca) h = Some i \<longleftrightarrow> i < length (blocks ca) \<and> hash_hex X (blocks ca ! i) = h" for h i
    using assms(1) by (simp add: chain_ok_def active_ok_def index_ok_def)
  have "hm_get (block_index ca) (hash_hex X (blocks cb ! (length (blocks cb) - 1))) = Some (length (blocks cb) - 1)"
    unfolding idx assms(3) nth_append using l by (simp add: trans_less_add1)
  then have "find_height (block_index ca) (hashes_at X (blocks cb) is) = Some (length (blocks cb) - 1)"
    using is'(2,3) by (cases "is") (auto simp: hashes_at_def)
  then have "locator_start ca (hashes_at X (blocks cb) is) = length (blocks cb)" using ne by (simp add: locator_start_def)
  with is'(1) assms(3) show ?thesis by auto
qed

lemma missing_requested:
  assumes ok: "chain_ok X ca" "fully_checked X magic (blocks ca)" and ca: "blocks ca = bs @ new @ rest" "bs \<noteq> []"
    and cb: "holds_blocks X magic (blocks ca) bs cb"
  shows "headers_loop X cb None (map header new) = map (\<lambda>b. block_item (hash_hex X b)) new"
proof -
  have act: "stored X (all_blocks ca) (bs @ new @ rest)" "numbered (bs @ new @ rest)" "linked X (bs @ new @ rest)"
    using ok(1) ca(1) by (auto simp: chain_ok_def active_ok_def)
  have cs: "chain_ok X cb" "blocks cb = bs" "\<And>h b. hm_get (all_blocks cb) h = Some b \<Longrightarrow> b \<in> set bs"
    using cb by (auto simp: holds_blocks_def)
  have un: "block_by_hash cb (hash_hex X b) = None" if b: "b \<in> set new" for b
  proof -
    obtain xs ys where s: "new = xs @ b # ys" using b by (auto simp: in_set_conv_decomp)
    have "\<forall>b' \<in> set bs. hash_hex X b' \<noteq> hash_hex X b"
      using distinct_hashes [of X "all_blocks ca" "bs @ xs" b "ys @ rest"] act(1,2) by (auto simp: s)
    moreover have "\<And>h b'. hm_get (all_blocks cb) h = Some b' \<Longrightarrow> hash_hex X b' = h"
      using cs(1) by (auto simp: chain_ok_def dest: all_okD)
    ultimately show ?thesis unfolding block_by_hash_def by (metis cs(3) not_Some_eq)
  qed
  have "linked X (take (length new) (drop (length bs) (bs @ new @ rest)))" using act(3) linked_drop linked_take by blast
  then have lk: "linked X new" by simp
  have mt: "list_all (\<lambda>b. meets_target X (header b)) new"
    unfolding list_all_length
  proof (intro allI impI)
    fix i assume i: "i < length new"
    then have "checked_block X magic (take (length bs + i) (blocks ca)) (blocks ca ! (length bs + i))"
      using ok(2) ca unfolding fully_checked_def by (elim allE [of _ "length bs + i"]) simp
    then show "meets_target X (header (new ! i))"
      using i by (auto simp: ca(1) nth_append checked_block_def block_validate_def split: if_splits)
  qed
  have "attaches X cb None new"
  proof (cases new)
    case (Cons b new')
    have "linked X (bs @ [b])" using prefix_shape(2) [of X "bs @ [b]" "new' @ rest"] act(3) Cons by simp
    then have "prev_hash (header b) = hash_hex X (last bs)" using ca(2) by (simp add: linked_append1)
    moreover have "hm_get (all_blocks cb) (hash_hex X (last bs)) = Some (last bs)"
      using cs(1,2) ca(2) by (auto simp: chain_ok_def active_ok_def stored_def list_all_iff)
    ultimately show ?thesis by (simp add: attaches_def Cons block_by_hash_def)
  qed (simp add: attaches_def)
  from headers_loop_linked [OF lk mt this] un show ?thesis by simp
qed

text \<open>The requested blocks are sent, in their order.\<close>

lemma requests_answered:
  assumes ok: "chain_ok X (node_chain na)" and ca: "set r \<subseteq> set (blocks (node_chain na))" "length r \<le> 2000"
    and na': "node_chain na' = node_chain na" "limits_seen b (Suc (Suc 0)) na'"
  obtains s where
    "answers X now inst b (map GetData (chunks 50 (map (\<lambda>b. block_item (hash_hex X b)) r))) na' = (None, s)"
    "se_sent s = map BlockMsg r"
proof -
  let ?ca = "node_chain na" and ?items = "map (\<lambda>b. block_item (hash_hex X b)) r"
  have "length (chunks 50 ?items) * 50 < 2050" using count_chunks [of 50 ?items] ca(2) by simp
  then have few: "Suc (Suc 0) + length (chunks 50 ?items) \<le> 100" by simp
  define f where "f = (\<lambda>item :: inv_item. BlockMsg (the (block_by_hash ?ca (inv_hash item))))"
  have st: "block_by_hash ?ca (hash_hex X b) = Some b" if "b \<in> set r" for b
    using ok that ca(1) by (auto simp: block_by_hash_def chain_ok_def active_ok_def stored_def list_all_iff)
  have cc: "concat (chunks 50 ?items) = ?items" by (simp add: chunks_concat)
  have item: "response ?ca item = Some (f item)" if "item \<in> set ?items" for item
    using that st by (auto simp: response_def f_def block_item_def)
  have resp: "\<forall>ch \<in> set (chunks 50 ?items). \<forall>item \<in> set ch. response ?ca item = Some (f item)"
    using item cc by (metis UN_I set_concat)
  have fi: "map f ?items = map BlockMsg r" using st by (auto simp: f_def block_item_def)
  have "\<exists>s. handle_peer X (\<lambda>_ _. True) b (map (Incoming now inst inst) (map GetData (chunks 50 ?items)))
      \<lparr>se_node = na', se_sent = []\<rparr> = (None, s)
    \<and> se_sent s = se_sent \<lparr>se_node = na', se_sent = []\<rparr> @ map f (concat (chunks 50 ?items))"
    using na' resp by (intro getdata_loop [OF _ few]) simp_all
  then show thesis using that unfolding answers_eq cc fi by fastforce
qed

lemma sync_round_result:
  assumes ok: "chain_ok X (node_chain na)" "fully_checked X magic (blocks (node_chain na))"
    and ca: "blocks (node_chain na) = bs @ new" "bs \<noteq> []" "new \<noteq> []"
    and cb: "holds_blocks X magic (blocks (node_chain na)) bs (node_chain nb)"
    and net: "node_magic nb = node_magic na" "rate_limiters na = node_rate_limiter_new" "rate_limiters nb = node_rate_limiter_new"
    and ts: "\<forall>b \<in> set (blocks (node_chain na)). timestamp (header b) \<le> now + 7200"
  shows "\<exists>s. sync_round X now inst a b na nb = (if length new \<le> 10 then None else Some (PeerError BlockRateLimit), s)
    \<and> blocks (node_chain (se_node s)) = bs @ take 10 new"
proof -
  let ?ca = "node_chain na" and ?cb = "node_chain nb" and ?r = "take 2000 new"
  have cs: "chain_ok X ?cb" "blocks ?cb = bs" using cb by (auto simp: holds_blocks_def)
  have "unat (chain_height ?cb) < unat (chain_height ?ca)"
    using chain_ok_tip(2) [OF cs(1)] chain_ok_tip(2) [OF ok(1)] ca cs(2) by (cases bs) (simp_all add: chain_height_def)
  then have h: "chain_height ?cb < chain_height ?ca" by (simp add: word_less_nat_alt)
  obtain loc where loc: "block_locator X ?cb = Some loc" "drop (locator_start ?ca loc) (blocks ?ca) = new"
    using prefix_locator [OF ok(1) cs(1), of new] ca(1) cs(2) by auto
  have z: "(0 :: nat) < 100" "Suc 0 < 100" by simp_all
  obtain s1 where s1: "answers X now (inst 0) a [version_message na ''arkos/0.1''] nb = (None, s1)"
    "se_sent s1 = [Verack, GetHeaders loc]" "node_chain (se_node s1) = ?cb" "limits_seen a (Suc 0) (se_node s1)"
    "rl_blocks (rate_limiters (se_node s1)) = rl_blocks (rate_limiters nb)"
    using version_answer [OF limits_seen_new [OF net(3)] z(1) net(1) h loc(1)] by blast
  obtain s2 where s2: "answers X now (inst 1) b [Verack, GetHeaders loc] na = (None, s2)"
    "se_sent s2 = [Headers (map header ?r)]" "node_chain (se_node s2) = ?ca" "limits_seen b (Suc (Suc 0)) (se_node s2)"
    using headers_answer [OF limits_seen_new [OF net(2)] z(2) loc(2) ca(3)] by blast
  let ?items = "map (\<lambda>b. block_item (hash_hex X b)) ?r"
  have ca': "blocks ?ca = bs @ ?r @ drop 2000 new" by (simp add: ca(1))
  have hl: "headers_loop X (node_chain (se_node s1)) None (map header ?r) = ?items"
    using missing_requested [OF ok ca' ca(2) cb] by (simp add: s1(3))
  obtain s3 where s3: "answers X now (inst 2) a [Headers (map header ?r)] (se_node s1) = (None, s3)"
    "se_sent s3 = map GetData (chunks 50 ?items)" "node_chain (se_node s3) = ?cb"
    "limits_seen a (Suc (Suc 0)) (se_node s3)" "rl_blocks (rate_limiters (se_node s3)) = rl_blocks (rate_limiters nb)"
    using getdata_answer [OF s1(4) z(2) hl] s1(3,5) by auto
  have "set ?r \<subseteq> set (blocks ?ca)" by (auto simp: ca(1) dest: in_set_takeD)
  then obtain s4 where s4: "answers X now (inst 3) b (map GetData (chunks 50 ?items)) (se_node s2) = (None, s4)"
    "se_sent s4 = map BlockMsg ?r"
    using requests_answered [OF ok(1) _ _ s2(3,4), of ?r now "inst 3"] by auto
  have bsn: "blocks_seen a (inst 4) 0 (se_node s3)"
    using blocks_seen_new [OF net(3), of a "inst 4"] s3(5) by (simp add: blocks_seen_def)
  have "\<exists>s'. handle_peer X (\<lambda>_ _. True) a (map (Incoming now (inst 4) (inst 4)) (map BlockMsg ?r)) \<lparr>se_node = se_node s3, se_sent = []\<rparr> =
      (if 0 + length ?r \<le> 10 then None else Some (PeerError BlockRateLimit), s')
    \<and> blocks (node_chain (se_node s')) = bs @ take (10 - 0) ?r"
    using s3(3,4) cb bsn by (intro blocks_arrive [OF ok ts ca' ca(2), where n = "Suc (Suc 0)"]) simp_all
  then obtain s5 where "answers X now (inst 4) a (map BlockMsg ?r) (se_node s3) =
      (if length new \<le> 10 then None else Some (PeerError BlockRateLimit), s5)"
    "blocks (node_chain (se_node s5)) = bs @ take 10 new"
    unfolding answers_eq by (auto simp: min_def split: if_splits)
  moreover have "sync_round X now inst a b na nb = answers X now (inst 4) a (map BlockMsg ?r) (se_node s3)"
    by (simp only: sync_round_def Let_def s1(1,2) s2(1,2) s3(1,2) s4 snd_conv)
  ultimately show ?thesis by simp
qed



end
