(* ===== verification/Cli.thy ===== *)
theory Cli
  imports Node Rpc Discovery Vault Access Wallet Reopen
begin

text \<open>
  The command line (\<open>src/main.rs\<close>): each subcommand with the files and the block store it changes.
  Printed text is reduced to a report of the values it shows. Prompts, the clock, random bytes,
  the outcome of operations on files and the database handed out by RocksDB are arguments;
  \<open>None\<close> is a panic, or mining that does not end. The library records are those of the layers:
  \<open>A\<close> for tokens, \<open>J\<close> for their files, \<open>V\<close> for the vault, \<open>W\<close> for wallets, \<open>X\<close> for the chain.
\<close>

section \<open>Environment\<close>

record cli_env =
  env_home :: "string option"
  env_prompt :: "nat \<Rightarrow> string option"
  env_mkdir :: "nat \<Rightarrow> bool"
  env_write :: "nat \<Rightarrow> write_outcome"
  env_chmod :: bool
  env_umode :: nat
  env_now :: "nat \<Rightarrow> u64"
  env_rand :: "nat \<Rightarrow> bytes"

datatype cli_err =
    CliIo
  | PromptFailed
  | PassphraseMismatch
  | UnknownNetwork string
  | CliVault vault_err
  | CliFile file_err
  | MasterHex
  | MasterLength
  | WalletNotFound string
  | WalletExists string
  | CliWallet wallet_err
  | VaultNotFound string
  | CliChain chain_err
  | CliSubmit submit_err

datatype token_status = REVOKED | EXPIRED | ACTIVE | ACTIVE_NO_EXPIRY

datatype report =
    VaultAlreadyExists string
  | Initialized string string
  | Granted access_token string
  | Revoked string
  | NoTokens
  | Tokens "(access_token \<times> token_status) list"
  | Verified "access_err + access_token"
  | WalletCreated string string string
  | Phrase string
  | WalletRestored string string
  | Wallets "(string \<times> string) list"
  | BackedUp string
  | MinedBlock string u64 u64 nat u64
  | BalanceOf u64
  | Sent string u64
  | ChainInfo u64 string u32 nat

text \<open>A step of a command: \<open>?\<close> on a result, with the state it leaves.\<close>

definition bind_cmd ::
  "('s, 'e, 'a) st_result option \<Rightarrow> ('a \<Rightarrow> 's \<Rightarrow> ('s, 'e, 'b) st_result option) \<Rightarrow> ('s, 'e, 'b) st_result option" where
  "bind_cmd m k =
     (case m of None \<Rightarrow> None | Some (Inl e, s) \<Rightarrow> Some (Inl e, s) | Some (Inr a, s) \<Rightarrow> k a s)"

definition lift_err :: "('e \<Rightarrow> 'f) \<Rightarrow> ('s, 'e, 'a) st_result \<Rightarrow> ('s, 'f, 'a) st_result option" where
  "lift_err f m = Some (map_err f (fst m), snd m)"

lemma bind_cmd_Inr [simp]:
  "bind_cmd m k = Some (Inr b, s') \<longleftrightarrow> (\<exists>a s. m = Some (Inr a, s) \<and> k a s = Some (Inr b, s'))"
  by (auto simp: bind_cmd_def split: option.splits prod.splits sum.splits)

lemma lift_err_Inr [simp]: "lift_err f m = Some (Inr a, s) \<longleftrightarrow> m = (Inr a, s)"
  by (cases m; cases "fst m") (auto simp: lift_err_def)

definition expand_datadir :: "cli_env \<Rightarrow> string \<Rightarrow> string" where
  "expand_datadir env s =
     (case (strip_prefix ''~/'' s, env_home env) of
        (Some stripped, Some home) \<Rightarrow> path_join home stripped
      | _ \<Rightarrow> s)"

definition prompt_passphrase :: "cli_env \<Rightarrow> bool \<Rightarrow> cli_err + string" where
  "prompt_passphrase env confirm =
     try_res (ok_or PromptFailed (env_prompt env 0)) (\<lambda>pass.
     if \<not> confirm then Inr pass
     else
       try_res (ok_or PromptFailed (env_prompt env 1)) (\<lambda>pass2.
       if pass \<noteq> pass2 then Inl PassphraseMismatch else Inr pass))"

definition cli_network_magic :: "string \<Rightarrow> cli_err + u32" where
  "cli_network_magic name =
     (if name = ''mainnet'' then Inr MAINNET_MAGIC
      else if name = ''testnet'' then Inr TESTNET_MAGIC
      else if name = ''regtest'' then Inr REGTEST_MAGIC
      else Inl (UnknownNetwork name))"

abbreviation vault_enc :: "string \<Rightarrow> string" where "vault_enc datadir \<equiv> path_join datadir ''vault.enc''"
abbreviation master_pub :: "string \<Rightarrow> string" where "master_pub datadir \<equiv> path_join datadir ''master.pub''"
abbreviation revoked_json :: "string \<Rightarrow> string" where "revoked_json datadir \<equiv> path_join datadir ''revoked.json''"

definition token_path :: "string \<Rightarrow> string \<Rightarrow> string" where
  "token_path datadir name = path_join (path_join datadir ''tokens'') (name @ ''.token'')"

text \<open>\<open>create_vault\<close> and \<open>open_vault\<close> as the commands call them: the clock, salt and nonce are
  readings number \<open>k\<close> and on.\<close>

definition store_vault ::
  "'h vault_lib \<Rightarrow> cli_env \<Rightarrow> nat \<Rightarrow> string \<Rightarrow> string list \<Rightarrow> string list \<Rightarrow> string \<Rightarrow> files
     \<Rightarrow> (files, cli_err, unit) st_result option" where
  "store_vault V env k passphrase keys labs path fs =
     Option.bind (create_vault V (env_now env 0) (env_rand env k) (env_rand env (k + 1)) (env_write env 0)
                    (env_chmod env) (env_umode env) passphrase keys labs path fs) (lift_err CliVault)"

definition read_vault ::
  "'h vault_lib \<Rightarrow> string \<Rightarrow> string \<Rightarrow> files \<Rightarrow> (files, cli_err, vault_contents) st_result option" where
  "read_vault V passphrase path fs =
     map_option (\<lambda>r. (map_err CliVault r, fs)) (open_vault V passphrase path fs)"

section \<open>Tokens\<close>

text \<open>\<open>init\<close> after the prompt: vault, public key and the token of the owner.\<close>

definition init_store ::
  "'a access_lib_scheme \<Rightarrow> access_codec \<Rightarrow> 'h vault_lib \<Rightarrow> 'w sig_lib_scheme \<Rightarrow> cli_env \<Rightarrow> string \<Rightarrow> string \<Rightarrow> files
     \<Rightarrow> (files, cli_err, report) st_result option" where
  "init_store A J V W env datadir passphrase fs =
     (let master = master_key_generate A (env_rand env 0);
          w = wallet_new W (env_rand env 1) (env_rand env 2);
          admin_token = issue_token A (env_now env 1) master ''owner'' (master_public_hex A master) [PermAdmin] 0
      in
      bind_cmd (store_vault V env 3 passphrase [master_secret_hex A master, wallet_secret_key_hex W w]
                  [''master-key'', ''default-wallet''] (vault_enc datadir) fs) (\<lambda>_ fs.
      bind_cmd (lift_err CliFile (save_public_key A (env_write env 1) (env_umode env) (master_pub datadir) master fs)) (\<lambda>_ fs.
      if \<not> env_mkdir env 1 then Some (Inl CliIo, fs)
      else
        bind_cmd (lift_err CliFile (token_save J (env_write env 2) (env_umode env) (token_path datadir ''owner'')
                                      admin_token fs)) (\<lambda>_ fs.
        Some (Inr (Initialized (master_public_hex A master) (wallet_address W w)), fs)))))"

definition cmd_init ::
  "'a access_lib_scheme \<Rightarrow> access_codec \<Rightarrow> 'h vault_lib \<Rightarrow> 'w sig_lib_scheme \<Rightarrow> cli_env \<Rightarrow> string \<Rightarrow> files
     \<Rightarrow> (files, cli_err, report) st_result option" where
  "cmd_init A J V W env datadir fs =
     (if \<not> env_mkdir env 0 then Some (Inl CliIo, fs)
      else if fs (vault_enc datadir) \<noteq> None then Some (Inr (VaultAlreadyExists (vault_enc datadir)), fs)
      else bind_cmd (Some (prompt_passphrase env True, fs)) (init_store A J V W env datadir))"

definition parse_permission :: "string \<Rightarrow> permission" where
  "parse_permission p =
     (if p = ''connect'' then PermConnect else if p = ''mine'' then PermMine
      else if p = ''transact'' then PermTransact else if p = ''read'' then PermReadChain
      else if p = ''admin'' then PermAdmin else PermReadChain)"

definition cmd_grant ::
  "'a access_lib_scheme \<Rightarrow> access_codec \<Rightarrow> 'h vault_lib \<Rightarrow> cli_env \<Rightarrow> string \<Rightarrow> string \<Rightarrow> string list \<Rightarrow> u64 \<Rightarrow> files
     \<Rightarrow> (files, cli_err, report) st_result option" where
  "cmd_grant A J V env datadir name perms expires_days fs =
     bind_cmd (Some (prompt_passphrase env False, fs)) (\<lambda>passphrase fs.
     bind_cmd (read_vault V passphrase (vault_enc datadir) fs) (\<lambda>contents fs.
     case secret_keys contents of
       [] \<Rightarrow> None
     | k # _ \<Rightarrow>
         bind_cmd (Some (ok_or MasterHex (lib_hex_decode A k), fs)) (\<lambda>master_secret fs.
         if length master_secret \<noteq> 32 then Some (Inl MasterLength, fs)
         else
           let master = master_key_from_secret_bytes A master_secret;
               holder_key = master_key_generate A (env_rand env 0);
               token = issue_token A (env_now env 0) master name (master_public_hex A holder_key)
                         (map parse_permission perms) expires_days
           in bind_cmd (lift_err CliFile (token_save J (env_write env 0) (env_umode env) (token_path datadir name) token fs))
                (\<lambda>_ fs. Some (Inr (Granted token (token_path datadir name)), fs)))))"

definition cmd_revoke ::
  "access_codec \<Rightarrow> cli_env \<Rightarrow> string \<Rightarrow> string \<Rightarrow> files \<Rightarrow> (files, cli_err, report) st_result option" where
  "cmd_revoke J env datadir tid fs =
     bind_cmd (Some (map_err CliFile (revocation_load J (revoked_json datadir) fs), fs)) (\<lambda>rl fs.
     bind_cmd (lift_err CliFile (revocation_save J (env_write env 0) (env_umode env) (revoked_json datadir) (revoke tid rl) fs))
       (\<lambda>_ fs. Some (Inr (Revoked tid), fs)))"

text \<open>\<open>unwrap_or_default\<close>: a list that cannot be read counts as empty.\<close>

definition revocation_or_default :: "access_codec \<Rightarrow> string \<Rightarrow> files \<Rightarrow> revocation_list" where
  "revocation_or_default J path fs =
     (case revocation_load J path fs of Inl _ \<Rightarrow> \<lparr>revoked_ids = []\<rparr> | Inr rl \<Rightarrow> rl)"

definition token_state :: "u64 \<Rightarrow> revocation_list \<Rightarrow> access_token \<Rightarrow> token_status" where
  "token_state now revoked t =
     (if is_revoked (token_id t) revoked then REVOKED
      else if 0 < expires_at t then (if expires_at t < now then EXPIRED else ACTIVE)
      else ACTIVE_NO_EXPIRY)"

text \<open>The entries of the directory are an argument, an entry that cannot be read is \<open>None\<close>; the
  clock is read for each token.\<close>

fun list_entries ::
  "access_codec \<Rightarrow> (nat \<Rightarrow> u64) \<Rightarrow> nat \<Rightarrow> revocation_list \<Rightarrow> files \<Rightarrow> string option list
     \<Rightarrow> cli_err + (access_token \<times> token_status) list" where
  "list_entries J now n revoked fs [] = Inr []"
| "list_entries J now n revoked fs (None # es) = Inl CliIo"
| "list_entries J now n revoked fs (Some path # es) =
     try_res (list_entries J now (n + 1) revoked fs es) (\<lambda>rest.
     case token_load J path fs of
       Inl _ \<Rightarrow> Inr rest
     | Inr t \<Rightarrow> Inr ((t, token_state (now n) revoked t) # rest))"

definition cmd_list_tokens ::
  "access_codec \<Rightarrow> cli_env \<Rightarrow> bool \<Rightarrow> string option list option \<Rightarrow> string \<Rightarrow> files \<Rightarrow> cli_err + report" where
  "cmd_list_tokens J env dir_exists entries datadir fs =
     (if \<not> dir_exists then Inr NoTokens
      else
        let revoked = revocation_or_default J (revoked_json datadir) fs in
        try_res (ok_or CliIo entries) (\<lambda>es.
        try_res (list_entries J (env_now env) 0 revoked fs es) (\<lambda>ts. Inr (Tokens ts))))"

definition cmd_verify_token ::
  "'a access_lib_scheme \<Rightarrow> access_codec \<Rightarrow> u64 \<Rightarrow> string \<Rightarrow> string \<Rightarrow> files \<Rightarrow> cli_err + report" where
  "cmd_verify_token A J now datadir token_file fs =
     try_res (map_err CliFile (token_load J token_file fs)) (\<lambda>t.
     try_res (ok_or CliIo (fs_read fs (master_pub datadir))) (\<lambda>mp.
     let revoked = revocation_or_default J (revoked_json datadir) fs in
     Inr (Verified (try_res (verify_with_revocation A now t (trim mp) (Some revoked)) (\<lambda>_. Inr t)))))"

section \<open>Wallets\<close>

definition cmd_new_wallet ::
  "'h vault_lib \<Rightarrow> 'w wallet_lib_scheme \<Rightarrow> cli_env \<Rightarrow> string \<Rightarrow> string \<Rightarrow> files
     \<Rightarrow> (files, cli_err, report) st_result option" where
  "cmd_new_wallet V W env datadir label fs =
     bind_cmd (Some (prompt_passphrase env False, fs)) (\<lambda>passphrase fs.
     bind_cmd (read_vault V passphrase (vault_enc datadir) fs) (\<lambda>contents fs.
     case generate_with_phrase W (env_rand env 0) of
       None \<Rightarrow> None
     | Some (w, mnemonic) \<Rightarrow>
         bind_cmd (store_vault V env 1 passphrase (secret_keys contents @ [wallet_secret_key_hex W w])
                     (labels contents @ [label]) (vault_enc datadir) fs)
           (\<lambda>_ fs. Some (Inr (WalletCreated label (wallet_address W w) mnemonic), fs))))"

text \<open>\<open>iter().position\<close>\<close>

fun position :: "('a \<Rightarrow> bool) \<Rightarrow> 'a list \<Rightarrow> nat option" where
  "position P [] = None"
| "position P (x # xs) = (if P x then Some 0 else map_option Suc (position P xs))"

text \<open>The key under a label; \<open>None\<close>: the vault has more labels than keys.\<close>

definition wallet_secret :: "vault_contents \<Rightarrow> string \<Rightarrow> (cli_err + string) option" where
  "wallet_secret contents label =
     (case position (\<lambda>l. l = label) (labels contents) of
        None \<Rightarrow> Some (Inl (WalletNotFound label))
      | Some idx \<Rightarrow> if idx < length (secret_keys contents) then Some (Inr (secret_keys contents ! idx)) else None)"

definition cmd_show_phrase ::
  "'h vault_lib \<Rightarrow> 'w wallet_lib_scheme \<Rightarrow> cli_env \<Rightarrow> string \<Rightarrow> string \<Rightarrow> files
     \<Rightarrow> (files, cli_err, report) st_result option" where
  "cmd_show_phrase V W env datadir label fs =
     bind_cmd (Some (prompt_passphrase env False, fs)) (\<lambda>passphrase fs.
     bind_cmd (read_vault V passphrase (vault_enc datadir) fs) (\<lambda>contents fs.
     bind_cmd (map_option (\<lambda>r. (r, fs)) (wallet_secret contents label)) (\<lambda>key fs.
     bind_cmd (Some (map_err CliWallet (wallet_from_secret_hex W key), fs)) (\<lambda>w fs.
     map_option (\<lambda>mnemonic. (Inr (Phrase mnemonic), fs)) (wallet_phrase W w)))))"

definition cmd_restore_wallet ::
  "'h vault_lib \<Rightarrow> 'w wallet_lib_scheme \<Rightarrow> cli_env \<Rightarrow> string \<Rightarrow> string \<Rightarrow> string \<Rightarrow> files
     \<Rightarrow> (files, cli_err, report) st_result option" where
  "cmd_restore_wallet V W env datadir label phrase fs =
     bind_cmd (Some (prompt_passphrase env False, fs)) (\<lambda>passphrase fs.
     bind_cmd (read_vault V passphrase (vault_enc datadir) fs) (\<lambda>contents fs.
     if label \<in> set (labels contents) then Some (Inl (WalletExists label), fs)
     else
       bind_cmd (Some (map_err CliWallet (wallet_from_phrase W phrase), fs)) (\<lambda>w fs.
       bind_cmd (store_vault V env 0 passphrase (secret_keys contents @ [wallet_secret_key_hex W w])
                   (labels contents @ [label]) (vault_enc datadir) fs)
         (\<lambda>_ fs. Some (Inr (WalletRestored label (wallet_address W w)), fs)))))"

text \<open>\<open>None\<close>: a label has no key.\<close>

fun wallet_rows :: "'w sig_lib_scheme \<Rightarrow> string list \<Rightarrow> string list \<Rightarrow> (string \<times> string) list option" where
  "wallet_rows W keys [] = Some []"
| "wallet_rows W keys (l # ls) =
     (if l = ''master-key'' then wallet_rows W (drop 1 keys) ls
      else case keys of
          [] \<Rightarrow> None
        | k # ks \<Rightarrow> map_option (\<lambda>rows. case wallet_from_secret_hex W k of
              Inl _ \<Rightarrow> rows | Inr w \<Rightarrow> (l, wallet_address W w) # rows) (wallet_rows W ks ls))"

definition cmd_list_wallets ::
  "'h vault_lib \<Rightarrow> 'w sig_lib_scheme \<Rightarrow> cli_env \<Rightarrow> string \<Rightarrow> files \<Rightarrow> (files, cli_err, report) st_result option" where
  "cmd_list_wallets V W env datadir fs =
     bind_cmd (Some (prompt_passphrase env False, fs)) (\<lambda>passphrase fs.
     bind_cmd (read_vault V passphrase (vault_enc datadir) fs) (\<lambda>contents fs.
     map_option (\<lambda>rows. (Inr (Wallets rows), fs)) (wallet_rows W (secret_keys contents) (labels contents))))"

text \<open>\<open>Path::parent\<close> is not empty: a separator is left after trailing separators and \<open>/.\<close> are dropped.\<close>

fun strip_end :: "string \<Rightarrow> string" where
  "strip_end (c # r) =
     (if c = CHR ''/'' then strip_end r
      else if c = CHR ''.'' \<and> r \<noteq> [] \<and> hd r = CHR ''/'' then strip_end r else c # r)"
| "strip_end [] = []"

definition has_parent :: "string \<Rightarrow> bool" where
  "has_parent path \<longleftrightarrow> CHR ''/'' \<in> set (strip_end (rev path))"

text \<open>\<open>fs::copy\<close> takes the mode along, and truncates a file copied to itself.\<close>

definition cmd_backup ::
  "'h vault_lib \<Rightarrow> cli_env \<Rightarrow> string \<Rightarrow> string \<Rightarrow> files \<Rightarrow> (files, cli_err, report) st_result option" where
  "cmd_backup V env datadir output fs =
     (case fs (vault_enc datadir) of
        None \<Rightarrow> Some (Inl (VaultNotFound (vault_enc datadir)), fs)
      | Some (txt, mode) \<Rightarrow>
          bind_cmd (Some (prompt_passphrase env False, fs)) (\<lambda>passphrase fs.
          bind_cmd (read_vault V passphrase (vault_enc datadir) fs) (\<lambda>_ fs.
          if has_parent output \<and> \<not> env_mkdir env 0 then Some (Inl CliIo, fs)
          else case env_write env 0 of
              None \<Rightarrow> Some (Inr (BackedUp output),
                           fs(output \<mapsto> (if output = vault_enc datadir then [] else txt, mode)))
            | Some left \<Rightarrow> Some (Inl CliIo, fs(output := left)))))"

section \<open>Chain\<close>

text \<open>The commands that open the chain: \<open>db\<close> is the opened store, \<open>None\<close> when it cannot be opened.\<close>

definition open_cli ::
  "('d, 'x) store_lib_scheme \<Rightarrow> cli_env \<Rightarrow> (nat \<Rightarrow> u64) \<Rightarrow> string \<Rightarrow> 'd option \<Rightarrow> (cli_err + 'd blockchain) option" where
  "open_cli X env clock network db =
     (if \<not> env_mkdir env 0 then Some (Inl CliIo)
      else case db of
          None \<Rightarrow> Some (Inl CliIo)
        | Some d \<Rightarrow> map_option (map_err CliChain) (open_for_network X clock d network))"

definition with_chain ::
  "(cli_err + 'd blockchain) option \<Rightarrow> ('d blockchain \<Rightarrow> ('d blockchain option, cli_err, report) st_result option)
     \<Rightarrow> ('d blockchain option, cli_err, report) st_result option" where
  "with_chain oc k =
     (case oc of None \<Rightarrow> None | Some (Inl e) \<Rightarrow> Some (Inl e, None) | Some (Inr c) \<Rightarrow> k c)"

definition cmd_mine ::
  "('d, 'x) store_lib_scheme \<Rightarrow> cli_env \<Rightarrow> (nat \<Rightarrow> u64) \<Rightarrow> string \<Rightarrow> 'd option \<Rightarrow> string
     \<Rightarrow> ('d blockchain option, cli_err, report) st_result option" where
  "cmd_mine X env clock network db address =
     with_chain (open_cli X env clock network db) (\<lambda>c.
     case mine_block X (env_now env 0) address c of
       None \<Rightarrow> None
     | Some b \<Rightarrow>
         (case add_block X (env_now env 1) b c of
            (Inl e, c1) \<Rightarrow> Some (Inl (CliChain e), Some c1)
          | (Inr _, c1) \<Rightarrow>
              Some (Inr (MinedBlock (hash_hex X b) (height b) (nonce (header b)) (length (transactions b))
                           (balance_of c1 address)), Some c1)))"

definition cmd_balance ::
  "('d, 'x) store_lib_scheme \<Rightarrow> cli_env \<Rightarrow> (nat \<Rightarrow> u64) \<Rightarrow> string \<Rightarrow> 'd option \<Rightarrow> string
     \<Rightarrow> ('d blockchain option, cli_err, report) st_result option" where
  "cmd_balance X env clock network db address =
     with_chain (open_cli X env clock network db) (\<lambda>c. Some (Inr (BalanceOf (balance_of c address)), Some c))"

definition cmd_info ::
  "('d, 'x) store_lib_scheme \<Rightarrow> cli_env \<Rightarrow> (nat \<Rightarrow> u64) \<Rightarrow> string \<Rightarrow> 'd option
     \<Rightarrow> ('d blockchain option, cli_err, report) st_result option" where
  "cmd_info X env clock network db =
     with_chain (open_cli X env clock network db) (\<lambda>c.
     Some (Inr (ChainInfo (chain_height c) (hash_hex X (tip c)) (bits (header (tip c))) (pool_len (chain_mempool c))),
           Some c))"

definition cmd_send ::
  "('d, 'x) store_lib_scheme \<Rightarrow> 'h vault_lib \<Rightarrow> cli_env \<Rightarrow> (nat \<Rightarrow> u64) \<Rightarrow> string \<Rightarrow> 'd option \<Rightarrow> string \<Rightarrow> files
     \<Rightarrow> string \<Rightarrow> string \<Rightarrow> u64 \<Rightarrow> ('d blockchain option, cli_err, report) st_result option" where
  "cmd_send X V env clock network db datadir fs from_label recipient amount =
     (case bind_cmd (Some (prompt_passphrase env False, fs)) (\<lambda>passphrase fs.
           bind_cmd (read_vault V passphrase (vault_enc datadir) fs) (\<lambda>contents fs.
           map_option (\<lambda>r. (r, fs)) (wallet_secret contents from_label))) of
        None \<Rightarrow> None
      | Some (Inl e, _) \<Rightarrow> Some (Inl e, None)
      | Some (Inr key, _) \<Rightarrow>
          with_chain (open_cli X env clock network db) (\<lambda>c.
          case wallet_from_secret_hex X key of
            Inl e \<Rightarrow> Some (Inl (CliWallet e), Some c)
          | Inr w \<Rightarrow>
              (case wallet_send X w recipient amount 1000 (chain_utxos c) (network_magic c) of
                 None \<Rightarrow> None
               | Some (Inl e) \<Rightarrow> Some (Inl (CliWallet e), Some c)
               | Some (Inr tx) \<Rightarrow>
                   (case submit_transaction X tx c of
                      (Inl e, c1) \<Rightarrow> Some (Inl (CliSubmit e), Some c1)
                    | (Inr tid, c1) \<Rightarrow>
                        (case mine_block X (env_now env 0) (wallet_address X w) c1 of
                           None \<Rightarrow> None
                         | Some b \<Rightarrow>
                             (case add_block X (env_now env 1) b c1 of
                                (Inl e, c2) \<Rightarrow> Some (Inl (CliChain e), Some c2)
                              | (Inr _, c2) \<Rightarrow> Some (Inr (Sent tid (chain_height c2)), Some c2)))))))"

text \<open>\<open>Vec::dedup\<close> removes consecutive repetitions.\<close>

definition bootstrap_list :: "(string \<Rightarrow> string list option) \<Rightarrow> string list \<Rightarrow> string list \<Rightarrow> string list" where
  "bootstrap_list resolver peers seeds =
     remdups_adj (peers @ (if seeds = [] then collect_bootstrap_peers resolver []
                           else collect_bootstrap_peers resolver seeds))"

fun connect_all :: "(nat \<Rightarrow> bool \<times> bool) \<Rightarrow> nat \<Rightarrow> string list \<Rightarrow> 'd node \<Rightarrow> 'd node" where
  "connect_all up k [] nd = nd"
| "connect_all up k (a # as) nd =
     connect_all up (k + 1) as (snd (connect_to_peer (fst (up k)) (snd (up k)) a nd))"

text \<open>The node as it is when \<open>run\<close> is called; the RPC server shares its chain.\<close>

definition cmd_node ::
  "('d, 'x) store_lib_scheme \<Rightarrow> cli_env \<Rightarrow> (nat \<Rightarrow> u64) \<Rightarrow> string \<Rightarrow> 'd option \<Rightarrow> (string \<Rightarrow> string list option)
     \<Rightarrow> (nat \<Rightarrow> bool \<times> bool) \<Rightarrow> string \<Rightarrow> u32 \<Rightarrow> string option \<Rightarrow> string list \<Rightarrow> string list \<Rightarrow> (cli_err + 'd node) option" where
  "cmd_node X env clock network db resolver up listen magic anchors peers seeds =
     (case open_cli X env clock network db of
        None \<Rightarrow> None
      | Some (Inl e) \<Rightarrow> Some (Inl e)
      | Some (Inr c) \<Rightarrow>
          Some (Inr (connect_all up 0 (bootstrap_list resolver peers seeds) (node_new c listen magic anchors))))"

section \<open>Demo\<close>

record demo_report =
  demo_tampered_tx_accepted :: bool
  demo_token_valid :: bool
  demo_tampered_token_accepted :: bool
  demo_signature_valid :: bool
  demo_quantum_forgery_accepted :: bool
  demo_classical_forgery_accepted :: bool

fun demo_mine ::
  "('d, 'x) store_lib_scheme \<Rightarrow> (nat \<Rightarrow> u64) \<Rightarrow> nat \<Rightarrow> string \<Rightarrow> nat \<Rightarrow> 'd blockchain \<Rightarrow> (cli_err + 'd blockchain) option" where
  "demo_mine X clock n a 0 c = Some (Inr c)"
| "demo_mine X clock n a (Suc k) c =
     (case mine_block X (clock n) a c of
        None \<Rightarrow> None
      | Some b \<Rightarrow>
          (case add_block X (clock (n + 1)) b c of
             (Inl e, _) \<Rightarrow> Some (Inl (CliChain e))
           | (Inr _, c1) \<Rightarrow> demo_mine X clock (n + 2) a k c1))"

definition demo_pay ::
  "('d, 'x) store_lib_scheme \<Rightarrow> wallet \<Rightarrow> string \<Rightarrow> 'd blockchain \<Rightarrow> (cli_err + 'd blockchain) option" where
  "demo_pay X miner receiver c =
     (case wallet_send X miner receiver 5000000000 1000 (chain_utxos c) (network_magic c) of
        None \<Rightarrow> None
      | Some (Inl e) \<Rightarrow> Some (Inl (CliWallet e))
      | Some (Inr tx) \<Rightarrow>
          (case submit_transaction X tx c of
             (Inl e, _) \<Rightarrow> Some (Inl (CliSubmit e))
           | (Inr _, c1) \<Rightarrow> Some (Inr c1)))"

definition demo_fake_tx :: "('d, 'x) store_lib_scheme \<Rightarrow> wallet \<Rightarrow> string \<Rightarrow> 'd blockchain \<Rightarrow> transaction" where
  "demo_fake_tx X miner receiver c =
     tx_new [\<lparr>prev_tx_hash = txid_hex X (transactions (tip c) ! 0), prev_index = 0,
              input_signature = \<lparr>ecdsa_sig = replicate 64 0, dilithium_sig = []\<rparr>,
              input_pubkey = public_key (keypair miner), coinbase_extra = [], witnesses = []\<rparr>]
       [\<lparr>out_value = 999999999999, out_script = None, out_address = receiver\<rparr>]"

definition is_ok :: "'e + 'a \<Rightarrow> bool" where
  "is_ok r = (case r of Inl _ \<Rightarrow> False | Inr _ \<Rightarrow> True)"

definition demo_security ::
  "('d, 'x) store_lib_scheme \<Rightarrow> 'a access_lib_scheme \<Rightarrow> cli_env \<Rightarrow> bool \<Rightarrow> demo_report option" where
  "demo_security X A env fake_accepted =
     (let master = master_key_generate A (env_rand env 4);
          token = issue_token A (env_now env 0) master ''alice'' (master_public_hex A master) [PermConnect, PermTransact] 30;
          tampered = token\<lparr>permissions := permissions token @ [PermAdmin]\<rparr>;
          qkp = hybrid_generate X (env_rand env 5) (env_rand env 6);
          qpk = public_key qkp;
          msg = as_bytes ''transfer 5 ARKOS from miner to receiver''
      in case hybrid_sign X qkp msg of
           None \<Rightarrow> None
         | Some qsig \<Rightarrow>
             Some \<lparr>demo_tampered_tx_accepted = fake_accepted,
                   demo_token_valid = is_ok (verify_token A (env_now env 1) token (master_public_hex A master)),
                   demo_tampered_token_accepted = is_ok (verify_token A (env_now env 2) tampered (master_public_hex A master)),
                   demo_signature_valid = is_ok (hybrid_verify X qsig msg qpk),
                   demo_quantum_forgery_accepted = is_ok (hybrid_verify X (qsig\<lparr>ecdsa_sig := replicate 64 0\<rparr>) msg qpk),
                   demo_classical_forgery_accepted =
                     is_ok (hybrid_verify X (qsig\<lparr>dilithium_sig := replicate (length (dilithium_sig qsig)) 0\<rparr>) msg qpk)\<rparr>)"

definition cmd_demo ::
  "('d, 'x) store_lib_scheme \<Rightarrow> 'a access_lib_scheme \<Rightarrow> cli_env \<Rightarrow> (nat \<Rightarrow> u64) \<Rightarrow> string \<Rightarrow> (cli_err + demo_report) option" where
  "cmd_demo X A env clock network =
     (let miner = wallet_new X (env_rand env 0) (env_rand env 1);
          receiver = wallet_address X (wallet_new X (env_rand env 2) (env_rand env 3));
          bind = (\<lambda>m k. case m of None \<Rightarrow> None | Some (Inl e) \<Rightarrow> Some (Inl e) | Some (Inr c) \<Rightarrow> k c)
      in case new_for_network X network of
           None \<Rightarrow> None
         | Some c0 \<Rightarrow>
             bind (demo_mine X clock 0 (wallet_address X miner) 2 c0) (\<lambda>c1.
             bind (demo_pay X miner receiver c1) (\<lambda>c2.
             bind (demo_mine X clock 4 (wallet_address X miner) 1 c2) (\<lambda>c3.
             map_option Inr (demo_security X A env
               (is_ok (fst (submit_transaction X (demo_fake_tx X miner receiver c3) c3))))))))"

section \<open>The demo cannot finish\<close>

lemma mined_on_tip:
  assumes "mine_block X now a c = Some b"
  shows "height b = height (tip c) + 1" "prev_hash (header b) = hash_hex X (tip c)"
  using assms by (auto simp: mine_block_def Let_def dest: mined_fields split: option.splits)

text \<open>A new block on the tip that is accepted extends the active chain.\<close>

lemma accepted_on_tip:
  assumes ok: "chain_ok X c" and add: "add_block X now b c = (Inr (), c')"
    and par: "prev_hash (header b) = hash_hex X (tip c)"
    and new: "hm_get (all_blocks c) (hash_hex X b) = None" "fresh_leaf X b c" "height b \<noteq> 0"
  shows "blocks c' = blocks c @ [b]"
  using add
proof (cases rule: add_block_cases)
  case (refused s)
  then show ?thesis using new(1) by simp
next
  case (stored p pw w s c2)
  let ?c1 = "c\<lparr>chain_store := s\<rparr>"
  note g = chain_ok_tip(1) [OF ok]
  have p: "p = tip c" using stored(2) g par by simp
  have h: "unat (height b) = Suc (unat (height p))"
    using unat_succ_height [OF validated_context(1) [OF stored(4,2)] new(3)] .
  have c2: "chain_ok X c2"
    unfolding stored(7) using ok new stored(2,5,6) h by (intro chain_ok_insert) (simp_all add: fresh_leaf_def)
  have walk: "chain_to_hash c2 (hash_hex X b) = Inr (blocks c @ [b])"
    unfolding stored(7) using ok new(1) chain_to_hash_tip [of X ?c1] h p
    by (intro chain_to_hash_insert) (simp_all add: par tip_def)
  have "hash_hex X (tip c) \<noteq> hash_hex X b" using g new(1) by auto
  then have t: "hm_get (chain_work c2) (hash_hex X (tip c2)) = Some pw"
    using stored(5) par by (simp add: stored(7) insert_block_def tip_def)
  have "pw < w"
    using checked_add_SomeD [OF stored(6)] block_work_pos [of "bits (header b)"] by (simp add: word_less_nat_alt)
  then obtain c3 where "activate_chain X (hash_hex X b) c2 = (Inr (), c3)" "c' = prune_stale_orphans X c3"
    using stored(8) [symmetric] t by (auto simp: try_st_Inr)
  with activate_ok [OF c2 walk] show ?thesis by simp
qed

lemma demo_mine_young:
  assumes "fresh_chain X c0"
  shows "(chain_step X)\<^sup>*\<^sup>* c0 c \<Longrightarrow> (\<And>h b. hm_get (all_blocks c) h = Some b \<Longrightarrow> b \<in> set (blocks c)) \<Longrightarrow>
    length (blocks c) + k \<le> 100 \<Longrightarrow> demo_mine X clock n a k c = Some (Inr c') \<Longrightarrow>
    (chain_step X)\<^sup>*\<^sup>* c0 c' \<and> length (blocks c') \<le> 100"
proof (induction k arbitrary: n c)
  case (Suc k)
  obtain b c1 where b: "mine_block X (clock n) a c = Some b" "add_block X (clock (n + 1)) b c = (Inr (), c1)"
    "demo_mine X clock (n + 2) a k c1 = Some (Inr c')"
    using Suc.prems(4) by (auto split: option.splits prod.splits sum.splits)
  have ok: "chain_ok X c" by (rule reachable_checked(1) [OF assms Suc.prems(1)])
  show ?case
  proof (cases "hm_get (all_blocks c) (hash_hex X b)")
    case (Some y)
    then have "c1 = c" using b(2) by (simp add: add_block_def)
    with Suc.IH [OF Suc.prems(1,2) _ b(3) [unfolded this]] Suc.prems(3) show ?thesis by simp
  next
    case None
    note leaf = leaf_of_active [OF ok Suc.prems(2) None]
    have "unat (height (tip c)) < 100"
      using chain_ok_tip(2) [OF ok] Suc.prems(3) by (cases "blocks c") simp_all
    then have "height (tip c) \<noteq> - 1" by (auto simp: unat_max_word)
    then have h0: "height b \<noteq> 0" using mined_on_tip(1) [OF b(1)] by (simp add: eq_neg_iff_add_eq_0)
    have blk: "blocks c1 = blocks c @ [b]"
      by (rule accepted_on_tip [OF ok b(2) mined_on_tip(2) [OF b(1)] None leaf h0])
    have "(chain_step X)\<^sup>*\<^sup>* c0 c1"
      using Suc.prems(1) block_arrives [OF leaf h0 b(2)] by (simp add: rtranclp.rtrancl_into_rtrancl)
    moreover have "hm_ok (all_blocks c)" using ok by (simp add: chain_ok_def all_ok_def)
    from this b(2) have "\<forall>h b'. hm_get (all_blocks c1) h = Some b' \<longrightarrow> b' \<in> set (blocks c1)"
    proof (cases rule: add_block_state)
      case kept
      then show ?thesis using Suc.prems(2) blk by auto
    next
      case (inserted p w)
      have "b' \<in> set (blocks c1)" if "hm_get (all_blocks c1) h = Some b'" for h b'
        using inserted(7) [OF that] Suc.prems(2) [of h b'] blk by (auto simp: insert_block_def split: if_splits)
      then show ?thesis by blast
    qed
    ultimately show ?thesis using Suc.IH [of c1 "n + 2"] Suc.prems(3) b(3) blk by simp
  qed
qed simp

text \<open>The demonstration of the command line never reaches its end: whatever network, randomness and
  clock, it mines two blocks and then submits a payment with their rewards, which are immature, so
  the command ends with an error before its remaining checks are run (or mining does not end).\<close>

theorem demo_never_passes: "cmd_demo X A env clock network \<noteq> Some (Inr r)"
proof
  let ?m = "wallet_new X (env_rand env 0) (env_rand env 1)"
  assume "cmd_demo X A env clock network = Some (Inr r)"
  then obtain c0 c1 c2 where c: "new_for_network X network = Some c0"
    "demo_mine X clock 0 (wallet_address X ?m) 2 c0 = Some (Inr c1)"
    "demo_pay X ?m (wallet_address X (wallet_new X (env_rand env 2) (env_rand env 3))) c1 = Some (Inr c2)"
    by (auto simp: cmd_demo_def Let_def split: option.splits sum.splits)
  obtain g where g: "c0 = from_genesis_with_magic X g None (magic_for_network network)" "height g = 0"
    "list_all is_coinbase (transactions g)"
    using c(1) by (auto simp: new_for_network_def genesis_block_with_bits_def Let_def split: option.splits)
  then have f: "fresh_chain X c0" "blocks c0 = [g]" "\<And>h b. hm_get (all_blocks c0) h = Some b \<Longrightarrow> b \<in> set (blocks c0)"
    by (auto simp: fresh_chain_def from_genesis_with_magic_def Let_def split: if_splits)
  have r: "(chain_step X)\<^sup>*\<^sup>* c0 c1" "length (blocks c1) \<le> 100"
    using demo_mine_young [OF f(1) rtranclp.rtrancl_refl f(3) _ c(2)] f(2) by simp_all
  then have "unat (chain_height c1) < 100"
    using chain_ok_tip(2) [OF reachable_checked(1) [OF f(1) r(1)]] by (simp add: chain_height_def)
  with young_refuses [OF f(1,2) g(3) r(1)] c(3) show False
    by (auto simp: demo_pay_def split: option.splits sum.splits prod.splits) (metis Inl_Inr_False Pair_inject)
qed

section \<open>Tokens from grant to revocation\<close>

lemma trim_hex:
  assumes "hex_ok A"
  shows "trim (lib_hex_encode A b) = lib_hex_encode A b"
proof (cases "lib_hex_encode A b")
  case Nil
  have "strips ws [] = None" for ws by (auto simp: strips_def find_None_iff)
  then show ?thesis by (simp add: Nil trim_def trim_start.simps)
next
  case (Cons x xs)
  have "\<forall>c \<in> set (lib_hex_encode A b). hex_digit c" using assms by (simp add: hex_ok_def list_all_iff)
  moreover have "hex_digit c \<Longrightarrow> is_plain_char c" for c by (auto simp: hex_digit_def is_plain_char_def)
  ultimately have "plain (lib_hex_encode A b)" using Cons by (auto simp: plain_def is_plain_char_def)
  then show ?thesis by (rule trim_plain)
qed

text \<open>The files of the data directory lie apart, wherever the name of a token leads.\<close>

lemma join_end: "path_join d p = p \<or> (\<exists>q. path_join d p = q @ p)"
  by (auto simp: path_join_def intro: exI [of _ "d @ ''/''"])

lemma token_path_end: "\<exists>q. token_path d name = q @ ''.token''"
  using join_end [of "path_join d ''tokens''" "name @ ''.token''"] by (auto simp: token_path_def)

lemma apart_paths:
  "token_path d name \<noteq> master_pub d" "token_path d name \<noteq> revoked_json d" "token_path d name \<noteq> vault_enc d"
  "vault_enc d \<noteq> master_pub d" "vault_enc d \<noteq> revoked_json d" "master_pub d \<noteq> revoked_json d"
proof -
  obtain q where q: "token_path d name = q @ ''.token''" using token_path_end by blast
  have "rev (token_path d name) \<noteq> rev (path_join d p)" if "p \<in> {''master.pub'', ''revoked.json'', ''vault.enc''}" for p
    using join_end [of d p] that unfolding q by auto
  then show "token_path d name \<noteq> master_pub d" "token_path d name \<noteq> revoked_json d" "token_path d name \<noteq> vault_enc d"
    by auto
  show "vault_enc d \<noteq> master_pub d" "vault_enc d \<noteq> revoked_json d" "master_pub d \<noteq> revoked_json d"
    by (simp_all add: path_join_relative)
qed

lemma open_vault_cong: "fs path = fs' path \<Longrightarrow> open_vault V p path fs = open_vault V p path fs'"
  by (simp add: open_vault_def)

lemma three_writes:
  assumes "bind_cmd m1 (\<lambda>(_ :: unit) fs. bind_cmd (lift_err f (m2 fs)) (\<lambda>(_ :: unit) fs.
    if b then Some (Inl e, fs)
    else bind_cmd (lift_err f (m3 fs)) (\<lambda>(_ :: unit) fs. Some (Inr (Initialized p a), fs)))) = Some (Inr (Initialized p' a'), fs1)"
  shows "\<exists>fs2 fs3. m1 = Some (Inr (), fs2) \<and> m2 fs2 = (Inr (), fs3) \<and> m3 fs3 = (Inr (), fs1) \<and> p' = p"
  using assms by (auto split: if_split_asm)

lemma init_outcome:
  assumes "vault_lib_ok V" "cmd_init A J V W env datadir fs = Some (Inr (Initialized pub addr), fs1)"
  obtains passphrase w where "pub = master_public_hex A (master_key_generate A (env_rand env 0))"
    "fs_read fs1 (master_pub datadir) = Some pub"
    "\<And>p. open_vault V p (vault_enc datadir) fs1 = Some (if p = passphrase
       then Inr \<lparr>secret_keys = [master_secret_hex A (master_key_generate A (env_rand env 0)), w],
                 labels = [''master-key'', ''default-wallet''], created_at = env_now env 0\<rparr> else Inl WrongPassphrase)"
proof -
  let ?m = "master_key_generate A (env_rand env 0)" and ?w = "wallet_new W (env_rand env 1) (env_rand env 2)"
  let ?keys = "[master_secret_hex A ?m, wallet_secret_key_hex W ?w]" and ?labs = "[''master-key'', ''default-wallet'']"
  let ?t = "issue_token A (env_now env 1) ?m ''owner'' (master_public_hex A ?m) [PermAdmin] 0"
  obtain passphrase where i: "init_store A J V W env datadir passphrase fs = Some (Inr (Initialized pub addr), fs1)"
    using assms(2) by (auto simp: cmd_init_def split: if_splits)
  obtain fs2 fs3 where s: "store_vault V env 3 passphrase ?keys ?labs (vault_enc datadir) fs = Some (Inr (), fs2)"
    "save_public_key A (env_write env 1) (env_umode env) (master_pub datadir) ?m fs2 = (Inr (), fs3)"
    "token_save J (env_write env 2) (env_umode env) (token_path datadir ''owner'') ?t fs3 = (Inr (), fs1)"
    and pub: "pub = master_public_hex A ?m"
    using three_writes [OF i [unfolded init_store_def Let_def]] by blast
  have c: "create_vault V (env_now env 0) (env_rand env 3) (env_rand env 4) (env_write env 0) (env_chmod env)
      (env_umode env) passphrase ?keys ?labs (vault_enc datadir) fs = Some (Inr (), fs2)"
    using s(1) by (auto simp: store_vault_def bind_eq_Some_conv)
  have keep: "p \<noteq> master_pub datadir \<Longrightarrow> p \<noteq> token_path datadir ''owner'' \<Longrightarrow> fs1 p = fs2 p"
    "p \<noteq> token_path datadir ''owner'' \<Longrightarrow> fs1 p = fs3 p" for p
    using save_text_Inr(2) [OF s(2) [unfolded save_public_key_def]] save_text_Inr(2) [OF s(3) [unfolded token_save_def]]
    by auto
  have "fs_read fs3 (master_pub datadir) = Some pub"
    using save_text_Inr(1) [OF s(2) [unfolded save_public_key_def]] pub by simp
  then have "fs_read fs1 (master_pub datadir) = Some pub"
    using keep(2) [OF apart_paths(1) [symmetric]] by (simp add: fs_read_def)
  moreover have "open_vault V p (vault_enc datadir) fs1 = open_vault V p (vault_enc datadir) fs2" for p
    using keep(1) [OF apart_paths(4) apart_paths(3) [symmetric]] by (rule open_vault_cong)
  ultimately show thesis using that [OF pub] created_vault_opens [OF assms(1) c] by simp
qed

lemma grant_outcome:
  assumes "cmd_grant A J V env datadir name perms days fs = Some (Inr (Granted t path), fs')"
    and "\<And>p. open_vault V p (vault_enc datadir) fs = Some (if p = passphrase then Inr contents else Inl WrongPassphrase)"
    and "secret_keys contents = [lib_hex_encode A secret, w]" "hex_ok A"
  shows "path = token_path datadir name" "length secret = 32"
    "t = issue_token A (env_now env 0) (master_key_from_secret_bytes A secret) name
           (master_public_hex A (master_key_generate A (env_rand env 0))) (map parse_permission perms) days"
    "token_save J (env_write env 0) (env_umode env) path t fs = (Inr (), fs')"
proof -
  have hex: "lib_hex_decode A (lib_hex_encode A secret) = Some secret" using assms(4) by (simp add: hex_ok_def)
  show "path = token_path datadir name" "length secret = 32"
    "t = issue_token A (env_now env 0) (master_key_from_secret_bytes A secret) name
           (master_public_hex A (master_key_generate A (env_rand env 0))) (map parse_permission perms) days"
    "token_save J (env_write env 0) (env_umode env) path t fs = (Inr (), fs')"
    using assms(1) by (auto simp: cmd_grant_def read_vault_def assms(2,3) hex Let_def split: if_splits)
qed

text \<open>C34: the life of a token: after \<open>arkos init\<close>, a token issued by \<open>arkos grant\<close>, whatever its holder is
  called, verifies from its file with \<open>arkos verify-token\<close> until it expires, unless its identifier
  was revoked before; and after \<open>arkos revoke\<close> it is refused for good. Granting takes the passphrase
  chosen at initialisation.\<close>

theorem granted_token_lifecycle:
  assumes lib: "vault_lib_ok V" "hex_ok A" "ed_ok A" "codec_reads J"
    and init: "cmd_init A J V W env1 datadir fs0 = Some (Inr (Initialized pub addr), fs1)"
    and grant: "cmd_grant A J V env2 datadir name perms days fs1 = Some (Inr (Granted t path), fs2)"
    and revoke: "cmd_revoke J env3 datadir (token_id t) fs2 = Some (Inr r, fs3)"
  shows "cmd_verify_token A J now datadir path fs2 = Inr (Verified (
      if 0 < expires_at t \<and> expires_at t < now then Inl (TokenExpired (expires_at t))
      else if is_revoked (token_id t) (revocation_or_default J (revoked_json datadir) fs2)
      then Inl (TokenRevoked (token_id t)) else Inr t))
    \<and> cmd_verify_token A J now datadir path fs3 = Inr (Verified (Inl (
      if 0 < expires_at t \<and> expires_at t < now then TokenExpired (expires_at t) else TokenRevoked (token_id t))))"
proof -
  let ?secret = "env_rand env1 0"
  obtain passphrase w where i: "pub = master_public_hex A (master_key_generate A ?secret)"
    "fs_read fs1 (master_pub datadir) = Some pub"
    "\<And>p. open_vault V p (vault_enc datadir) fs1 = Some (if p = passphrase
       then Inr \<lparr>secret_keys = [master_secret_hex A (master_key_generate A ?secret), w],
                 labels = [''master-key'', ''default-wallet''], created_at = env_now env1 0\<rparr> else Inl WrongPassphrase)"
    using init_outcome [OF lib(1) init] by blast
  have mk: "master_key_generate A ?secret = master_key_from_secret_bytes A ?secret"
    by (simp add: master_key_generate_def master_key_from_secret_bytes_def)
  have "secret_keys \<lparr>secret_keys = [master_secret_hex A (master_key_generate A ?secret), w],
      labels = [''master-key'', ''default-wallet''], created_at = env_now env1 0\<rparr> = [lib_hex_encode A ?secret, w]"
    by (simp add: master_secret_hex_def master_key_generate_def)
  note g = grant_outcome [OF grant i(3) this lib(2)]
  have fs2: "token_load J path fs2 = Inr t" "fs_read fs2 (master_pub datadir) = Some pub"
    using saved_token_loads [OF lib(4) g(4)] i(2) apart_paths(1) [of datadir name]
      save_text_Inr(2) [OF g(4) [unfolded token_save_def], of "master_pub datadir"]
    by (auto simp: fs_read_def g(1))
  obtain rl where rl: "revocation_save J (env_write env3 0) (env_umode env3) (revoked_json datadir)
      (revoke (token_id t) rl) fs2 = (Inr (), fs3)"
    using revoke by (auto simp: cmd_revoke_def)
  have "fs3 path = fs2 path" "fs3 (master_pub datadir) = fs2 (master_pub datadir)"
    using save_text_Inr(2) [OF rl [unfolded revocation_save_def]] apart_paths by (auto simp: g(1))
  then have fs3: "token_load J path fs3 = Inr t" "fs_read fs3 (master_pub datadir) = Some pub"
    using fs2 by (simp_all add: token_load_def fs_read_def)
  have rd: "revocation_or_default J (revoked_json datadir) fs3 = revoke (token_id t) rl"
    using saved_revocations_load [OF lib(4) rl] by (simp add: revocation_or_default_def)
  have "expires_at t = (if days = 0 then 0 else env_now env2 0 + days * 86400)"
    unfolding g(3) by (rule issue_token_fields(1))
  then have v: "verify_with_revocation A now t (trim pub) (Some x) =
     (if 0 < expires_at t \<and> expires_at t < now then Inl (TokenExpired (expires_at t))
      else if is_revoked (token_id t) x then Inl (TokenRevoked (token_id t)) else Inr ())" for x
    using issued_token_verifies [OF lib(2,3) g(2) refl g(3), of now "Some x"]
    unfolding i(1) mk master_public_hex_def trim_hex [OF lib(2)] is_revoked_def by auto
  show ?thesis
    using fs2 fs3 revoked_token_refused(1) [of "token_id t" rl]
    by (simp add: cmd_verify_token_def v rd)
qed

text \<open>A run of the three commands, with codecs for the values that occur.\<close>

definition demo_env :: cli_env where
  "demo_env = \<lparr>env_home = None, env_prompt = (\<lambda>_. Some ''correct horse''), env_mkdir = (\<lambda>_. True),
     env_write = (\<lambda>_. None), env_chmod = True, env_umode = 0x1a4, env_now = (\<lambda>_. 5),
     env_rand = (\<lambda>n. if n = 0 then replicate 32 7 else if n = 3 then replicate 16 3 else replicate 12 4)\<rparr>"

definition demo_codec :: "access_token \<Rightarrow> access_token \<Rightarrow> access_codec" where
  "demo_codec t u =
     \<lparr>token_to_json = (\<lambda>x. if x = t then Some ''1'' else if x = u then Some ''2'' else None),
      token_of_json = (\<lambda>s. if s = ''1'' then Some t else Some u),
      revocation_to_json = (\<lambda>x. if revoked_ids x = [token_id u] then Some ''r'' else None),
      revocation_of_json = (\<lambda>s. Some \<lparr>revoked_ids = [token_id u]\<rparr>)\<rparr>"

lemma demo_codec_reads: "codec_reads (demo_codec t u)"
  by (auto simp: codec_reads_def demo_codec_def)

lemma demo_vault_written:
  assumes "v = \<lparr>secret_keys = keys, labels = labs, created_at = 5\<rparr>"
    and "f = \<lparr>vault_version = 1, argon2_salt = from_utf8 (replicate 16 3), vault_nonce = from_utf8 (replicate 12 4),
      ciphertext = from_utf8 [1], passphrase_hash = from_utf8 (as_bytes ''correct horse'')\<rparr>"
  shows "store_vault (demo_vault_lib f v) demo_env 3 ''correct horse'' keys labs path Map.empty =
      Some (Inr (), Map.empty(path \<mapsto> (''f'', 0x180)))"
    and "vault_lib_ok (demo_vault_lib f v)"
    and "fs path = Some (''f'', m) \<Longrightarrow> open_vault (demo_vault_lib f v) ''correct horse'' path fs = Some (Inr v)"
proof -
  show "store_vault (demo_vault_lib f v) demo_env 3 ''correct horse'' keys labs path Map.empty =
      Some (Inr (), Map.empty(path \<mapsto> (''f'', 0x180)))"
    by (simp add: store_vault_def lift_err_def create_vault_def seal_vault_def demo_vault_lib_def derive_key_def
        nonce_from_slice_def fs_write_def demo_env_def assms)
  show "vault_lib_ok (demo_vault_lib f v)" by (auto simp: vault_lib_ok_def demo_vault_lib_def as_bytes_from_utf8)
  show "open_vault (demo_vault_lib f v) ''correct horse'' path fs = Some (Inr v)" if "fs path = Some (''f'', m)"
    using that by (simp add: open_vault_def demo_vault_lib_def assms(2) as_bytes_from_utf8 derive_key_def nonce_from_slice_def)
qed

lemma demo_init:
  defines "m \<equiv> master_key_generate demo_access_lib (replicate 32 7)"
    and "w \<equiv> wallet_new demo_sig_lib (replicate 12 4) (replicate 12 4)"
  assumes t1: "t1 = issue_token demo_access_lib 5 m ''owner'' (master_public_hex demo_access_lib m) [PermAdmin] 0"
    and v: "v = \<lparr>secret_keys = [master_secret_hex demo_access_lib m, wallet_secret_key_hex demo_sig_lib w],
      labels = [''master-key'', ''default-wallet''], created_at = 5\<rparr>"
    and f: "f = \<lparr>vault_version = 1, argon2_salt = from_utf8 (replicate 16 3), vault_nonce = from_utf8 (replicate 12 4),
      ciphertext = from_utf8 [1], passphrase_hash = from_utf8 (as_bytes ''correct horse'')\<rparr>"
  obtains fs1 where "cmd_init demo_access_lib (demo_codec t1 t) (demo_vault_lib f v) demo_sig_lib demo_env ''d'' Map.empty =
      Some (Inr (Initialized (master_public_hex demo_access_lib m) (wallet_address demo_sig_lib w)), fs1)"
    "fs1 (vault_enc ''d'') = Some (''f'', 0x180)" "fs1 (revoked_json ''d'') = None"
proof -
  note vault = demo_vault_written [OF v f]
  have p: "vault_enc ''d'' \<noteq> master_pub ''d''" "vault_enc ''d'' \<noteq> token_path ''d'' ''owner''"
    "revoked_json ''d'' \<noteq> master_pub ''d''" "revoked_json ''d'' \<noteq> token_path ''d'' ''owner''"
    "revoked_json ''d'' \<noteq> vault_enc ''d''"
    using apart_paths by metis+
  have env: "env_rand demo_env 0 = replicate 32 7" "env_rand demo_env 1 = replicate 12 4" "env_rand demo_env 2 = replicate 12 4"
    "env_now demo_env n = 5" "env_write demo_env n = None" "env_mkdir demo_env n" "env_umode demo_env = 0x1a4"
    "prompt_passphrase demo_env b = Inr ''correct horse''" for n b
    by (simp_all add: demo_env_def prompt_passphrase_def)
  have "init_store demo_access_lib (demo_codec t1 t) (demo_vault_lib f v) demo_sig_lib demo_env ''d'' ''correct horse'' Map.empty =
    Some (Inr (Initialized (master_public_hex demo_access_lib m) (wallet_address demo_sig_lib w)),
      Map.empty(vault_enc ''d'' \<mapsto> (''f'', 0x180),
        master_pub ''d'' \<mapsto> (master_public_hex demo_access_lib m, 0x1a4), token_path ''d'' ''owner'' \<mapsto> (''1'', 0x1a4)))"
    unfolding init_store_def Let_def env m_def [symmetric] w_def [symmetric] t1 [symmetric] vault(1)
    using p by (simp add: bind_cmd_def lift_err_def save_public_key_def save_text_def fs_write_def token_save_def
        demo_codec_def env)
  then have "cmd_init demo_access_lib (demo_codec t1 t) (demo_vault_lib f v) demo_sig_lib demo_env ''d'' Map.empty =
    Some (Inr (Initialized (master_public_hex demo_access_lib m) (wallet_address demo_sig_lib w)),
      Map.empty(vault_enc ''d'' \<mapsto> (''f'', 0x180),
        master_pub ''d'' \<mapsto> (master_public_hex demo_access_lib m, 0x1a4), token_path ''d'' ''owner'' \<mapsto> (''1'', 0x1a4)))"
    by (simp add: cmd_init_def bind_cmd_def env)
  with p show thesis by (intro that) (assumption, simp_all)
qed

theorem granted_token_lifecycle_witness:
  "\<exists>(V :: bytes vault_lib) J t path fs1 fs2 fs3 pub addr.
     cmd_init demo_access_lib J V demo_sig_lib demo_env ''d'' Map.empty = Some (Inr (Initialized pub addr), fs1)
   \<and> cmd_grant demo_access_lib J V demo_env ''d'' ''bob'' [''mine''] 0 fs1 = Some (Inr (Granted t path), fs2)
   \<and> cmd_revoke J demo_env ''d'' (token_id t) fs2 = Some (Inr (Revoked (token_id t)), fs3)
   \<and> cmd_verify_token demo_access_lib J 6 ''d'' path fs2 = Inr (Verified (Inr t))
   \<and> cmd_verify_token demo_access_lib J 6 ''d'' path fs3 = Inr (Verified (Inl (TokenRevoked (token_id t))))"
proof -
  let ?A = demo_access_lib
  define sec :: bytes where "sec = replicate 32 7"
  define m where "m = master_key_generate ?A sec"
  define w where "w = wallet_new demo_sig_lib (replicate 12 4) (replicate 12 4)"
  define t1 where "t1 = issue_token ?A 5 m ''owner'' (master_public_hex ?A m) [PermAdmin] 0"
  define t where "t = issue_token ?A 5 (master_key_from_secret_bytes ?A sec) ''bob'' (master_public_hex ?A m) [PermMine] 0"
  define J where "J = demo_codec t1 t"
  define v where "v = \<lparr>secret_keys = [master_secret_hex ?A m, wallet_secret_key_hex demo_sig_lib w],
    labels = [''master-key'', ''default-wallet''], created_at = 5\<rparr>"
  define f where "f = \<lparr>vault_version = 1, argon2_salt = from_utf8 (replicate 16 3), vault_nonce = from_utf8 (replicate 12 4),
      ciphertext = from_utf8 [1], passphrase_hash = from_utf8 (as_bytes ''correct horse'')\<rparr>"
  note vault = demo_vault_written [OF v_def f_def]
  let ?V = "demo_vault_lib f v"
  have env: "env_rand demo_env 0 = sec" "env_rand demo_env 1 = replicate 12 4" "env_rand demo_env 2 = replicate 12 4"
    "env_now demo_env n = 5" "env_write demo_env n = None" "env_mkdir demo_env n" "env_umode demo_env = 0x1a4"
    "prompt_passphrase demo_env b = Inr ''correct horse''" for n b
    by (simp_all add: demo_env_def sec_def prompt_passphrase_def)
  obtain fs1 where i: "cmd_init ?A J ?V demo_sig_lib demo_env ''d'' Map.empty =
      Some (Inr (Initialized (master_public_hex ?A m) (wallet_address demo_sig_lib w)), fs1)"
    "fs1 (vault_enc ''d'') = Some (''f'', 0x180)" "fs1 (revoked_json ''d'') = None"
    by (rule demo_init [OF t1_def [unfolded m_def sec_def] v_def [unfolded m_def sec_def w_def] f_def, of t,
          folded sec_def m_def w_def J_def])
  let ?path = "token_path ''d'' ''bob''"
  obtain js where js: "token_to_json J t = Some js" by (cases "t = t1") (simp_all add: J_def demo_codec_def)
  define fs2 where "fs2 = fs1(?path \<mapsto> (js, case fs1 ?path of Some (_, m) \<Rightarrow> m | None \<Rightarrow> 0x1a4))"
  have hex: "lib_hex_decode ?A (master_secret_hex ?A m) = Some sec" "length sec = 32"
    using demo_access_lib_ok(1) by (simp_all add: hex_ok_def master_secret_hex_def m_def master_key_generate_def sec_def)
  have g: "cmd_grant ?A J ?V demo_env ''d'' ''bob'' [''mine''] 0 fs1 = Some (Inr (Granted t ?path), fs2)"
    using hex js vault(3) [of fs1 "vault_enc ''d''"] i(2)
    by (simp add: cmd_grant_def bind_cmd_def read_vault_def env m_def [symmetric] t_def [symmetric] v_def parse_permission_def
        Let_def lift_err_def token_save_def save_text_def fs_write_def fs2_def)
  have none: "fs2 (revoked_json ''d'') = None" using i(3) apart_paths(2) [of "''d''" "''bob''"] by (simp add: fs2_def)
  obtain fs3 where r: "cmd_revoke J demo_env ''d'' (token_id t) fs2 = Some (Inr (Revoked (token_id t)), fs3)"
    using none by (simp add: cmd_revoke_def bind_cmd_def revocation_load_def revoke_def lift_err_def revocation_save_def
        save_text_def fs_write_def env J_def demo_codec_def)
  have "expires_at t = 0" by (simp add: t_def issue_token_fields(1))
  moreover have "\<not> is_revoked (token_id t) (revocation_or_default J (revoked_json ''d'') fs2)"
    using none by (simp add: revocation_or_default_def revocation_load_def is_revoked_def)
  ultimately have "cmd_verify_token ?A J 6 ''d'' ?path fs2 = Inr (Verified (Inr t))
      \<and> cmd_verify_token ?A J 6 ''d'' ?path fs3 = Inr (Verified (Inl (TokenRevoked (token_id t))))"
    using granted_token_lifecycle [OF vault(2) demo_access_lib_ok(1,2) demo_codec_reads [of t1 t, folded J_def] i(1) g r, of 6]
    by simp
  with i(1) g r show ?thesis by blast
qed

section \<open>Errors of the commands\<close>

text \<open>A revocation list that cannot be read revokes nothing: the verification goes on without it.\<close>

lemma damaged_revocations_ignored:
  assumes "fs (revoked_json datadir) = Some (s, mode)" "revocation_of_json J s = None"
    and "token_load J file fs = Inr t" "fs_read fs (master_pub datadir) = Some mp"
    and "verify_token A now t (trim mp) = Inr ()"
  shows "cmd_verify_token A J now datadir file fs = Inr (Verified (Inr t))"
  using assms
  by (auto simp: cmd_verify_token_def verify_token_def verify_with_revocation_def revocation_or_default_def
      revocation_load_def fs_read_def is_revoked_def try_res_Inr split: if_splits)

text \<open>\<open>new-wallet\<close> accepts a label in use; the key stored under it is then out of reach, as the first
  key of a label is taken.\<close>

lemma position_append:
  "position P (xs @ ys) = (case position P xs of Some i \<Rightarrow> Some i | None \<Rightarrow> map_option (\<lambda>i. length xs + i) (position P ys))"
  by (cases "position P ys"; induction xs) (auto split: option.splits)

lemma position_less: "position P xs = Some i \<Longrightarrow> i < length xs"
  by (induction xs arbitrary: i) (auto split: if_splits)

lemma duplicate_label_unreachable:
  assumes "label \<in> set (labels v)" "length (secret_keys v) = length (labels v)"
  shows "wallet_secret (v\<lparr>secret_keys := secret_keys v @ [k], labels := labels v @ [label]\<rparr>) l = wallet_secret v l"
proof (cases "position (\<lambda>x. x = l) (labels v)")
  case None
  have "label \<noteq> l"
  proof
    assume "label = l"
    have "l \<in> set ls \<Longrightarrow> position (\<lambda>x. x = l) ls \<noteq> None" for ls by (induction ls) auto
    with assms(1) None \<open>label = l\<close> show False by blast
  qed
  with None show ?thesis by (simp add: wallet_secret_def position_append)
next
  case (Some i)
  then show ?thesis
    using position_less [OF Some] assms(2) by (simp add: wallet_secret_def position_append nth_append)
qed

text \<open>\<open>backup\<close> onto the vault itself empties it, and reports success.\<close>

lemma backup_onto_vault:
  assumes "cmd_backup V env datadir (vault_enc datadir) fs = Some (Inr r, fs')"
  shows "fs_read fs' (vault_enc datadir) = Some []"
  using assms by (auto simp: cmd_backup_def fs_read_def split: option.splits if_splits)

end
