(* ===== verification/Dispatch.thy ===== *)
theory Dispatch
  imports Cli
begin

text \<open>
  The program \<open>arkos\<close> as a whole (\<open>src/main.rs\<close>): its options and commands with their defaults,
  the paths derived from them, the choice of the command, and the start of the RPC server beside
  the node (\<open>start_rpc_server\<close>, \<open>src/rpc/server.rs\<close>). The parsing of the arguments into these
  types is done by \<open>clap\<close>, opening a store (\<open>BlockStore::open\<close>) by RocksDB: the outcome for a path
  is part of the surroundings of a run.
\<close>

section \<open>Options and commands\<close>

record cli_opts =
  cli_listen :: string
  cli_rpc_listen :: string
  cli_peer :: "string list"
  cli_dns_seed :: "string list"
  cli_datadir :: string
  cli_network :: string
  cli_rpc_token :: "string option"
  cli_rpc_cors_origin :: "string option"

definition default_opts :: cli_opts where
  "default_opts =
     \<lparr>cli_listen = ''127.0.0.1:8333'', cli_rpc_listen = ''127.0.0.1:8334'', cli_peer = [], cli_dns_seed = [],
      cli_datadir = ''~/.arkos'', cli_network = ''mainnet'', cli_rpc_token = None, cli_rpc_cors_origin = None\<rparr>"

datatype command =
    Init
  | Grant string "string list" u64
  | Revoke string
  | ListTokens
  | VerifyToken string
  | NewWallet string
  | ShowPhrase string
  | RestoreWallet string string
  | ListWallets
  | Backup string
  | Balance string
  | NodeCommand "string option"
  | Send string string u64
  | Mine string
  | Info
  | Demo

text \<open>The surroundings of a run: stores by path, the directory of tokens, the resolver, the outcomes
  of connecting, the anchor file, the clock of the loading of the chain, and whether the RPC port
  can be bound.\<close>

record 'd surroundings =
  sr_store :: "string \<Rightarrow> 'd option"
  sr_tokens_dir :: bool
  sr_token_files :: "string option list option"
  sr_resolver :: "string \<Rightarrow> string list option"
  sr_up :: "nat \<Rightarrow> bool \<times> bool"
  sr_anchors :: "string option"
  sr_clock :: "nat \<Rightarrow> u64"
  sr_bind :: bool

datatype rpc_start_err = BadOrigin | BindFailed

text \<open>\<open>start_rpc_server\<close>: whether it warns, and the server it starts; a bad origin or a port in use
  end the task with an error that is only logged.\<close>

definition start_rpc_server ::
  "'y rpc_lib_scheme \<Rightarrow> bool \<Rightarrow> 'd blockchain \<Rightarrow> string \<Rightarrow> rpc_server_config
     \<Rightarrow> bool \<times> (rpc_start_err + bytes \<times> 'd server_state)" where
  "start_rpc_server J bind c addr cfg =
     (warns_public_bind addr,
      try_res (ok_or BadOrigin (router J c cfg)) (\<lambda>app. if bind then Inr app else Inl BindFailed))"

datatype 'd run_result =
    Stopped cli_err
  | Reported "cli_err + report"
  | OnFiles "(files, cli_err, report) st_result option"
  | OnChain "('d blockchain option, cli_err, report) st_result option"
  | NodeUp "(cli_err + 'd node \<times> bool \<times> (rpc_start_err + bytes \<times> 'd server_state)) option"
  | DemoRun "(cli_err + demo_report) option"

definition network_datadir :: "cli_env \<Rightarrow> cli_opts \<Rightarrow> string" where
  "network_datadir env opts = path_join (expand_datadir env (cli_datadir opts)) (cli_network opts)"

definition chain_path :: "cli_env \<Rightarrow> cli_opts \<Rightarrow> string" where
  "chain_path env opts = path_join (network_datadir env opts) ''chain''"

definition node_command ::
  "('d, 'x) store_lib_scheme \<Rightarrow> 'y rpc_lib_scheme \<Rightarrow> cli_env \<Rightarrow> 'd surroundings \<Rightarrow> u32 \<Rightarrow> cli_opts \<Rightarrow> 'd run_result" where
  "node_command X J env w magic opts =
     NodeUp (map_option (map_sum id (\<lambda>nd.
         (nd, start_rpc_server J (sr_bind w) (node_chain nd) (cli_rpc_listen opts)
            \<lparr>auth_token = cli_rpc_token opts, cors_origin = cli_rpc_cors_origin opts\<rparr>)))
       (cmd_node X env (sr_clock w) (cli_network opts) (sr_store w (chain_path env opts)) (sr_resolver w) (sr_up w)
          (cli_listen opts) magic (sr_anchors w) (cli_peer opts) (cli_dns_seed opts)))"

definition main_run ::
  "('d, 'x) store_lib_scheme \<Rightarrow> 'w wallet_lib_scheme \<Rightarrow> 'a access_lib_scheme \<Rightarrow> access_codec \<Rightarrow> 'h vault_lib \<Rightarrow> 'y rpc_lib_scheme
     \<Rightarrow> cli_env \<Rightarrow> 'd surroundings \<Rightarrow> cli_opts \<Rightarrow> command \<Rightarrow> files \<Rightarrow> 'd run_result" where
  "main_run X W A J V R env w opts cmd fs =
     (let datadir = expand_datadir env (cli_datadir opts);
          network = cli_network opts;
          db = sr_store w (chain_path env opts) in
      case cli_network_magic network of
        Inl e \<Rightarrow> Stopped e
      | Inr magic \<Rightarrow>
          (case cmd of
             Init \<Rightarrow> OnFiles (cmd_init A J V W env datadir fs)
           | Grant name perms days \<Rightarrow> OnFiles (cmd_grant A J V env datadir name perms days fs)
           | Revoke tid \<Rightarrow> OnFiles (cmd_revoke J env datadir tid fs)
           | ListTokens \<Rightarrow> Reported (cmd_list_tokens J env (sr_tokens_dir w) (sr_token_files w) datadir fs)
           | VerifyToken file \<Rightarrow> Reported (cmd_verify_token A J (env_now env 0) datadir file fs)
           | NewWallet label \<Rightarrow> OnFiles (cmd_new_wallet V W env datadir label fs)
           | ShowPhrase label \<Rightarrow> OnFiles (cmd_show_phrase V W env datadir label fs)
           | RestoreWallet label phrase \<Rightarrow> OnFiles (cmd_restore_wallet V W env datadir label phrase fs)
           | ListWallets \<Rightarrow> OnFiles (cmd_list_wallets V W env datadir fs)
           | Backup output \<Rightarrow> OnFiles (cmd_backup V env datadir output fs)
           | NodeCommand miner \<Rightarrow> node_command X R env w magic opts
           | Mine address \<Rightarrow> OnChain (cmd_mine X env (sr_clock w) network db address)
           | Balance address \<Rightarrow> OnChain (cmd_balance X env (sr_clock w) network db address)
           | Send from_label recipient amount \<Rightarrow>
               OnChain (cmd_send X V env (sr_clock w) network db datadir fs from_label recipient amount)
           | Info \<Rightarrow> OnChain (cmd_info X env (sr_clock w) network db)
           | Demo \<Rightarrow> DemoRun (cmd_demo X A env (sr_clock w) network)))"

section \<open>What the options decide\<close>

text \<open>An unknown network refuses every command, those on files included.\<close>

lemma unknown_network_stops:
  assumes "cli_network opts \<notin> {''mainnet'', ''testnet'', ''regtest''}"
  shows "main_run X W A J V R env w opts cmd fs = Stopped (UnknownNetwork (cli_network opts))"
  using assms by (simp add: main_run_def Let_def cli_network_magic_def)

text \<open>Each network has a store of its own below one data directory, and a run opens no other.\<close>

lemma path_join_inject:
  "hd p \<noteq> CHR ''/'' \<Longrightarrow> hd q \<noteq> CHR ''/'' \<Longrightarrow> path_join d p = path_join d q \<longleftrightarrow> p = q"
  by (auto simp: path_join_def)

lemma path_join_chain:
  "path_join d ''chain'' = path_join e ''chain'' \<Longrightarrow> last d \<noteq> CHR ''/'' \<Longrightarrow> last e \<noteq> CHR ''/'' \<Longrightarrow>
     d \<noteq> [] \<Longrightarrow> e \<noteq> [] \<Longrightarrow> d = e"
  by (simp add: path_join_def)

lemma known_network:
  assumes "cli_network_magic n = Inr m"
  shows "n \<noteq> []" "hd n \<noteq> CHR ''/''" "last n \<noteq> CHR ''/''"
  using assms by (auto simp: cli_network_magic_def split: if_splits)

lemma networks_have_own_stores:
  assumes "cli_network_magic (cli_network opts) = Inr m" "cli_network_magic (cli_network opts') = Inr m'"
    and "cli_datadir opts = cli_datadir opts'" "cli_network opts \<noteq> cli_network opts'"
  shows "chain_path env opts \<noteq> chain_path env opts'"
proof
  assume eq: "chain_path env opts = chain_path env opts'"
  note n = known_network [OF assms(1)] known_network [OF assms(2)]
  have join: "path_join d n \<noteq> []" "last (path_join d n) \<noteq> CHR ''/''"
    if "n \<noteq> []" "last n \<noteq> CHR ''/''" for d n
    using that by (simp_all add: path_join_def)
  have "network_datadir env opts = network_datadir env opts'"
    unfolding network_datadir_def
    by (rule path_join_chain [OF eq [unfolded chain_path_def network_datadir_def] join(2) [OF n(1,3)] join(2) [OF n(4,6)]
          join(1) [OF n(1,3)] join(1) [OF n(4,6)]])
  with assms(3,4) path_join_inject [OF n(2,5)] show False by (simp add: network_datadir_def)
qed

lemma run_opens_own_store:
  assumes "sr_store w (chain_path env opts) = sr_store w' (chain_path env opts)"
    and "w' = w\<lparr>sr_store := sr_store w'\<rparr>"
  shows "main_run X W A J V R env w opts cmd fs = main_run X W A J V R env w' opts cmd fs"
proof -
  have f: "sr_tokens_dir w' = sr_tokens_dir w" "sr_token_files w' = sr_token_files w" "sr_resolver w' = sr_resolver w"
    "sr_up w' = sr_up w" "sr_anchors w' = sr_anchors w" "sr_clock w' = sr_clock w" "sr_bind w' = sr_bind w"
    by (subst assms(2), simp)+
  show ?thesis unfolding main_run_def Let_def node_command_def assms(1) f by (rule refl)
qed

end
