(* ===== verification/Spec2Isabelle.thy ===== *)
theory Spec2Isabelle
  imports Node Merkle Device Access ArkHash Wallet Rpc Mobile Peer_Conn Discovery Vault Ledger Convergence Mining Sessions Dispatch
begin

text \<open>
  A verification development of Arkos, a proof-of-work block chain node in Rust with hybrid
  (classical and post-quantum) signatures: its wallet, mempool, chain, peer-to-peer network, RPC
  interface, key vault, access tokens, command line and mobile mining library.

  \<^bold>\<open>The program.\<close> The command line (\<open>src/main.rs\<close>) opens the block store, rebuilds the chain from it
  and runs one command, or the node. The node shares one \<open>Blockchain\<close> between the sessions with its
  peers, its background tasks and the RPC server. A block from any of them goes to \<open>add_block\<close>, which
  checks it against the branch it extends, stores it, and switches to that branch when it has more
  work; a transaction goes to \<open>submit_transaction\<close>, which checks it against the unspent outputs of the
  active chain and puts it into the mempool, from which \<open>mine_block\<close> and the block templates of the RPC
  interface take what they include. Wallets build transactions from the unspent outputs; vault and
  access tokens are files beside the chain.

  \<^bold>\<open>The theories\<close>, from the bottom up, each named with the source it models.

  \<^item> \<open>Prelude\<close>: machine words, checked and saturating arithmetic, bytes, text and numbers, results of
    operations that change a state, and the interfaces of codes that can be read back.
  \<^item> \<open>Hash_Map\<close>: \<open>HashMap\<close> as an association list with distinct keys, sorting, the interface of maps,
    the rule by which an invariant kept by every step holds in every reachable state, and the one by
    which a system whose steps are steps of a specification refines it.
  \<^item> \<open>Files\<close>: the part of \<open>std::fs\<close> and \<open>std::path\<close> that is used.
  \<^item> \<open>Crypto\<close>: \<open>crypto/hash.rs\<close>, \<open>crypto/keys.rs\<close>, \<open>crypto/quantum.rs\<close>. \<open>ArkHash\<close>:
    \<open>crypto/arkhash.rs\<close>.
  \<^item> \<open>Transactions\<close>: \<open>transaction/tx.rs\<close>. \<open>Utxo\<close>: \<open>transaction/utxo.rs\<close>. \<open>Mempool\<close>:
    \<open>transaction/mempool.rs\<close>.
  \<^item> \<open>Consensus\<close>: \<open>blockchain/consensus.rs\<close>. \<open>Blocks\<close>: \<open>blockchain/block.rs\<close>, with \<open>Merkle\<close> on what a
    root binds. \<open>Storage\<close>: \<open>storage/db.rs\<close>.
  \<^item> \<open>blockchain/chain.rs\<close> is modelled in \<open>Tx_Validation\<close> (scripts and transactions) and \<open>Chain\<close> (the
    state and every operation). On it rest \<open>Chain_Walk\<close> (the walk back to the genesis block),
    \<open>Chain_Invariants\<close> (the invariant and that \<open>add_block\<close> keeps it), \<open>Chain_Rules\<close> (acceptance of a
    block as a condition, runs), \<open>Chain_Properties\<close>, \<open>Chain_Validity\<close> (every block of the active chain
    was checked in its context), \<open>Finality\<close> (how deep a switch of chains reaches, with
    \<open>Deep_Chain\<close> for its witness), \<open>Ledger\<close> (the specification of a ledger and that a node refines it),
    \<open>Convergence\<close> (nodes that receive the same blocks in different orders), \<open>Supply\<close> (the
    value of all outputs), \<open>Mining\<close> (a payment from submission to confirmation) and \<open>Reopen\<close> (restart from the store).
  \<^item> \<open>Protocol\<close>: \<open>network/protocol.rs\<close>. \<open>Peers\<close>: \<open>network/peers.rs\<close>. \<open>Discovery\<close>:
    \<open>network/discovery.rs\<close>. \<open>Rate_Limit\<close>: \<open>security/rate_limit.rs\<close>. \<open>Noise\<close>: \<open>network/noise.rs\<close>.
    \<open>Peer_Conn\<close>: \<open>network/peer.rs\<close>. \<open>Node\<close> and \<open>Sessions\<close>: \<open>network/node.rs\<close>, the handling of single
    events and the tasks that run a session.
  \<^item> \<open>Rpc\<close>: \<open>rpc/methods.rs\<close>, \<open>rpc/server.rs\<close> and the client \<open>bin/soak_miner.rs\<close>. \<open>Mobile\<close>:
    \<open>mobile/native/src/lib.rs\<close>. \<open>Device\<close>: \<open>mining/device.rs\<close>.
  \<^item> \<open>Wallet\<close>: \<open>wallet/wallet.rs\<close>. \<open>Vault\<close>: \<open>security/vault.rs\<close>. \<open>Access\<close>: \<open>security/access.rs\<close>.
    \<open>Cli\<close> and \<open>Dispatch\<close>: \<open>main.rs\<close>, the commands and the program that chooses among them.

  \<^bold>\<open>How state and operations correspond.\<close> A struct is a record, an enum a datatype, with the names of
  the source where they are free. Integers keep their width and wrap, as in the release build, unless
  the code calls a checked or saturating operation; \<open>usize\<close> is a natural number. An operation
  on \<open>&mut self\<close> takes the state last and returns its result together with the state it leaves, also
  after an error; \<open>Inl\<close> is an error with its kind, and \<open>None\<close> a panic or, for the searches for a nonce,
  a loop that does not end. Clocks, random bytes, the order of a \<open>HashMap\<close>, the outcome of sending,
  connecting, reading and writing are arguments. Third-party crates (hashes, signatures, encodings,
  RocksDB, Noise, JSON) are the fields of library records, extended layer by layer; what a theorem uses
  of them is one of the named predicates (\<open>sha_ok\<close>, \<open>hex_ok\<close>, \<open>sign_ok\<close>, \<open>db_ok\<close>, \<open>codec_ok\<close> and the
  like), each shown to hold of a concrete library in the witnesses.

  \<^bold>\<open>What the lemmas show.\<close>

  \<^item> \<^emph>\<open>State.\<close> Chain, mempool, address store, device registry, rate limiters and the node as a whole keep
    their invariants over every run; each is an interpretation of \<open>guarded_system\<close>
    (of its extension \<open>simulating_system\<close> where the steps refine a specification).
  \<^item> \<^emph>\<open>Consensus.\<close> No stored chain has more work than the active one; every block of the active chain
    passed every check against the blocks before it; a switch of chains replaces at most the last 200
    blocks; a node refines the specification of a ledger; nodes that accepted the same blocks agree on
    the chain unless two chains tie; the value of all outputs never exceeds the cap
    as long as no transaction names an output twice; the keys of the outputs are well typed.
  \<^item> \<^emph>\<open>Progress.\<close> Payments that do not touch each other are confirmed by the next mined block; a
    template mined over RPC is accepted; a round of synchronisation brings the missing blocks, up to
    the limit of ten a minute; a restart restores the chain.
  \<^item> \<^emph>\<open>Arithmetic.\<close> Difficulty, targets, rewards, the layers of the memory-hard hash and the selection
    by fee rate against exact arithmetic; the mobile miner against the node.
  \<^item> \<^emph>\<open>Binding.\<close> Merkle roots, signed bytes and framed encodings determine what they stand for;
    encrypted transport, vault, tokens and wallets read back what they wrote.
  \<^item> \<^emph>\<open>Where the code does something else.\<close> Outputs named twice create value; an m-of-n script is met by
    one key; two payments of one output stop local mining; long messages are not received; the
    documented template request is refused; reloading checks signatures with the magic of another
    network.

  \<^bold>\<open>Bounds.\<close> The walk from a block back to the genesis block (\<open>chain_walk\<close>) has the number of stored
  blocks plus one as fuel; \<open>chain_to_hash_terminates\<close> shows that a well-formed store never uses it up.
  The searches for a nonce and the locator loop are partial functions of \<open>option\<close>; that the locator is
  always produced and when a search returns are lemmas. Every other loop is structural or has a
  measure. The theorems on runs leave out two events that need more than \<open>2^64\<close> units of minted
  value or a hash collision: an overflow of the minted total during a switch, and a block that is the
  missing parent of one already stored. \<open>Finality\<close> also leaves out a store that fails in the middle of
  a switch, after which no pruning takes place.

  \<^bold>\<open>Not modelled\<close>: the tokio runtime, channels, locks and sockets (a step holds the state it reads, and
  sessions list what the scheduler delivered); the opening of RocksDB; argument parsing by clap and
  password prompts; HTTP routing and CORS of axum; logging and printed text, except for the values
  shown; the erasing of secrets in memory; build scripts, fuzz targets and tests.
\<close>

end
